(* ===== verification/Prelude.thy ===== *)
theory Prelude
  imports Main "HOL-Library.Word" "HOL-Library.Char_ord" "HOL-Library.List_Lexorder"
begin

text \<open>
  Shared vocabulary of the development.

  A Go \<open>string\<close> is a sequence of bytes, and so is an Isabelle \<open>string\<close>: a \<open>char\<close> is one
  byte, \<open>length\<close> is Go's \<open>len\<close>, and the order of \<open>HOL-Library.List_Lexorder\<close> over
  \<open>HOL-Library.Char_ord\<close> is the order \<open>sort.Strings\<close> uses.  Package bytes are lists of
  8-bit words.  A function that returns a Go \<open>error\<close> and nothing else is modelled with an
  \<open>option\<close> (\<open>None\<close> is \<open>nil\<close>); one that returns a value and an error is modelled with a sum
  (\<open>Inl\<close> the error, \<open>Inr\<close> the value).

  A Go \<open>range\<close> over a map visits every key exactly once, in an order the language leaves
  open.  Every such loop takes the order as an explicit list, and the predicate
  \<open>range_order\<close> is the only thing that is known about it.
\<close>

type_synonym byte = "8 word"

named_theorems state_simps
  \<open>closed forms of the operations of the stateful components\<close>

named_theorems inv_intros
  \<open>an operation of a component keeps the invariant of the component\<close>

subsection \<open>Ranging over a Go map\<close>

definition range_order :: "'a list \<Rightarrow> 'a set \<Rightarrow> bool" where
  "range_order ks S \<longleftrightarrow> distinct ks \<and> set ks = S"

lemma range_orderI [intro]: "distinct ks \<Longrightarrow> set ks = S \<Longrightarrow> range_order ks S"
  by (simp add: range_order_def)

lemma range_order_set: "range_order ks S \<Longrightarrow> set ks = S"
  by (simp add: range_order_def)

lemma range_order_distinct: "range_order ks S \<Longrightarrow> distinct ks"
  by (simp add: range_order_def)

lemma range_order_finite: "range_order ks S \<Longrightarrow> finite S"
  by (auto simp: range_order_def)

lemma range_order_Nil [simp]: "range_order [] S \<longleftrightarrow> S = {}"
  by (auto simp: range_order_def)

lemma range_order_exists: "finite S \<Longrightarrow> \<exists>ks. range_order ks S"
  using finite_distinct_list by (fastforce simp: range_order_def)

subsection \<open>Signed 64-bit arithmetic\<close>

text \<open>Go's \<open>int64\<close> (and \<open>int\<close> on the supported platforms) wraps in two's complement.\<close>

definition wrap64 :: "int \<Rightarrow> int" where
  "wrap64 x = (x + 2 ^ 63) mod 2 ^ 64 - 2 ^ 63"

lemma wrap64_id [simp]: "- (2 ^ 63) \<le> x \<Longrightarrow> x < 2 ^ 63 \<Longrightarrow> wrap64 x = x"
  by (simp add: wrap64_def)

lemma wrap64_bounds: "- (2 ^ 63) \<le> wrap64 x \<and> wrap64 x < 2 ^ 63"
  by (simp add: wrap64_def)

subsection \<open>Folds over maps\<close>

lemma fold_fun_upd_outside:
  "(\<And>k m x. x \<noteq> k \<Longrightarrow> f k m x = m x) \<Longrightarrow> x \<notin> set ks \<Longrightarrow> fold f ks m x = m x"
  by (induction ks arbitrary: m) auto

subsection \<open>Runs of a labelled step relation\<close>

inductive run :: "('s \<Rightarrow> 'e \<Rightarrow> 's \<Rightarrow> bool) \<Rightarrow> 's \<Rightarrow> 'e list \<Rightarrow> 's \<Rightarrow> bool" for step where
  run_Nil: "run step s [] s"
| run_Cons: "step s e s' \<Longrightarrow> run step s' es s'' \<Longrightarrow> run step s (e # es) s''"

inductive_cases run_NilE [elim!]: "run step s [] s'"
inductive_cases run_ConsE [elim!]: "run step s (e # es) s'"

inductive_simps run_Nil_iff [simp]: "run step s [] s'"
inductive_simps run_Cons_iff: "run step s (e # es) s'"

lemma run_invariant:
  assumes "run step s es s'" "P s" "\<And>s e s'. step s e s' \<Longrightarrow> P s \<Longrightarrow> P s'"
  shows "P s'"
  using assms by (induction rule: run.induct) auto

lemma run_append: "run step s es s' \<Longrightarrow> run step s' fs s'' \<Longrightarrow> run step s (es @ fs) s''"
  by (induction rule: run.induct) (auto intro: run.intros)

lemma run_snoc: "run step s es s' \<Longrightarrow> step s' e s'' \<Longrightarrow> run step s (es @ [e]) s''"
  by (auto intro: run_append run.intros)

end
