(* ===== verification/Go_Path.thy ===== *)
theory Go_Path
  imports Go_Strings
begin

text \<open>
  Go's \<open>path.Clean\<close> and \<open>filepath.Base\<close> (Unix) and the decimal conversions of \<open>strconv\<close>.
  \<open>path.Clean\<close> is the containment argument of the mirror facade: the segments of a cleaned
  rooted path are never empty, \<open>.\<close> or \<open>..\<close> (\<open>clean_segs_rooted\<close>).
\<close>

subsection \<open>path.Clean\<close>

text \<open>
  The elements are processed left to right against a stack (innermost element first): an empty
  element and \<open>.\<close> vanish, \<open>..\<close> removes the element before it, a \<open>..\<close> at the root of a
  rooted path vanishes and one at the start of a relative path is kept.
\<close>

fun clean_segs :: "bool \<Rightarrow> string list \<Rightarrow> string list \<Rightarrow> string list" where
  "clean_segs rooted st [] = rev st"
| "clean_segs rooted st (x # xs) =
     (if x = '''' \<or> x = ''.'' then clean_segs rooted st xs
      else if x = ''..'' then
        (case st of
           [] \<Rightarrow> if rooted then clean_segs rooted [] xs else clean_segs rooted [''..''] xs
         | y # ys \<Rightarrow> if y = ''..'' then clean_segs rooted (''..'' # st) xs
                     else clean_segs rooted ys xs)
      else clean_segs rooted (x # st) xs)"

definition Clean :: "string \<Rightarrow> string" where
  "Clean p =
     (if p = [] then ''.''
      else if hd p = CHR ''/'' then CHR ''/'' # Join (clean_segs True [] (Split p (CHR ''/''))) ''/''
      else let segs = clean_segs False [] (Split p (CHR ''/''))
           in if segs = [] then ''.'' else Join segs ''/'')"

definition plain_seg :: "string \<Rightarrow> bool" where
  "plain_seg x \<longleftrightarrow> x \<noteq> '''' \<and> x \<noteq> ''.'' \<and> x \<noteq> ''..'' \<and> CHR ''/'' \<notin> set x"

text \<open>The elements of a cleaned rooted path.\<close>

definition rooted_segs :: "string \<Rightarrow> string list" where
  "rooted_segs p = clean_segs True [] (Split p (CHR ''/''))"

lemma clean_segs_plain:
  "list_all plain_seg st \<Longrightarrow> \<forall>x \<in> set xs. CHR ''/'' \<notin> set x \<Longrightarrow>
   list_all plain_seg (clean_segs True st xs)"
proof (induction "True" st xs rule: clean_segs.induct)
  case (1 st)
  then show ?case by (simp add: list_all_iff)
next
  case (2 st x xs)
  then show ?case by (auto simp: plain_seg_def split: list.splits)
qed

lemma clean_segs_rooted: "list_all plain_seg (rooted_segs p)"
  unfolding rooted_segs_def by (rule clean_segs_plain) (auto dest: Split_no_sep)

lemma clean_segs_id: "list_all plain_seg xs \<Longrightarrow> clean_segs True st xs = rev st @ xs"
  by (induction xs arbitrary: st) (auto simp: plain_seg_def)

lemma Clean_rooted: "Clean (CHR ''/'' # p) = CHR ''/'' # Join (rooted_segs p) ''/''"
  by (simp add: Clean_def rooted_segs_def)

lemma Split_Join_rooted:
  "rooted_segs p \<noteq> [] \<Longrightarrow> Split (Join (rooted_segs p) ''/'') (CHR ''/'') = rooted_segs p"
  using clean_segs_rooted [of p] by (intro Split_Join) (auto simp: list_all_iff plain_seg_def)

lemma rooted_segs_Join:
  assumes "list_all plain_seg xs"
  shows "rooted_segs (Join xs ''/'') = xs"
proof (cases "xs = []")
  case False
  with assms have "Split (Join xs ''/'') (CHR ''/'') = xs"
    by (intro Split_Join) (auto simp: list_all_iff plain_seg_def)
  with assms show ?thesis by (simp add: rooted_segs_def clean_segs_id)
qed (simp add: rooted_segs_def)

lemma Clean_idem: "Clean (Clean (CHR ''/'' # p)) = Clean (CHR ''/'' # p)"
  by (simp add: Clean_rooted rooted_segs_Join clean_segs_rooted)

subsection \<open>filepath.Base\<close>

text \<open>Trailing slashes are dropped, then everything up to the last slash.\<close>

definition strip_slashes :: "string \<Rightarrow> string" where
  "strip_slashes p = rev (dropWhile (\<lambda>c. c = CHR ''/'') (rev p))"

definition Base :: "string \<Rightarrow> string" where
  "Base p =
     (if p = [] then ''.''
      else let q = strip_slashes p;
               b = (case LastIndex q (CHR ''/'') of None \<Rightarrow> q | Some i \<Rightarrow> drop (Suc i) q)
           in if b = [] then ''/'' else b)"

lemma strip_slashes_none: "CHR ''/'' \<notin> set p \<Longrightarrow> strip_slashes p = p"
  unfolding strip_slashes_def
  by (cases "rev p") (auto simp: rev_eq_Cons_iff)

lemma Base_plain: "p \<noteq> [] \<Longrightarrow> CHR ''/'' \<notin> set p \<Longrightarrow> Base p = p"
  by (simp add: Base_def strip_slashes_none LastIndex_None [THEN iffD2])

lemma Base_join: "b \<noteq> [] \<Longrightarrow> CHR ''/'' \<notin> set b \<Longrightarrow> Base (d @ CHR ''/'' # b) = b"
proof -
  assume b: "b \<noteq> []" "CHR ''/'' \<notin> set b"
  then have "strip_slashes (d @ CHR ''/'' # b) = d @ CHR ''/'' # b"
    by (cases b rule: rev_cases) (auto simp: strip_slashes_def)
  with b show ?thesis by (simp add: Base_def)
qed

subsection \<open>strconv.Itoa, strconv.FormatInt and strconv.Atoi\<close>

definition digit_char :: "nat \<Rightarrow> char" where
  "digit_char d = char_of (48 + d)"

definition is_digit :: "char \<Rightarrow> bool" where
  "is_digit c \<longleftrightarrow> 48 \<le> (of_char c :: nat) \<and> (of_char c :: nat) \<le> 57"

fun nat_dec :: "nat \<Rightarrow> string" where
  "nat_dec n = (if n < 10 then [digit_char n] else nat_dec (n div 10) @ [digit_char (n mod 10)])"

declare nat_dec.simps [simp del]

definition Itoa :: "int \<Rightarrow> string" where
  "Itoa i = (if i < 0 then CHR ''-'' # nat_dec (nat (- i)) else nat_dec (nat i))"

definition dec_value :: "string \<Rightarrow> nat" where
  "dec_value s = foldl (\<lambda>n c. 10 * n + (of_char c - 48)) 0 s"

definition Atoi :: "string \<Rightarrow> int option" where
  "Atoi s =
     (let neg = (s \<noteq> [] \<and> hd s = CHR ''-'');
          body = (if s \<noteq> [] \<and> (hd s = CHR ''-'' \<or> hd s = CHR ''+'') then tl s else s);
          v = (if neg then - int (dec_value body) else int (dec_value body))
      in if body = [] \<or> \<not> list_all is_digit body then None
         else if v < - (2 ^ 63) \<or> v \<ge> 2 ^ 63 then None
         else Some v)"

lemma digit_char_code: "d < 10 \<Longrightarrow> of_char (digit_char d) = 48 + d"
  by (simp add: digit_char_def)

lemma is_digit_digit_char: "d < 10 \<Longrightarrow> is_digit (digit_char d)"
  by (simp add: is_digit_def digit_char_def)

lemma nat_dec_digits: "list_all is_digit (nat_dec n)"
proof (induction n rule: nat_dec.induct)
  case (1 n)
  then show ?case
    by (subst nat_dec.simps) (auto simp: is_digit_digit_char)
qed

lemma nat_dec_not_Nil [simp]: "nat_dec n \<noteq> []"
  by (subst nat_dec.simps) simp

lemma dec_value_snoc: "dec_value (s @ [c]) = 10 * dec_value s + (of_char c - 48)"
  by (simp add: dec_value_def)

lemma dec_value_nat_dec [simp]: "dec_value (nat_dec n) = n"
proof (induction n rule: nat_dec.induct)
  case (1 n)
  show ?case
  proof (cases "n < 10")
    case True
    then show ?thesis by (simp add: nat_dec.simps [of n] dec_value_def digit_char_code)
  next
    case False
    with 1 show ?thesis
      by (subst nat_dec.simps) (simp add: dec_value_snoc digit_char_code)
  qed
qed

lemma is_digit_not_sign: "is_digit c \<Longrightarrow> c \<noteq> CHR ''-'' \<and> c \<noteq> CHR ''+''"
  by (auto simp: is_digit_def)

lemma nat_dec_hd: "is_digit (hd (nat_dec n))"
  using nat_dec_digits [of n] by (cases "nat_dec n") auto

lemma Atoi_Itoa: "- (2 ^ 63) \<le> i \<Longrightarrow> i < 2 ^ 63 \<Longrightarrow> Atoi (Itoa i) = Some i"
  using nat_dec_hd [of "nat i"] is_digit_not_sign [of "hd (nat_dec (nat i))"] nat_dec_digits
  by (auto simp: Atoi_def Itoa_def Let_def)

lemma Itoa_no_colon: "0 \<le> i \<Longrightarrow> CHR '':'' \<notin> set (Itoa i)"
  using nat_dec_digits [of "nat i"] by (auto simp: Itoa_def list_all_iff is_digit_def)

end
