(* ===== verification/Seed_Limiter.thy ===== *)
theory Seed_Limiter
  imports Go_Path
begin

text \<open>
  Admission control of the seeding side (\<open>src/internal/peer/limit.go\<close>): two non-blocking
  semaphores, one global and one per remote IP.

  The closure \<open>acquire\<close> returns is modelled by the slot it closes over and the \<open>sync.Once\<close> flag
  that makes it idempotent.  The system state pairs the limiter with all closures handed out so
  far, so that releases may come in any order, late or twice.  The invariant \<open>limiter_inv\<close> ties
  the two counters to the closures that have not run yet.
\<close>

subsection \<open>State and operations\<close>

record seedLimiter =
  maxGlobal :: int
  maxPerIP :: int
  global :: int
  perIP :: "string \<rightharpoonup> int"

definition newSeedLimiter :: "int \<Rightarrow> int \<Rightarrow> seedLimiter" where
  "newSeedLimiter g i = \<lparr>maxGlobal = g, maxPerIP = i, global = 0, perIP = Map.empty\<rparr>"

record refusal =
  ref_ip :: string
  ref_reason :: string
  ref_inFlight :: string

text \<open>Reading an absent key of a Go map yields the zero value.\<close>

definition perIP_count :: "seedLimiter \<Rightarrow> string \<Rightarrow> int" where
  "perIP_count l ip = (case perIP l ip of None \<Rightarrow> 0 | Some n \<Rightarrow> n)"

definition inFlightLocked :: "seedLimiter \<Rightarrow> string \<Rightarrow> string" where
  "inFlightLocked l ip = Itoa (global l) @ '' total, '' @ Itoa (perIP_count l ip) @ '' from '' @ ip"

definition acquire :: "string \<Rightarrow> seedLimiter \<Rightarrow> refusal + seedLimiter" where
  "acquire ip l =
     (if maxGlobal l > 0 \<and> global l \<ge> maxGlobal l then
        Inl \<lparr>ref_ip = ip,
             ref_reason = ''the global max_concurrent_seeds cap of '' @ Itoa (maxGlobal l) @ '' is full'',
             ref_inFlight = inFlightLocked l ip\<rparr>
      else if maxPerIP l > 0 \<and> perIP_count l ip \<ge> maxPerIP l then
        Inl \<lparr>ref_ip = ip,
             ref_reason = ''the max_concurrent_seeds_per_ip cap of '' @ Itoa (maxPerIP l) @
               '' is full for this IP'',
             ref_inFlight = inFlightLocked l ip\<rparr>
      else
        Inr (l\<lparr>global := global l + 1, perIP := (perIP l)(ip \<mapsto> perIP_count l ip + 1)\<rparr>))"

text \<open>The body that \<open>once.Do\<close> runs at most once.\<close>

definition release_once :: "string \<Rightarrow> seedLimiter \<Rightarrow> seedLimiter" where
  "release_once ip l =
     (let n = perIP_count l ip - 1
      in l\<lparr>global := global l - 1,
           perIP := (if n \<le> 0 then (perIP l)(ip := None) else (perIP l)(ip \<mapsto> n))\<rparr>)"

record slot =
  slot_ip :: string
  slot_done :: bool

definition release :: "slot \<Rightarrow> seedLimiter \<Rightarrow> slot \<times> seedLimiter" where
  "release s l = (if slot_done s then (s, l) else (s\<lparr>slot_done := True\<rparr>, release_once (slot_ip s) l))"

subsection \<open>The limiter with its outstanding closures\<close>

type_synonym limiter_state = "seedLimiter \<times> slot list"

datatype limiter_event = Acquired string | Refused string refusal | Released nat

inductive limiter_step :: "limiter_state \<Rightarrow> limiter_event \<Rightarrow> limiter_state \<Rightarrow> bool" where
  step_acquire: "acquire ip l = Inr l' \<Longrightarrow>
    limiter_step (l, ss) (Acquired ip) (l', ss @ [\<lparr>slot_ip = ip, slot_done = False\<rparr>])"
| step_refuse: "acquire ip l = Inl r \<Longrightarrow> limiter_step (l, ss) (Refused ip r) (l, ss)"
| step_release: "i < length ss \<Longrightarrow> release (ss ! i) l = (s', l') \<Longrightarrow>
    limiter_step (l, ss) (Released i) (l', ss[i := s'])"

inductive_cases limiter_stepE: "limiter_step x e y"

text \<open>The slots in use: closures handed out and not yet run.\<close>

definition in_use :: "slot list \<Rightarrow> nat" where
  "in_use ss = length (filter (\<lambda>s. \<not> slot_done s) ss)"

definition in_use_by :: "string \<Rightarrow> slot list \<Rightarrow> nat" where
  "in_use_by ip ss = length (filter (\<lambda>s. \<not> slot_done s \<and> slot_ip s = ip) ss)"

definition limiter_inv :: "limiter_state \<Rightarrow> bool" where
  "limiter_inv = (\<lambda>(l, ss).
     global l = int (in_use ss) \<and>
     (\<forall>ip. perIP l ip = (if in_use_by ip ss = 0 then None else Some (int (in_use_by ip ss)))) \<and>
     (maxGlobal l > 0 \<longrightarrow> global l \<le> maxGlobal l) \<and>
     (\<forall>ip. maxPerIP l > 0 \<longrightarrow> int (in_use_by ip ss) \<le> maxPerIP l))"

lemma length_filter_update:
  assumes "i < length xs" "P (xs ! i)" "\<not> P y"
  shows "Suc (length (filter P (xs[i := y]))) = length (filter P xs)"
  using assms
proof (induction xs arbitrary: i)
  case (Cons x xs)
  then show ?case by (cases i) auto
qed simp

lemma length_filter_update_same:
  assumes "i < length xs" "P (xs ! i) = P y"
  shows "length (filter P (xs[i := y])) = length (filter P xs)"
  using assms
proof (induction xs arbitrary: i)
  case (Cons x xs)
  then show ?case by (cases i) auto
qed simp

lemma in_use_snoc [simp]:
  "in_use (ss @ [\<lparr>slot_ip = ip, slot_done = False\<rparr>]) = Suc (in_use ss)"
  "in_use_by ip' (ss @ [\<lparr>slot_ip = ip, slot_done = False\<rparr>]) =
     (if ip' = ip then Suc (in_use_by ip ss) else in_use_by ip' ss)"
  by (simp_all add: in_use_def in_use_by_def)

lemma in_use_release:
  assumes "i < length ss" "\<not> slot_done (ss ! i)"
  shows "Suc (in_use (ss[i := (ss ! i)\<lparr>slot_done := True\<rparr>])) = in_use ss"
    and "in_use_by ip ss = (if ip = slot_ip (ss ! i) then Suc (in_use_by ip (ss[i := (ss ! i)\<lparr>slot_done := True\<rparr>]))
         else in_use_by ip (ss[i := (ss ! i)\<lparr>slot_done := True\<rparr>]))"
  using assms length_filter_update [of i ss "\<lambda>s. \<not> slot_done s \<and> slot_ip s = ip" "(ss ! i)\<lparr>slot_done := True\<rparr>"]
  by (simp_all add: in_use_def in_use_by_def length_filter_update length_filter_update_same)

lemma perIP_count_inv: "limiter_inv (l, ss) \<Longrightarrow> perIP_count l ip = int (in_use_by ip ss)"
  by (auto simp: limiter_inv_def perIP_count_def)

lemma acquire_inv:
  assumes "limiter_inv (l, ss)" "acquire ip l = Inr l'"
  shows "limiter_inv (l', ss @ [\<lparr>slot_ip = ip, slot_done = False\<rparr>])"
proof -
  have c: "perIP_count l ip = int (in_use_by ip ss)" by (rule perIP_count_inv [OF assms(1)])
  have l': "l' = l\<lparr>global := global l + 1, perIP := (perIP l)(ip \<mapsto> perIP_count l ip + 1)\<rparr>"
    and g: "maxGlobal l > 0 \<longrightarrow> global l < maxGlobal l"
    and p: "maxPerIP l > 0 \<longrightarrow> perIP_count l ip < maxPerIP l"
    using assms(2) by (auto simp: acquire_def split: if_splits)
  show ?thesis using assms(1) g p unfolding l' c by (auto simp: limiter_inv_def)
qed

lemma release_inv:
  assumes "limiter_inv (l, ss)" "i < length ss" "release (ss ! i) l = (s', l')"
  shows "limiter_inv (l', ss[i := s'])"
proof (cases "slot_done (ss ! i)")
  case True
  with assms show ?thesis by (auto simp: release_def)
next
  case False
  let ?ip = "slot_ip (ss ! i)" let ?s = "(ss ! i)\<lparr>slot_done := True\<rparr>"
  note u = in_use_release [OF assms(2) False]
  have s': "s' = ?s" "l' = release_once ?ip l" using assms(3) False by (auto simp: release_def)
  have c: "perIP_count l ?ip = 1 + int (in_use_by ?ip (ss[i := ?s]))"
    using perIP_count_inv [OF assms(1), of ?ip] u(2) [of ?ip] by simp
  have n: "in_use_by ip (ss[i := ?s]) \<le> in_use_by ip ss" for ip using u(2) [of ip] by auto
  have "perIP l' ip = (if in_use_by ip (ss[i := ?s]) = 0 then None else Some (int (in_use_by ip (ss[i := ?s]))))" for ip
    using assms(1) c u(2) [of ip] by (auto simp: s' release_once_def Let_def limiter_inv_def)
  moreover have "global l' = int (in_use (ss[i := ?s]))" "global l' \<le> global l"
    using assms(1) u(1) by (auto simp: s' release_once_def Let_def limiter_inv_def)
  moreover have "maxGlobal l' = maxGlobal l" "maxPerIP l' = maxPerIP l"
    by (simp_all add: s' release_once_def Let_def)
  moreover have "int (in_use_by ip (ss[i := ?s])) \<le> maxPerIP l" if "maxPerIP l > 0" for ip
  proof -
    have "int (in_use_by ip ss) \<le> maxPerIP l" using assms(1) that by (simp add: limiter_inv_def)
    with n [of ip] show ?thesis by linarith
  qed
  ultimately show ?thesis using assms(1) by (auto simp: s'(1) limiter_inv_def)
qed

lemma limiter_step_inv: "limiter_step s e s' \<Longrightarrow> limiter_inv s \<Longrightarrow> limiter_inv s'"
  by (induction rule: limiter_step.induct) (auto intro: acquire_inv release_inv)

lemma newSeedLimiter_inv: "limiter_inv (newSeedLimiter g i, [])"
  by (simp add: limiter_inv_def newSeedLimiter_def in_use_def in_use_by_def)

lemma limiter_run_inv: "run limiter_step (newSeedLimiter g i, []) es s \<Longrightarrow> limiter_inv s"
  by (erule run_invariant) (auto intro: newSeedLimiter_inv limiter_step_inv)

lemma limiter_run_caps:
  "run limiter_step (newSeedLimiter g i, []) es (l, ss) \<Longrightarrow> maxGlobal l = g \<and> maxPerIP l = i"
proof -
  have "maxGlobal (fst s') = maxGlobal (fst s) \<and> maxPerIP (fst s') = maxPerIP (fst s)"
    if "limiter_step s e s'" for s e s'
    using that
    by (induction rule: limiter_step.induct)
      (auto simp: acquire_def release_def release_once_def Let_def split: if_splits)
  then have "maxGlobal (fst s) = g \<and> maxPerIP (fst s) = i"
    if "run limiter_step (newSeedLimiter g i, []) es s" for s
    using that by (elim run_invariant) (auto simp: newSeedLimiter_def)
  then show "run limiter_step (newSeedLimiter g i, []) es (l, ss) \<Longrightarrow> maxGlobal l = g \<and> maxPerIP l = i"
    by fastforce
qed

subsection \<open>Properties\<close>

text \<open>
  C3: whatever sequence of requests and releases reaches the limiter, the transfers in flight
  never exceed a positive cap, globally or for one IP, the counters equal the transfers in
  flight, and the per-IP table has an entry for exactly the IPs with a transfer in flight.
\<close>

theorem seed_caps_hold:
  assumes "run limiter_step (newSeedLimiter g i, []) es (l, ss)"
  shows "(g > 0 \<longrightarrow> int (in_use ss) \<le> g) \<and> (i > 0 \<longrightarrow> int (in_use_by ip ss) \<le> i) \<and>
    global l = int (in_use ss) \<and> perIP_count l ip = int (in_use_by ip ss) \<and>
    dom (perIP l) = {ip. in_use_by ip ss > 0}"
  using limiter_run_inv [OF assms] limiter_run_caps [OF assms] perIP_count_inv [of l ss ip]
  by (auto simp: limiter_inv_def split: if_splits)

definition demo_limiter :: "limiter_state" where
  "demo_limiter = (\<lparr>maxGlobal = 2, maxPerIP = 1, global = 1, perIP = [''a'' \<mapsto> 1]\<rparr>,
     [\<lparr>slot_ip = ''a'', slot_done = False\<rparr>])"

lemma demo_limiter_run: "run limiter_step (newSeedLimiter 2 1, []) [Acquired ''a''] demo_limiter"
proof -
  have "acquire ''a'' (newSeedLimiter 2 1) = Inr (fst demo_limiter)"
    by (simp add: acquire_def newSeedLimiter_def perIP_count_def demo_limiter_def)
  from step_acquire [OF this, of "[]"] show ?thesis
    by (auto simp: run_Cons_iff demo_limiter_def)
qed

theorem seed_caps_hold_witness: "int (in_use (snd demo_limiter)) \<le> 2 \<and> global (fst demo_limiter) = 1"
proof -
  have "run limiter_step (newSeedLimiter 2 1, []) [Acquired ''a''] (fst demo_limiter, snd demo_limiter)"
    using demo_limiter_run by simp
  from seed_caps_hold [OF this] show ?thesis by (simp add: demo_limiter_def in_use_def)
qed

text \<open>
  A request is refused exactly when the global cap is reached or the requester's own cap is
  reached; a refusal takes no slot, and the global cap is the one reported when both are full.
\<close>

theorem acquire_refuses_iff_full:
  assumes "run limiter_step (newSeedLimiter g i, []) es (l, ss)"
  shows "((\<exists>r. acquire ip l = Inl r) \<longleftrightarrow>
      (g > 0 \<and> int (in_use ss) = g) \<or> (i > 0 \<and> int (in_use_by ip ss) = i)) \<and>
    (\<forall>r. acquire ip l = Inl r \<longrightarrow> ref_ip r = ip \<and>
      (g > 0 \<and> int (in_use ss) = g \<longrightarrow>
        ref_reason r = ''the global max_concurrent_seeds cap of '' @ Itoa g @ '' is full''))"
proof -
  have inv: "limiter_inv (l, ss)" and caps: "maxGlobal l = g" "maxPerIP l = i"
    using limiter_run_inv [OF assms] limiter_run_caps [OF assms] by auto
  have c: "perIP_count l ip = int (in_use_by ip ss)" by (rule perIP_count_inv [OF inv])
  have le: "g > 0 \<longrightarrow> int (in_use ss) \<le> g" "i > 0 \<longrightarrow> int (in_use_by ip ss) \<le> i"
    and gl: "global l = int (in_use ss)"
    using inv caps by (auto simp: limiter_inv_def)
  show ?thesis using le by (auto simp: acquire_def c gl caps split: if_splits)
qed

theorem acquire_refuses_iff_full_witness: "\<exists>r. acquire ''a'' (fst demo_limiter) = Inl r"
proof -
  have "run limiter_step (newSeedLimiter 2 1, []) [Acquired ''a''] (fst demo_limiter, snd demo_limiter)"
    using demo_limiter_run by simp
  from acquire_refuses_iff_full [OF this, of "''a''"] show ?thesis
    by (simp add: demo_limiter_def in_use_by_def)
qed

text \<open>
  Once every closure has run, however often and in whatever order, the limiter is back in its
  initial state: no slot is lost and the per-IP table is empty again.
\<close>

theorem limiter_drains:
  assumes "run limiter_step (newSeedLimiter g i, []) es (l, ss)" "\<forall>s \<in> set ss. slot_done s"
  shows "l = newSeedLimiter g i"
proof -
  have "in_use ss = 0" "in_use_by ip ss = 0" for ip
    using assms(2) by (auto simp: in_use_def in_use_by_def filter_empty_conv)
  then have "global l = 0" "perIP l = Map.empty"
    using limiter_run_inv [OF assms(1)] by (auto simp: limiter_inv_def)
  then show ?thesis using limiter_run_caps [OF assms(1)] by (cases l) (simp add: newSeedLimiter_def)
qed

theorem limiter_drains_witness:
  "fst (\<lparr>maxGlobal = 2, maxPerIP = 1, global = 0, perIP = Map.empty\<rparr>, [\<lparr>slot_ip = ''a'', slot_done = True\<rparr>])
     = newSeedLimiter 2 1"
proof -
  let ?l = "\<lparr>maxGlobal = 2, maxPerIP = 1, global = 0, perIP = Map.empty\<rparr> :: seedLimiter"
  have "limiter_step demo_limiter (Released 0) (?l, [\<lparr>slot_ip = ''a'', slot_done = True\<rparr>])"
    using step_release [of 0 "snd demo_limiter" "fst demo_limiter"]
    by (simp add: demo_limiter_def release_def release_once_def perIP_count_def fun_eq_iff)
  from run_snoc [OF demo_limiter_run this] have
    "run limiter_step (newSeedLimiter 2 1, []) ([Acquired ''a''] @ [Released 0]) (?l, [\<lparr>slot_ip = ''a'', slot_done = True\<rparr>])" .
  from limiter_drains [OF this] show ?thesis by simp
qed

end
