(* ===== verification/Go_Http.thy ===== *)
theory Go_Http
  imports Go_Strings
begin

text \<open>
  The part of \<open>net/http\<close> and \<open>io\<close> the handlers and clients use: response records, bodies and
  copies.  A body is what reading it to the end would yield: finitely many bytes and then the end
  of the stream or an error, or bytes without end.
\<close>

datatype reader =
    Finite "byte list" bool  \<comment> \<open>\<open>True\<close>: reading past the bytes is an error, not the end of the stream\<close>
  | Endless "nat \<Rightarrow> byte"

type_synonym headers = "(string \<times> string list) list"

record http_resp =
  StatusCode :: nat
  ContentLength :: int
  Header :: headers
  Body :: reader

text \<open>The conversions \<open>[]byte(s)\<close> and \<open>string(bs)\<close>.\<close>

definition bytes_of :: "string \<Rightarrow> byte list" where
  "bytes_of s = map of_char s"

definition string_of :: "byte list \<Rightarrow> string" where
  "string_of bs = map (\<lambda>b. char_of (unat b)) bs"

lemma unat_of_char [simp]: "unat (of_char c :: byte) = of_char c"
proof -
  have "(of_char c :: nat) < 256" by simp
  then have "unat (of_nat (of_char c) :: byte) = of_char c" by (simp add: unat_of_nat)
  moreover have "of_nat (of_char c) = (of_char c :: byte)" by (cases c) (simp add: of_char_def)
  ultimately show ?thesis by simp
qed

lemma string_of_bytes_of [simp]: "string_of (bytes_of s) = s"
  by (simp add: string_of_def bytes_of_def comp_def)

lemma length_bytes_of [simp]: "length (bytes_of s) = length s" "length (string_of bs) = length bs"
  by (simp_all add: bytes_of_def string_of_def)

text \<open>
  \<open>io.Copy\<close> from \<open>io.LimitReader(r, n)\<close>: the bytes delivered and whether reading failed.  A
  limit reader that has delivered its \<open>n\<close> bytes reports the end of the stream without
  touching the underlying reader.
\<close>

definition limit_copy :: "int \<Rightarrow> reader \<Rightarrow> byte list \<times> bool" where
  "limit_copy n r =
     (if n \<le> 0 then ([], False)
      else case r of
             Finite bs e \<Rightarrow> if int (length bs) \<ge> n then (take (nat n) bs, False) else (bs, e)
           | Endless f \<Rightarrow> (map f [0..<nat n], False))"

text \<open>
  Copying into a file on a disk that has room for at most \<open>room\<close> further bytes (\<open>None\<close>: enough):
  the bytes in the file and whether the copy failed, on either side.
\<close>

definition spool_copy :: "nat option \<Rightarrow> byte list \<times> bool \<Rightarrow> byte list \<times> bool" where
  "spool_copy room src =
     (case room of
        None \<Rightarrow> src
      | Some c \<Rightarrow> if length (fst src) \<le> c then src else (take c (fst src), True))"

lemma limit_copy_length: "int (length (fst (limit_copy n r))) \<le> max 0 n"
  by (auto simp: limit_copy_def split: reader.splits)

lemma limit_copy_Finite:
  "int (length bs) < n \<Longrightarrow> limit_copy n (Finite bs e) = (bs, e)"
  by (simp add: limit_copy_def)

lemma limit_copy_Endless_length:
  "0 < n \<Longrightarrow> int (length (fst (limit_copy n (Endless f)))) = n \<and> \<not> snd (limit_copy n (Endless f))"
  by (simp add: limit_copy_def)

lemma spool_copy_ok: "spool_copy room src = (bs, False) \<Longrightarrow> src = (bs, False)"
  by (auto simp: spool_copy_def split: option.splits if_splits)

lemma spool_copy_length: "length (fst (spool_copy room src)) \<le> length (fst src)"
  by (auto simp: spool_copy_def split: option.splits)

end
