(* ===== verification/Go_OS.thy ===== *)
theory Go_OS
  imports Go_Path Go_Http
begin

text \<open>
  The file system as \<open>os\<close> and \<open>path/filepath\<close> show it: a tree of nodes.  A directory may refuse
  to be listed, and a name that was listed may be gone when it is inspected (\<open>Vanished\<close>), which
  is how a file removed between the two calls appears.  Paths are absolute and are resolved from
  the root; symbolic links are followed at most 32 times, as the FreeBSD kernel does.
\<close>

datatype node =
    Regular "byte list"
  | Symlink string
  | Special                                \<comment> \<open>device, socket, named pipe\<close>
  | Vanished
  | Directory bool "(string \<times> node) list"  \<comment> \<open>whether it can be listed, and its entries\<close>

fun child :: "node \<Rightarrow> string \<Rightarrow> node option" where
  "child (Directory r es) x = map_of es x"
| "child _ x = None"

text \<open>Lookup by path elements, links not followed.\<close>

fun lookup :: "node \<Rightarrow> string list \<Rightarrow> node option" where
  "lookup n [] = (if n = Vanished then None else Some n)"
| "lookup n (x # xs) = (case child n x of None \<Rightarrow> None | Some m \<Rightarrow> lookup m xs)"

definition maxSymlinks :: nat where "maxSymlinks = 32"

text \<open>Resolution of a path that follows links; \<open>cur\<close> is the directory reached so far.\<close>

function resolve :: "nat \<Rightarrow> node \<Rightarrow> string list \<Rightarrow> string list \<Rightarrow> node option" where
  "resolve k root cur [] = lookup root cur"
| "resolve k root cur (x # xs) =
     (if x = '''' \<or> x = ''.'' then resolve k root cur xs
      else if x = ''..'' then resolve k root (butlast cur) xs
      else case lookup root (cur @ [x]) of
        None \<Rightarrow> None
      | Some (Symlink t) \<Rightarrow>
          if k = 0 then None
          else resolve (k - 1) root (if HasPrefix t ''/'' then [] else cur) (Split t (CHR ''/'') @ xs)
      | Some _ \<Rightarrow> resolve k root (cur @ [x]) xs)"
  by pat_completeness auto
termination
  by (relation "measures [\<lambda>(k, root, cur, xs). k, \<lambda>(k, root, cur, xs). length xs]") auto

text \<open>\<open>os.Stat\<close> and \<open>os.Open\<close> follow links, \<open>os.Lstat\<close> does not follow the last one.\<close>

definition os_Stat :: "node \<Rightarrow> string \<Rightarrow> node option" where
  "os_Stat root p = resolve maxSymlinks root [] (rooted_segs p)"

definition os_Lstat :: "node \<Rightarrow> string \<Rightarrow> node option" where
  "os_Lstat root p = lookup root (rooted_segs p)"

text \<open>\<open>filepath.Join\<close> of a directory and one name.\<close>

definition Join2 :: "string \<Rightarrow> string \<Rightarrow> string" where
  "Join2 dir name =
     (if dir = [] then (if name = [] then [] else Clean name)
      else Clean (dir @ ''/'' @ name))"

definition IsDir :: "node \<Rightarrow> bool" where
  "IsDir n = (case n of Directory _ _ \<Rightarrow> True | _ \<Rightarrow> False)"

text \<open>
  \<open>info.Size()\<close>: the length of a file, the length of the target of a link; what other nodes
  report is the system's business, and \<open>0\<close> stands for it.
\<close>

definition node_size :: "node \<Rightarrow> int" where
  "node_size n = (case n of Regular bs \<Rightarrow> int (length bs) | Symlink t \<Rightarrow> int (length t) | _ \<Rightarrow> 0)"

subsection \<open>Lemmas\<close>

lemma clean_segs_append:
  "clean_segs True st (xs @ ys) = clean_segs True (rev (clean_segs True st xs)) ys"
  by (induction xs arbitrary: st) (auto split: list.splits)

lemma Split_append_sep: "Split (a @ CHR ''/'' # b) (CHR ''/'') = Split a (CHR ''/'') @ Split b (CHR ''/'')"
proof (induction a)
  case (Cons c a)
  then show ?case by (cases "Split a (CHR ''/'')") (auto simp: Let_def)
qed simp

lemma rooted_segs_append: "plain_seg x \<Longrightarrow> rooted_segs (d @ CHR ''/'' # x) = rooted_segs d @ [x]"
  unfolding rooted_segs_def Split_append_sep clean_segs_append
  by (simp add: Split_single plain_seg_def)

text \<open>A plain name joined to an absolute directory stays in that directory.\<close>

lemma Join2_plain:
  assumes "HasPrefix dir ''/''" "plain_seg x"
  shows "rooted_segs (Join2 dir x) = rooted_segs dir @ [x]"
proof -
  obtain d where d: "dir = CHR ''/'' # d" using assms(1) by (auto simp: HasPrefix_iff)
  have "Join2 dir x = Clean (CHR ''/'' # (d @ CHR ''/'' # x))" by (simp add: Join2_def d)
  also have "\<dots> = CHR ''/'' # Join (rooted_segs (d @ CHR ''/'' # x)) ''/''" by (rule Clean_rooted)
  finally have j: "Join2 dir x = CHR ''/'' # Join (rooted_segs d @ [x]) ''/''"
    by (simp add: rooted_segs_append assms)
  have "rooted_segs (CHR ''/'' # p) = rooted_segs p" for p
    by (simp add: rooted_segs_def)
  then show ?thesis
    unfolding j using assms(2) clean_segs_rooted [of d] by (simp add: rooted_segs_Join d)
qed


end
