(* ===== verification/Cache_Source.thy ===== *)
theory Cache_Source
  imports Go_OS
begin

text \<open>
  The read-only view of pkg's cache that the seeder serves from
  (\<open>src/internal/daemon/cachesource.go\<close>).  The lemmas show that a name from the wire can only
  select an entry of the cache directory itself, and what is served for it: the regular file
  under that name, or the one the link under that name leads to.
\<close>

subsection \<open>Operations\<close>

definition packageFileExtension :: string where "packageFileExtension = ''.pkg''"

record CacheSource =
  cs_dir :: string

definition NewCacheSource :: "string \<Rightarrow> CacheSource" where
  "NewCacheSource cacheDir = \<lparr>cs_dir = cacheDir\<rparr>"

definition cacheFileName :: "string \<Rightarrow> string option" where
  "cacheFileName nameVersion =
     (if nameVersion = '''' \<or> nameVersion = ''.'' \<or> nameVersion = ''..'' then None
      else if ContainsAny nameVersion [CHR ''/'', CHR 0x5C] \<or> CHR 0x00 \<in> set nameVersion then None
      else let name = nameVersion @ packageFileExtension
           in if Base name \<noteq> name then None else Some name)"

text \<open>
  \<open>Open\<close> returns the handle and the size; the handle is represented by the bytes a reader of it
  sees.  A file that cannot be opened and one that is not regular are both not held.
\<close>

definition CacheSource_Open :: "node \<Rightarrow> CacheSource \<Rightarrow> string \<Rightarrow> (byte list \<times> int) option" where
  "CacheSource_Open root c nameVersion =
     (case cacheFileName nameVersion of
        None \<Rightarrow> None
      | Some name \<Rightarrow>
          (case os_Stat root (Join2 (cs_dir c) name) of
             Some (Regular bs) \<Rightarrow> Some (bs, int (length bs))
           | _ \<Rightarrow> None))"

subsection \<open>Which names are accepted\<close>

definition safe_name :: "string \<Rightarrow> bool" where
  "safe_name nv \<longleftrightarrow> nv \<noteq> '''' \<and> nv \<noteq> ''.'' \<and> nv \<noteq> ''..'' \<and>
     CHR ''/'' \<notin> set nv \<and> CHR 0x5C \<notin> set nv \<and> CHR 0x00 \<notin> set nv"

lemma safe_name_plain: "safe_name nv \<Longrightarrow> plain_seg (nv @ packageFileExtension)"
  by (auto simp: safe_name_def plain_seg_def packageFileExtension_def append_eq_Cons_conv)

lemma cacheFileName_eq:
  "cacheFileName nv = (if safe_name nv then Some (nv @ packageFileExtension) else None)"
proof -
  have "Base (nv @ packageFileExtension) = nv @ packageFileExtension" if "CHR ''/'' \<notin> set nv"
    using that by (intro Base_plain) (auto simp: packageFileExtension_def)
  then show ?thesis
    by (auto simp: cacheFileName_def safe_name_def ContainsAny_def Let_def)
qed

subsection \<open>What is opened\<close>

lemma lookup_snoc:
  "lookup n ds = Some (Directory r es) \<Longrightarrow> lookup n (ds @ [x]) = Option.bind (map_of es x) (\<lambda>m. lookup m [])"
  by (induction ds arbitrary: n) (auto split: option.splits if_splits)

lemma lookup_butlast:
  "lookup n (ds @ [x]) \<noteq> None \<Longrightarrow> \<exists>r es. lookup n ds = Some (Directory r es)"
proof (induction ds arbitrary: n)
  case Nil
  then show ?case by (cases n) auto
qed (auto split: option.splits)

text \<open>Directories that are not reached through links resolve to themselves.\<close>

lemma resolve_directory:
  assumes "lookup root (ds @ ys) = Some (Directory r es)" "list_all plain_seg ys"
  shows "resolve k root ds (ys @ xs) = resolve k root (ds @ ys) xs"
  using assms
proof (induction ys arbitrary: ds)
  case (Cons y ys)
  have "\<exists>r es. lookup root (ds @ [y]) = Some (Directory r es)"
  proof (cases ys rule: rev_cases)
    case Nil
    with Cons.prems show ?thesis by simp
  next
    case (snoc zs z)
    have "\<exists>r es. lookup root (ds @ [y]) = Some (Directory r es)"
      if "lookup root (ds @ y # ws @ [z]) \<noteq> None" for ws z
      using that
    proof (induction ws arbitrary: z rule: rev_induct)
      case Nil
      then show ?case using lookup_butlast [of root "ds @ [y]"] by simp
    next
      case (snoc w ws)
      from snoc.prems lookup_butlast [of root "ds @ y # ws @ [w]" z] obtain r es
        where "lookup root (ds @ y # ws @ [w]) = Some (Directory r es)" by auto
      then show ?case by (intro snoc.IH [of w]) simp
    qed
    with snoc Cons.prems show ?thesis by fastforce
  qed
  moreover have "resolve k root (ds @ [y]) (ys @ xs) = resolve k root ((ds @ [y]) @ ys) xs"
    using Cons.prems by (intro Cons.IH) auto
  ultimately show ?case using Cons.prems by (auto simp: plain_seg_def)
qed simp

lemma cache_entry:
  assumes "HasPrefix d ''/''" "lookup root (rooted_segs d) = Some (Directory r es)" "safe_name nv"
  shows "os_Stat root (Join2 d (nv @ packageFileExtension)) =
    resolve maxSymlinks root (rooted_segs d) [nv @ packageFileExtension]"
  unfolding os_Stat_def Join2_plain [OF assms(1) safe_name_plain [OF assms(3)]]
  using resolve_directory [of root "[]" "rooted_segs d"] assms(2) clean_segs_rooted [of d] by simp

lemma resolve_entry:
  assumes "lookup root ds = Some (Directory r es)" "plain_seg x"
  shows "resolve (Suc k) root ds [x] =
    (case map_of es x of
       Some (Symlink t) \<Rightarrow> resolve k root (if HasPrefix t ''/'' then [] else ds) (Split t (CHR ''/''))
     | Some Vanished \<Rightarrow> None
     | e \<Rightarrow> e)"
proof -
  have "lookup root (ds @ [x]) = (case map_of es x of Some Vanished \<Rightarrow> None | e \<Rightarrow> e)"
    by (simp add: lookup_snoc [OF assms(1)] split: option.splits node.splits)
  with assms(2) show ?thesis
    by (simp add: plain_seg_def split: option.splits node.splits)
qed

lemma cache_open_iff:
  assumes "HasPrefix (cs_dir c) ''/''" "lookup root (rooted_segs (cs_dir c)) = Some (Directory r es)"
  shows "CacheSource_Open root c nv = Some (bs, n) \<longleftrightarrow>
    safe_name nv \<and> n = int (length bs) \<and>
    (map_of es (nv @ ''.pkg'') = Some (Regular bs) \<or>
     (\<exists>t. map_of es (nv @ ''.pkg'') = Some (Symlink t) \<and>
        resolve 31 root (if HasPrefix t ''/'' then [] else rooted_segs (cs_dir c)) (Split t (CHR ''/''))
          = Some (Regular bs)))"
proof (cases "safe_name nv")
  case True
  have "maxSymlinks = Suc 31" by (simp add: maxSymlinks_def)
  then have "os_Stat root (Join2 (cs_dir c) (nv @ ''.pkg'')) =
    (case map_of es (nv @ ''.pkg'') of
       Some (Symlink t) \<Rightarrow> resolve 31 root (if HasPrefix t ''/'' then [] else rooted_segs (cs_dir c))
         (Split t (CHR ''/''))
     | Some Vanished \<Rightarrow> None
     | e \<Rightarrow> e)"
    using cache_entry [OF assms True] resolve_entry [OF assms(2) safe_name_plain [OF True], of 31]
    by (simp add: packageFileExtension_def)
  then show ?thesis
    using True by (auto simp: CacheSource_Open_def cacheFileName_eq packageFileExtension_def
        split: option.splits node.splits)
qed (simp add: CacheSource_Open_def cacheFileName_eq)

text \<open>
  C29: Path safety of the cache.  Whatever string arrives from the wire, opening it succeeds only
  for a plain name (no separator, no dot segment, no NUL), and what is opened is the entry of the
  cache directory with that name and the extension added: the regular file there, or the regular
  file its link leads to.  The reported size is the exact length of the bytes.\<close>

theorem cache_open_confined:
  assumes "HasPrefix (cs_dir c) ''/''" "lookup root (rooted_segs (cs_dir c)) = Some (Directory r es)"
  shows "CacheSource_Open root c nv = Some (bs, n) \<longleftrightarrow>
    safe_name nv \<and> n = int (length bs) \<and>
    (map_of es (nv @ ''.pkg'') = Some (Regular bs) \<or>
     (\<exists>t. map_of es (nv @ ''.pkg'') = Some (Symlink t) \<and>
        resolve 31 root (if HasPrefix t ''/'' then [] else rooted_segs (cs_dir c)) (Split t (CHR ''/''))
          = Some (Regular bs)))"
  using assms by (rule cache_open_iff)

text \<open>A cache in the layout pkg leaves behind: the plain name is a link to the real file.\<close>

definition demo_cache_entries :: "(string \<times> node) list" where
  "demo_cache_entries =
     [(''zip-3.pkg'', Symlink ''zip-3~00112233aa.pkg''), (''zip-3~00112233aa.pkg'', Regular [1, 2, 3])]"

definition demo_root :: node where
  "demo_root = Directory True [(''cache'', Directory True demo_cache_entries), (''secret.pkg'', Regular [7])]"

lemma demo_cache_dir: "lookup demo_root (rooted_segs ''/cache'') = Some (Directory True demo_cache_entries)"
  by (simp add: demo_root_def rooted_segs_def)

lemma demo_link:
  "resolve 31 demo_root [''cache''] (Split ''zip-3~00112233aa.pkg'' (CHR ''/'')) = Some (Regular [1, 2, 3])"
  by (simp add: demo_root_def demo_cache_entries_def)

theorem cache_open_confined_witness:
  "CacheSource_Open demo_root (NewCacheSource ''/cache'') ''zip-3'' = Some ([1, 2, 3], 3) \<and>
   CacheSource_Open demo_root (NewCacheSource ''/cache'') ''../secret'' = None"
proof
  have c: "cs_dir (NewCacheSource ''/cache'') = ''/cache''" by (simp add: NewCacheSource_def)
  have abs: "HasPrefix (cs_dir (NewCacheSource ''/cache'')) ''/''" by (simp add: c HasPrefix_def)
  have "lookup demo_root (rooted_segs (cs_dir (NewCacheSource ''/cache''))) = Some (Directory True demo_cache_entries)"
    unfolding c by (rule demo_cache_dir)
  note conf = cache_open_confined [OF abs this]
  have segs: "rooted_segs ''/cache'' = [''cache'']" by (simp add: rooted_segs_def)
  have e: "map_of demo_cache_entries (''zip-3'' @ ''.pkg'') = Some (Symlink ''zip-3~00112233aa.pkg'')"
    by (simp add: demo_cache_entries_def)
  have "safe_name ''zip-3''" "\<not> HasPrefix ''zip-3~00112233aa.pkg'' ''/''"
    by (simp_all add: safe_name_def HasPrefix_def)
  then show "CacheSource_Open demo_root (NewCacheSource ''/cache'') ''zip-3'' = Some ([1, 2, 3], 3)"
    unfolding conf c segs e using demo_link by auto
  have "\<not> safe_name ''../secret''" by (simp add: safe_name_def)
  then show "CacheSource_Open demo_root (NewCacheSource ''/cache'') ''../secret'' = None"
    using conf [of "''../secret''"] by (metis not_None_eq surj_pair)
qed

end
