(* ===== verification/Go_Net.thy ===== *)
theory Go_Net
  imports Go_Path
begin

text \<open>
  Go's \<open>net.SplitHostPort\<close>, \<open>net.JoinHostPort\<close>, \<open>net.ParseIP\<close> and \<open>IP.IsLoopback\<close>.
  An address is the 16-byte form \<open>net.ParseIP\<close> returns, an IPv4 address being mapped into
  \<open>::ffff:0:0/96\<close>.  The facts used elsewhere: the two host-port functions are inverse to each
  other on bracket-free hosts, and a string that parses as an address contains no bracket.
\<close>

subsection \<open>host:port\<close>

definition JoinHostPort :: "string \<Rightarrow> string \<Rightarrow> string" where
  "JoinHostPort host port =
     (if CHR '':'' \<in> set host then ''['' @ host @ '']:'' @ port else host @ '':'' @ port)"

datatype addr_error = MissingPort | MissingBracket | TooManyColons | UnexpectedOpen | UnexpectedClose

definition SplitHostPort :: "string \<Rightarrow> addr_error + (string \<times> string)" where
  "SplitHostPort hp =
     (case LastIndex hp (CHR '':'') of
        None \<Rightarrow> Inl MissingPort
      | Some i \<Rightarrow>
          if hd hp = CHR ''['' then
            (case IndexByte hp (CHR '']'') of
               None \<Rightarrow> Inl MissingBracket
             | Some e \<Rightarrow>
                 if Suc e = length hp then Inl MissingPort
                 else if Suc e \<noteq> i then
                   (if hp ! Suc e = CHR '':'' then Inl TooManyColons else Inl MissingPort)
                 else if CHR ''['' \<in> set (drop 1 hp) then Inl UnexpectedOpen
                 else if CHR '']'' \<in> set (drop (Suc e) hp) then Inl UnexpectedClose
                 else Inr (drop 1 (take e hp), drop (Suc i) hp))
          else
            (let host = take i hp in
             if CHR '':'' \<in> set host then Inl TooManyColons
             else if CHR ''['' \<in> set hp then Inl UnexpectedOpen
             else if CHR '']'' \<in> set hp then Inl UnexpectedClose
             else Inr (host, drop (Suc i) hp)))"

definition bracket_free :: "string \<Rightarrow> bool" where
  "bracket_free s \<longleftrightarrow> CHR ''['' \<notin> set s \<and> CHR '']'' \<notin> set s"

lemma SplitHostPort_Join_v6:
  assumes "bracket_free h" "bracket_free p" "CHR '':'' \<notin> set p" "CHR '':'' \<in> set h"
  shows "SplitHostPort (JoinHostPort h p) = Inr (h, p)"
proof -
  let ?hp = "CHR ''['' # h @ CHR '']'' # CHR '':'' # p"
  have j: "JoinHostPort h p = ?hp" using assms(4) by (simp add: JoinHostPort_def)
  have "LastIndex ((CHR ''['' # h @ [CHR '']'']) @ CHR '':'' # p) (CHR '':'') = Some (length h + 2)"
    using assms(3) by (subst LastIndex_append) auto
  then have li: "LastIndex ?hp (CHR '':'') = Some (length h + 2)" by simp
  have "IndexByte ((CHR ''['' # h) @ CHR '']'' # CHR '':'' # p) (CHR '']'') = Some (length h + 1)"
    using assms(1) by (subst IndexByte_append) (auto simp: bracket_free_def)
  then have ib: "IndexByte ?hp (CHR '']'') = Some (length h + 1)" by simp
  show ?thesis unfolding j SplitHostPort_def li using ib assms
    by (simp add: bracket_free_def del: LastIndex.simps IndexByte.simps)
qed

lemma SplitHostPort_Join_v4:
  assumes "bracket_free h" "bracket_free p" "CHR '':'' \<notin> set p" "CHR '':'' \<notin> set h"
  shows "SplitHostPort (JoinHostPort h p) = Inr (h, p)"
proof -
  have j: "JoinHostPort h p = h @ CHR '':'' # p" using assms(4) by (simp add: JoinHostPort_def)
  have "hd (h @ CHR '':'' # p) \<noteq> CHR ''[''"
    using assms(1) by (cases h) (auto simp: bracket_free_def)
  with assms show ?thesis
    unfolding j SplitHostPort_def by (simp add: bracket_free_def Let_def)
qed

theorem SplitHostPort_JoinHostPort:
  "bracket_free h \<Longrightarrow> bracket_free p \<Longrightarrow> CHR '':'' \<notin> set p \<Longrightarrow>
   SplitHostPort (JoinHostPort h p) = Inr (h, p)"
  using SplitHostPort_Join_v4 SplitHostPort_Join_v6 by blast

subsection \<open>net.ParseIP\<close>

type_synonym ip = "byte list"

definition v4_field :: "string \<Rightarrow> bool" where
  "v4_field f \<longleftrightarrow> f \<noteq> [] \<and> list_all is_digit f \<and> (hd f = CHR ''0'' \<longrightarrow> length f = 1) \<and> dec_value f \<le> 255"

definition parseIPv4 :: "string \<Rightarrow> byte list option" where
  "parseIPv4 s =
     (let fs = Split s (CHR ''.'')
      in if length fs = 4 \<and> list_all v4_field fs then Some (map (of_nat \<circ> dec_value) fs) else None)"

definition hex_digit :: "char \<Rightarrow> nat option" where
  "hex_digit c =
     (let n = of_char c in
      if 48 \<le> n \<and> n \<le> 57 then Some (n - 48)
      else if 97 \<le> n \<and> n \<le> 102 then Some (n - 87)
      else if 65 \<le> n \<and> n \<le> 70 then Some (n - 55)
      else None)"

definition is_hex :: "char \<Rightarrow> bool" where
  "is_hex c \<longleftrightarrow> hex_digit c \<noteq> None"

definition hex_value :: "string \<Rightarrow> nat" where
  "hex_value s = foldl (\<lambda>n c. 16 * n + the (hex_digit c)) 0 s"

definition hex_group :: "string \<Rightarrow> byte list" where
  "hex_group s = [of_nat (hex_value s div 256), of_nat (hex_value s mod 256)]"

text \<open>
  The loop of \<open>netip.parseIPv6\<close>: \<open>n\<close> counts the two-byte groups still free, \<open>acc\<close> holds the
  bytes parsed so far, \<open>ell\<close> the position of the ellipsis.
\<close>

fun v6_loop :: "nat \<Rightarrow> byte list \<Rightarrow> nat option \<Rightarrow> string \<Rightarrow> (byte list \<times> nat option \<times> string) option" where
  "v6_loop 0 acc ell s = Some (acc, ell, s)"
| "v6_loop (Suc n) acc ell s =
     (let ds = takeWhile is_hex s; rest = dropWhile is_hex s; acc' = acc @ hex_group ds in
      if ds = [] \<or> 4 < length ds then None
      else if rest \<noteq> [] \<and> hd rest = CHR ''.'' then
        (if ell = None \<and> length acc \<noteq> 12 then None
         else if 16 < length acc + 4 then None
         else map_option (\<lambda>v4. (acc @ v4, ell, [])) (parseIPv4 s))
      else if rest = [] then Some (acc', ell, [])
      else if hd rest \<noteq> CHR '':'' \<or> tl rest = [] then None
      else if hd (tl rest) = CHR '':'' then
        (if ell \<noteq> None then None
         else if tl (tl rest) = [] then Some (acc', Some (length acc'), [])
         else v6_loop n acc' (Some (length acc')) (tl (tl rest)))
      else v6_loop n acc' ell (tl rest))"

definition parseIPv6 :: "string \<Rightarrow> byte list option" where
  "parseIPv6 s =
     (let lead = HasPrefix s ''::'';
          s' = (if lead then drop 2 s else s)
      in if lead \<and> s' = [] then Some (replicate 16 0)
         else (case v6_loop 8 [] (if lead then Some 0 else None) s' of
                 None \<Rightarrow> None
               | Some (acc, ell, rest) \<Rightarrow>
                   if rest \<noteq> [] then None
                   else if length acc < 16 then
                     map_option (\<lambda>e. take e acc @ replicate (16 - length acc) 0 @ drop e acc) ell
                   else if ell \<noteq> None then None
                   else Some acc))"

definition ParseIP :: "string \<Rightarrow> ip option" where
  "ParseIP s =
     (case find (\<lambda>c. c \<in> set ''.:%'') s of
        None \<Rightarrow> None
      | Some c \<Rightarrow>
          if c = CHR ''.'' then map_option (\<lambda>v4. replicate 10 0 @ [255, 255] @ v4) (parseIPv4 s)
          else if c = CHR '':'' then parseIPv6 s
          else None)"

definition To4 :: "ip \<Rightarrow> byte list option" where
  "To4 i = (if length i = 16 \<and> take 12 i = replicate 10 0 @ [255, 255] then Some (drop 12 i) else None)"

definition IsLoopback :: "ip \<Rightarrow> bool" where
  "IsLoopback i = (case To4 i of Some v4 \<Rightarrow> hd v4 = 127 | None \<Rightarrow> i = replicate 15 0 @ [1])"

definition ip_char :: "char \<Rightarrow> bool" where
  "ip_char c \<longleftrightarrow> is_hex c \<or> c = CHR ''.'' \<or> c = CHR '':''"

lemma is_digit_hex: "is_digit c \<Longrightarrow> is_hex c"
  by (auto simp: is_digit_def is_hex_def hex_digit_def Let_def)

lemma parseIPv4_chars: "parseIPv4 s = Some v \<Longrightarrow> list_all ip_char s \<and> length v = 4"
proof -
  assume a: "parseIPv4 s = Some v"
  then have f: "list_all v4_field (Split s (CHR ''.''))" and l: "length v = 4"
    by (auto simp: parseIPv4_def Let_def split: if_splits)
  have "set (Join (Split s (CHR ''.'')) ''.'') \<subseteq> (\<Union>x \<in> set (Split s (CHR ''.'')). set x) \<union> set ''.''"
    by (rule set_Join)
  with f have "\<forall>c \<in> set s. is_digit c \<or> c = CHR ''.''"
    by (auto simp: list_all_iff v4_field_def)
  with l show ?thesis by (auto simp: list_all_iff ip_char_def is_digit_hex)
qed

lemma v6_loop_chars:
  "v6_loop n acc ell s = Some (a, e, r) \<Longrightarrow> \<forall>c \<in> set s. ip_char c \<or> c \<in> set r"
proof (induction n arbitrary: acc ell s)
  case (Suc n)
  let ?rest = "dropWhile is_hex s"
  have s: "set s = set (takeWhile is_hex s) \<union> set ?rest"
    by (metis set_append takeWhile_dropWhile_id)
  have h: "\<forall>c \<in> set (takeWhile is_hex s). ip_char c"
    by (auto dest: set_takeWhileD simp: ip_char_def)
  consider "?rest = []" | "?rest \<noteq> []" "hd ?rest = CHR ''.''" | "?rest \<noteq> []" "hd ?rest \<noteq> CHR ''.''"
    by blast
  then show ?case
  proof cases
    case 1
    with s h show ?thesis by simp
  next
    case 2
    with Suc.prems obtain v where "parseIPv4 s = Some v"
      by (auto simp: Let_def split: if_splits)
    then show ?thesis by (auto simp: list_all_iff dest: parseIPv4_chars)
  next
    case 3
    with Suc.prems obtain c r1 where r: "?rest = CHR '':'' # c # r1"
      by (cases ?rest; cases "tl ?rest") (auto simp: Let_def split: if_splits)
    with Suc.prems have
      "c = CHR '':'' \<and> r1 = [] \<or>
       c = CHR '':'' \<and> (\<exists>acc' ell'. v6_loop n acc' ell' r1 = Some (a, e, r)) \<or>
       (\<exists>acc' ell'. v6_loop n acc' ell' (c # r1) = Some (a, e, r))"
      by (simp add: Let_def del: v6_loop.simps(1) split: if_splits) blast+
    then have "\<forall>x \<in> set (c # r1). ip_char x \<or> x \<in> set r"
    proof (elim disjE conjE exE)
      fix acc' ell' assume "v6_loop n acc' ell' (c # r1) = Some (a, e, r)"
      then show ?thesis by (rule Suc.IH)
    next
      fix acc' ell' assume "c = CHR '':''" "v6_loop n acc' ell' r1 = Some (a, e, r)"
      then show ?thesis using Suc.IH [of acc' ell' r1] by (auto simp: ip_char_def)
    qed (simp add: ip_char_def)
    with r s h show ?thesis by (auto simp: ip_char_def)
  qed
qed simp

lemma ParseIP_chars: "ParseIP s = Some i \<Longrightarrow> list_all ip_char s"
proof -
  assume a: "ParseIP s = Some i"
  have v6: "list_all ip_char s" if "parseIPv6 s = Some i"
    using that
    by (auto simp: parseIPv6_def Let_def HasPrefix_iff list_all_iff ip_char_def
        split: if_splits option.splits prod.splits dest!: v6_loop_chars)
  from a show ?thesis
    by (auto simp: ParseIP_def v6 dest: parseIPv4_chars split: option.splits if_splits)
qed

lemma ParseIP_bracket_free: "ParseIP s = Some i \<Longrightarrow> bracket_free s"
  using ParseIP_chars [of s i]
  by (auto simp: bracket_free_def list_all_iff ip_char_def is_hex_def hex_digit_def Let_def)

end
