(* ===== verification/Proto.thy ===== *)
theory Proto
  imports Go_Net
begin

text \<open>
  The daemon--tracker wire contract (\<open>src/internal/proto\<close>): the message types of
  \<open>types.go\<close> and the validators of \<open>validate.go\<close>.  The lemmas characterise what each validator
  accepts and which error it reports first, and show that the address of a validated peer
  parses back into exactly the peer's IP and port.
\<close>

subsection \<open>Messages (types.go)\<close>

record AnnounceRequest =
  ServingPort :: int
  Packages :: "string list"

record PeerInfo =
  IP :: string
  Port :: int

record PeerListResponse =
  resp_Peers :: "PeerInfo list"

record StatusResponse =
  resp_Status :: string

definition StatusAck :: string where "StatusAck = ''ack''"

definition StatusUnknown :: string where "StatusUnknown = ''unknown''"

subsection \<open>Validators (validate.go)\<close>

definition MaxNameVersionLen :: nat where "MaxNameVersionLen = 255"

definition MaxPackages :: nat where "MaxPackages = 4096"

definition MaxBodyBytes :: nat where "MaxBodyBytes = 2 ^ 20"

definition MinPort :: int where "MinPort = 1"

definition MaxPort :: int where "MaxPort = 65535"

datatype proto_error =
    ErrEmptyNameVersion
  | ErrNameVersionTooLong nat
  | ErrBadNameVersion string
  | ErrTooManyPackages nat nat
  | ErrPortOutOfRange int
  | ErrBadIP string

text \<open>
  The regular expression \<open>[\x00-\x1f\x7f]\<close>.  It is matched rune by rune, and the runes it names
  are one-byte runes, so a string matches exactly when one of its bytes is in the class.
\<close>

definition control_char :: "char \<Rightarrow> bool" where
  "control_char c \<longleftrightarrow> (of_char c :: nat) < 32 \<or> (of_char c :: nat) = 127"

definition controlChars :: "string \<Rightarrow> bool" where
  "controlChars s \<longleftrightarrow> list_ex control_char s"

definition ValidateNameVersion :: "string \<Rightarrow> proto_error option" where
  "ValidateNameVersion nameVersion =
     (if length nameVersion = 0 then Some ErrEmptyNameVersion
      else if length nameVersion > MaxNameVersionLen
        then Some (ErrNameVersionTooLong (length nameVersion))
      else if controlChars nameVersion then Some (ErrBadNameVersion nameVersion)
      else None)"

definition ValidatePort :: "int \<Rightarrow> proto_error option" where
  "ValidatePort port =
     (if port < MinPort \<or> port > MaxPort then Some (ErrPortOutOfRange port) else None)"

fun validate_packages :: "string list \<Rightarrow> proto_error option" where
  "validate_packages [] = None"
| "validate_packages (nv # nvs) =
     (case ValidateNameVersion nv of Some e \<Rightarrow> Some e | None \<Rightarrow> validate_packages nvs)"

definition AnnounceRequest_Validate :: "AnnounceRequest \<Rightarrow> proto_error option" where
  "AnnounceRequest_Validate r =
     (case ValidatePort (ServingPort r) of
        Some e \<Rightarrow> Some e
      | None \<Rightarrow>
          if length (Packages r) > MaxPackages
          then Some (ErrTooManyPackages (length (Packages r)) MaxPackages)
          else validate_packages (Packages r))"

definition PeerInfo_Validate :: "PeerInfo \<Rightarrow> proto_error option" where
  "PeerInfo_Validate p =
     (if ParseIP (IP p) = None then Some (ErrBadIP (IP p)) else ValidatePort (Port p))"

fun validate_peers :: "PeerInfo list \<Rightarrow> proto_error option" where
  "validate_peers [] = None"
| "validate_peers (p # ps) =
     (case PeerInfo_Validate p of Some e \<Rightarrow> Some e | None \<Rightarrow> validate_peers ps)"

definition PeerListResponse_Validate :: "PeerListResponse \<Rightarrow> proto_error option" where
  "PeerListResponse_Validate r = validate_peers (resp_Peers r)"

definition Addr :: "PeerInfo \<Rightarrow> string" where
  "Addr p = JoinHostPort (IP p) (Itoa (Port p))"

subsection \<open>What the validators accept\<close>

lemmas proto_consts = MaxNameVersionLen_def MaxPackages_def MinPort_def MaxPort_def

definition valid_name_version :: "string \<Rightarrow> bool" where
  "valid_name_version s \<longleftrightarrow> s \<noteq> [] \<and> length s \<le> 255 \<and> (\<forall>c \<in> set s. \<not> control_char c)"

lemma ValidateNameVersion_None [simp]:
  "ValidateNameVersion s = None \<longleftrightarrow> valid_name_version s"
  by (auto simp: ValidateNameVersion_def valid_name_version_def controlChars_def list_ex_iff
      proto_consts)

lemma ValidatePort_None [simp]: "ValidatePort p = None \<longleftrightarrow> 1 \<le> p \<and> p \<le> 65535"
  by (auto simp: ValidatePort_def proto_consts)

lemma validate_packages_None [simp]:
  "validate_packages nvs = None \<longleftrightarrow> (\<forall>nv \<in> set nvs. valid_name_version nv)"
  by (induction nvs) (auto split: option.splits simp flip: ValidateNameVersion_None)

lemma validate_packages_first:
  "validate_packages nvs =
     Option.bind (find (\<lambda>nv. \<not> valid_name_version nv) nvs) ValidateNameVersion"
proof (induction nvs)
  case (Cons nv nvs)
  then show ?case
    by (cases "ValidateNameVersion nv") (auto simp flip: ValidateNameVersion_None)
qed simp

lemma validate_peers_None [simp]:
  "validate_peers ps = None \<longleftrightarrow> (\<forall>p \<in> set ps. PeerInfo_Validate p = None)"
  by (induction ps) (auto split: option.splits)

lemma PeerInfo_Validate_None [simp]:
  "PeerInfo_Validate p = None \<longleftrightarrow> ParseIP (IP p) \<noteq> None \<and> 1 \<le> Port p \<and> Port p \<le> 65535"
  by (simp add: PeerInfo_Validate_def)

lemma Itoa_bracket_free: "0 \<le> i \<Longrightarrow> bracket_free (Itoa i)"
  using nat_dec_digits [of "nat i"]
  by (auto simp: Itoa_def bracket_free_def list_all_iff is_digit_def)

lemma Addr_split:
  assumes "PeerInfo_Validate p = None"
  shows "SplitHostPort (Addr p) = Inr (IP p, Itoa (Port p))"
  using assms ParseIP_bracket_free [of "IP p"]
  by (auto simp: Addr_def intro!: SplitHostPort_JoinHostPort Itoa_bracket_free Itoa_no_colon)

lemma Addr_inj:
  assumes "PeerInfo_Validate p = None" "PeerInfo_Validate q = None" "Addr p = Addr q"
  shows "p = q"
proof -
  have "Itoa (Port p) = Itoa (Port q)" and ip: "IP p = IP q"
    using Addr_split [OF assms(1)] Addr_split [OF assms(2)] assms(3) by auto
  then have "Atoi (Itoa (Port p)) = Atoi (Itoa (Port q))" by simp
  then have "Port p = Port q" using assms(1,2) by (simp add: Atoi_Itoa)
  with ip show ?thesis by (cases p; cases q) simp
qed

end
