(* ===== verification/Blacklist.thy ===== *)
theory Blacklist
  imports Prelude
begin

text \<open>
  The local list of peers that served corrupt bytes (\<open>src/internal/peer/blacklist.go\<close>).  Every
  method tolerates a nil receiver, so a list is an \<open>option\<close>; the map inside is nil until the
  first \<open>Block\<close>.
\<close>

record Blacklist =
  blocked :: "string set option"

definition blocked_set :: "Blacklist option \<Rightarrow> string set" where
  "blocked_set b = (case b of None \<Rightarrow> {} | Some l \<Rightarrow> (case blocked l of None \<Rightarrow> {} | Some s \<Rightarrow> s))"

definition Block :: "string \<Rightarrow> Blacklist option \<Rightarrow> Blacklist option" where
  "Block addr b =
     (case b of
        None \<Rightarrow> None
      | Some l \<Rightarrow>
          let m = (case blocked l of None \<Rightarrow> {} | Some s \<Rightarrow> s)
          in Some (l\<lparr>blocked := Some (insert addr m)\<rparr>))"

definition Blocked :: "Blacklist option \<Rightarrow> string \<Rightarrow> bool" where
  "Blocked b addr =
     (case b of
        None \<Rightarrow> False
      | Some l \<Rightarrow> (case blocked l of None \<Rightarrow> False | Some s \<Rightarrow> addr \<in> s))"

definition Blacklist_Len :: "Blacklist option \<Rightarrow> nat" where
  "Blacklist_Len b =
     (case b of
        None \<Rightarrow> 0
      | Some l \<Rightarrow> (case blocked l of None \<Rightarrow> 0 | Some s \<Rightarrow> card s))"

text \<open>\<open>Addrs\<close> copies the keys and sorts them; a nil slice is the empty list.\<close>

definition Addrs :: "Blacklist option \<Rightarrow> string list" where
  "Addrs b =
     (case b of
        None \<Rightarrow> []
      | Some l \<Rightarrow> (case blocked l of None \<Rightarrow> [] | Some s \<Rightarrow> if card s = 0 then [] else sorted_list_of_set s))"

lemma Blocked_iff: "Blocked b addr \<longleftrightarrow> addr \<in> blocked_set b"
  by (auto simp: Blocked_def blocked_set_def split: option.splits)

lemma blocked_set_Block: "blocked_set (Block addr b) = (if b = None then {} else insert addr (blocked_set b))"
  by (auto simp: Block_def blocked_set_def Let_def split: option.splits)

lemma blocked_set_Block_mono: "blocked_set b \<subseteq> blocked_set (Block addr b)"
  by (cases b) (auto simp: Block_def blocked_set_def Let_def)

lemma Block_None [simp]: "Block addr b = None \<longleftrightarrow> b = None"
  by (simp add: Block_def Let_def split: option.splits)

lemma Block_idem: "Block addr (Block addr b) = Block addr b"
  by (auto simp: Block_def Let_def split: option.splits)

lemma Addrs_sorted:
  "finite (blocked_set b) \<Longrightarrow> sorted (Addrs b) \<and> distinct (Addrs b) \<and> set (Addrs b) = blocked_set b
     \<and> length (Addrs b) = Blacklist_Len b"
  by (auto simp: Addrs_def blocked_set_def Blacklist_Len_def split: option.splits)

end
