(* ===== verification/Fetch.thy ===== *)
theory Fetch
  imports Proto Go_Crypto Go_Http Blacklist
begin

text \<open>
  Fetching a package from peers: \<open>src/internal/peer/fetch.go\<close> (one peer) and
  \<open>src/internal/peer/download.go\<close> (the loop over the holders the tracker named).

  What the outside world does during an attempt is a record \<open>fetch_env\<close>: the reply of each peer
  (whatever \<open>http.Client.Do\<close> returns for the request, redirects followed), the names
  \<open>os.CreateTemp\<close> draws, and how the temporary directory behaves.  The temporary directory is a
  map from file names to contents.  The loop takes one environment per position of the address
  list, so nothing is assumed to stay the same between two attempts.

  The lemmas show that a file handed to the caller has exactly the expected size and SHA-256, that
  a failed fetch leaves no file behind, that nothing longer than the expected size plus one byte is
  ever spooled, that a peer is blacklisted for corrupt bytes and for nothing else, that a
  blacklisted peer is never contacted, and that one honest holder is enough.
\<close>

subsection \<open>Types\<close>

record Want =
  Hash :: string
  Size :: int

datatype peer_error =
    ErrBadName
  | ErrRequest
  | ErrDo
  | ErrPeerError nat
  | ErrSizeMismatch int
  | ErrSpool
  | ErrReadBody
  | ErrHashMismatch
  | ErrNoPeers
  | ErrLister

datatype peer_reply =
    NoRequest   \<comment> \<open>\<open>http.NewRequestWithContext\<close> rejects the URL\<close>
  | NoReply     \<comment> \<open>\<open>peerClient.Do\<close> fails: refused, timed out, cancelled\<close>
  | Reply http_resp

type_synonym tmpfs = "string \<Rightarrow> byte list option"

record fetch_env =
  reply :: "string \<Rightarrow> string \<Rightarrow> peer_reply"  \<comment> \<open>by address and path\<close>
  temp_ok :: bool                            \<comment> \<open>\<open>temp_dir\<close> accepts new files\<close>
  temp_rand :: "nat \<Rightarrow> string"               \<comment> \<open>the random infix of the i-th try of \<open>CreateTemp\<close>\<close>
  disk_room :: "nat option"
  seek_ok :: bool
  remove_ok :: bool

text \<open>
  \<open>os.CreateTemp(dir, "jmj-*.pkg")\<close>: names are tried until one does not exist, ten thousand times
  at most.
\<close>

definition temp_name :: "string \<Rightarrow> string \<Rightarrow> string" where
  "temp_name dir r =
     (if HasSuffix dir ''/'' then dir else dir @ ''/'') @ ''jmj-'' @ r @ ''.pkg''"

function create_temp :: "(nat \<Rightarrow> string) \<Rightarrow> string \<Rightarrow> tmpfs \<Rightarrow> nat \<Rightarrow> string option" where
  "create_temp rnd dir fs i =
     (if i \<ge> 10000 then None
      else if fs (temp_name dir (rnd i)) = None then Some (temp_name dir (rnd i))
      else create_temp rnd dir fs (Suc i))"
  by pat_completeness auto
termination by (relation "measure (\<lambda>(rnd, dir, fs, i). 10000 - i)") auto

declare create_temp.simps [simp del]

definition CreateTemp :: "fetch_env \<Rightarrow> string \<Rightarrow> tmpfs \<Rightarrow> string option" where
  "CreateTemp e dir fs = (if temp_ok e then create_temp (temp_rand e) dir fs 0 else None)"

text \<open>\<open>os.Remove\<close>; a failure is logged and ignored by both callers.\<close>

definition Remove :: "bool \<Rightarrow> string \<Rightarrow> tmpfs \<Rightarrow> tmpfs" where
  "Remove ok name fs = (if ok then fs(name := None) else fs)"

subsection \<open>One peer (fetch.go)\<close>

definition packagePathPrefix :: string where "packagePathPrefix = ''/pkg/''"

text \<open>
  \<open>validName\<close> ranges over runes; the runes it refuses are one-byte runes, so it looks at the
  bytes.
\<close>

definition validName :: "string \<Rightarrow> bool" where
  "validName s \<longleftrightarrow> \<not> (length s = 0 \<or> length s > 255) \<and> list_all (\<lambda>c. \<not> control_char c) s"

text \<open>
  The part of \<open>FetchFromPeer\<close> after the temporary file exists: the verdict on the bytes and the
  contents of the file at that moment.
\<close>

definition spool_body :: "fetch_env \<Rightarrow> Want \<Rightarrow> reader \<Rightarrow> peer_error option \<times> byte list" where
  "spool_body e want body =
     (let (bs, failed) = spool_copy (disk_room e) (limit_copy (wrap64 (Size want + 1)) body);
          n = int (length bs)
      in (if failed then Some ErrReadBody
          else if n \<noteq> Size want then Some (ErrSizeMismatch n)
          else if sha256_hex bs \<noteq> Hash want then Some ErrHashMismatch
          else if \<not> seek_ok e then Some ErrSpool
          else None, bs))"

definition FetchFromPeer ::
  "fetch_env \<Rightarrow> string \<Rightarrow> string \<Rightarrow> Want \<Rightarrow> string \<Rightarrow> tmpfs \<Rightarrow> (peer_error + string) \<times> tmpfs" where
  "FetchFromPeer e addr nameVersion want tempDir fs =
     (if \<not> validName nameVersion then (Inl ErrBadName, fs)
      else case reply e addr (packagePathPrefix @ nameVersion) of
        NoRequest \<Rightarrow> (Inl ErrRequest, fs)
      | NoReply \<Rightarrow> (Inl ErrDo, fs)
      | Reply resp \<Rightarrow>
          if StatusCode resp \<noteq> 200 then (Inl (ErrPeerError (StatusCode resp)), fs)
          else if ContentLength resp \<ge> 0 \<and> ContentLength resp \<noteq> Size want
            then (Inl (ErrSizeMismatch (ContentLength resp)), fs)
          else case CreateTemp e tempDir fs of
            None \<Rightarrow> (Inl ErrSpool, fs)
          | Some tmp \<Rightarrow>
              (case spool_body e want (Body resp) of
                 (None, bs) \<Rightarrow> (Inr tmp, fs(tmp \<mapsto> bs))
               | (Some err, bs) \<Rightarrow> (Inl err, Remove (remove_ok e) tmp (fs(tmp \<mapsto> bs)))))"

subsection \<open>The loop over the holders (download.go)\<close>

text \<open>
  The third component of the result lists the attempts, as positions in the address list: the
  requests the loop puts on the wire.
\<close>

fun fetch_loop ::
  "(nat \<Rightarrow> fetch_env) \<Rightarrow> nat \<Rightarrow> string list \<Rightarrow> string \<Rightarrow> Want \<Rightarrow> string \<Rightarrow> Blacklist option \<Rightarrow> tmpfs
     \<Rightarrow> (peer_error + string) \<times> Blacklist option \<times> nat list \<times> tmpfs" where
  "fetch_loop env i [] nameVersion want tempDir bl fs = (Inl ErrNoPeers, bl, [], fs)"
| "fetch_loop env i (addr # addrs) nameVersion want tempDir bl fs =
     (if Blocked bl addr then fetch_loop env (Suc i) addrs nameVersion want tempDir bl fs
      else case FetchFromPeer (env i) addr nameVersion want tempDir fs of
        (Inr file, fs') \<Rightarrow> (Inr file, bl, [i], fs')
      | (Inl err, fs') \<Rightarrow>
          if err = ErrSpool then (Inl ErrSpool, bl, [i], fs')
          else
            let bl' = (if err = ErrHashMismatch then Block addr bl else bl);
                (r, bl'', is, fs'') = fetch_loop env (Suc i) addrs nameVersion want tempDir bl' fs'
            in (r, bl'', i # is, fs''))"

definition FetchFirst ::
  "(nat \<Rightarrow> fetch_env) \<Rightarrow> string list \<Rightarrow> string \<Rightarrow> Want \<Rightarrow> string \<Rightarrow> Blacklist option \<Rightarrow> tmpfs
     \<Rightarrow> (peer_error + string) \<times> Blacklist option \<times> nat list \<times> tmpfs" where
  "FetchFirst env addrs nameVersion want tempDir bl fs =
     (if \<not> validName nameVersion then (Inl ErrBadName, bl, [], fs)
      else fetch_loop env 0 addrs nameVersion want tempDir bl fs)"

definition Download ::
  "(nat \<Rightarrow> fetch_env) \<Rightarrow> (string \<Rightarrow> string list option) \<Rightarrow> string \<Rightarrow> Want \<Rightarrow> string
     \<Rightarrow> Blacklist option \<Rightarrow> tmpfs \<Rightarrow> (peer_error + string) \<times> Blacklist option \<times> nat list \<times> tmpfs" where
  "Download env lister nameVersion want tempDir bl fs =
     (if \<not> validName nameVersion then (Inl ErrBadName, bl, [], fs)
      else case lister nameVersion of
        None \<Rightarrow> (Inl ErrLister, bl, [], fs)
      | Some addrs \<Rightarrow> FetchFirst env addrs nameVersion want tempDir bl fs)"

definition Discard :: "bool \<Rightarrow> string option \<Rightarrow> tmpfs \<Rightarrow> tmpfs" where
  "Discard ok f fs = (case f of None \<Rightarrow> fs | Some name \<Rightarrow> Remove ok name fs)"

subsection \<open>Temporary files\<close>

lemma create_temp_fresh: "create_temp rnd dir fs i = Some f \<Longrightarrow> fs f = None"
proof (induction rnd dir fs i rule: create_temp.induct)
  case (1 rnd dir fs i)
  then show ?case by (subst (asm) (2) create_temp.simps) (auto split: if_splits)
qed

lemma create_temp_finds:
  "i \<le> k \<Longrightarrow> k < 10000 \<Longrightarrow> fs (temp_name dir (rnd k)) = None \<Longrightarrow> create_temp rnd dir fs i \<noteq> None"
proof (induction rnd dir fs i rule: create_temp.induct)
  case (1 rnd dir fs i)
  then show ?case
    by (cases "i = k") (subst create_temp.simps, auto)+
qed

lemma CreateTemp_fresh: "CreateTemp e dir fs = Some f \<Longrightarrow> fs f = None"
  by (auto simp: CreateTemp_def create_temp_fresh split: if_splits)

lemma validName_iff: "validName s \<longleftrightarrow> ValidateNameVersion s = None"
  by (auto simp: validName_def valid_name_version_def list_all_iff)

subsection \<open>One attempt\<close>

text \<open>
  What an attempt finds out about the peer, before anything is written: \<open>offer\<close> is the body of an
  acceptable reply.  A peer is \<open>corrupt\<close> when it answered, sent exactly the expected number of
  bytes, and they are not the package.
\<close>

definition offer :: "fetch_env \<Rightarrow> string \<Rightarrow> string \<Rightarrow> Want \<Rightarrow> reader option" where
  "offer e addr nv want =
     (case reply e addr (packagePathPrefix @ nv) of
        Reply resp \<Rightarrow>
          if StatusCode resp = 200 \<and> (ContentLength resp < 0 \<or> ContentLength resp = Size want)
          then Some (Body resp) else None
      | _ \<Rightarrow> None)"

definition corrupt :: "fetch_env \<Rightarrow> string \<Rightarrow> string \<Rightarrow> Want \<Rightarrow> bool" where
  "corrupt e addr nv want \<longleftrightarrow>
     (\<exists>body bs. offer e addr nv want = Some body \<and>
        limit_copy (wrap64 (Size want + 1)) body = (bs, False) \<and>
        (\<forall>c. disk_room e = Some c \<longrightarrow> length bs \<le> c) \<and>
        int (length bs) = Size want \<and> sha256_hex bs \<noteq> Hash want)"

definition honest :: "fetch_env \<Rightarrow> string \<Rightarrow> string \<Rightarrow> Want \<Rightarrow> bool" where
  "honest e addr nv want \<longleftrightarrow>
     (\<exists>bs. offer e addr nv want = Some (Finite bs False) \<and>
        int (length bs) = Size want \<and> sha256_hex bs = Hash want)"

definition local_ok :: "fetch_env \<Rightarrow> string \<Rightarrow> tmpfs \<Rightarrow> bool" where
  "local_ok e dir fs \<longleftrightarrow>
     temp_ok e \<and> (\<exists>k < 10000. fs (temp_name dir (temp_rand e k)) = None) \<and>
     disk_room e = None \<and> seek_ok e \<and> remove_ok e"

lemma spool_body_ErrHashMismatch:
  "fst (spool_body e want body) = Some ErrHashMismatch \<longleftrightarrow>
     (\<exists>bs. limit_copy (wrap64 (Size want + 1)) body = (bs, False) \<and>
        (\<forall>c. disk_room e = Some c \<longrightarrow> length bs \<le> c) \<and>
        int (length bs) = Size want \<and> sha256_hex bs \<noteq> Hash want)"
  by (cases "limit_copy (wrap64 (Size want + 1)) body"; cases "disk_room e")
     (auto simp: spool_body_def spool_copy_def Let_def split: if_splits)

lemma corrupt_iff:
  "corrupt e addr nv want \<longleftrightarrow>
     (\<exists>body. offer e addr nv want = Some body \<and> fst (spool_body e want body) = Some ErrHashMismatch)"
  unfolding corrupt_def spool_body_ErrHashMismatch by blast

lemma FetchFromPeer_cases:
  obtains (refused) err where "FetchFromPeer e addr nv want dir fs = (Inl err, fs)"
      "err \<notin> {ErrHashMismatch, ErrNoPeers, ErrLister}"
      "err = ErrSpool \<longleftrightarrow> validName nv \<and> offer e addr nv want \<noteq> None"
      "validName nv \<and> offer e addr nv want \<noteq> None \<Longrightarrow> CreateTemp e dir fs = None"
  | (rejected) err tmp body bs where
      "FetchFromPeer e addr nv want dir fs = (Inl err, Remove (remove_ok e) tmp (fs(tmp \<mapsto> bs)))"
      "validName nv" "offer e addr nv want = Some body"
      "CreateTemp e dir fs = Some tmp" "spool_body e want body = (Some err, bs)" "fs tmp = None"
  | (accepted) tmp body bs where
      "FetchFromPeer e addr nv want dir fs = (Inr tmp, fs(tmp \<mapsto> bs))"
      "validName nv" "offer e addr nv want = Some body"
      "CreateTemp e dir fs = Some tmp" "spool_body e want body = (None, bs)" "fs tmp = None"
proof (cases "validName nv \<and> offer e addr nv want \<noteq> None")
  case False
  then show ?thesis
    by (intro refused [of "projl (fst (FetchFromPeer e addr nv want dir fs))"])
       (auto simp: FetchFromPeer_def offer_def split: peer_reply.splits if_splits)
next
  case True
  then obtain resp where resp: "reply e addr (packagePathPrefix @ nv) = Reply resp"
    "StatusCode resp = 200" "ContentLength resp < 0 \<or> ContentLength resp = Size want"
    "offer e addr nv want = Some (Body resp)"
    by (auto simp: offer_def split: peer_reply.splits if_splits)
  show ?thesis
  proof (cases "CreateTemp e dir fs")
    case None
    with True resp show ?thesis by (intro refused [of ErrSpool]) (auto simp: FetchFromPeer_def)
  next
    case (Some tmp)
    obtain v bs where v: "spool_body e want (Body resp) = (v, bs)" by fastforce
    have "fs tmp = None" using Some by (rule CreateTemp_fresh)
    then show ?thesis
      using True resp Some v
      by (cases v) (auto simp: FetchFromPeer_def intro: rejected accepted)
  qed
qed

lemma spool_body_length:
  "spool_body e want body = (v, bs) \<Longrightarrow> int (length bs) \<le> max 0 (wrap64 (Size want + 1))"
  using spool_copy_length [of "disk_room e" "limit_copy (wrap64 (Size want + 1)) body"]
    limit_copy_length [of "wrap64 (Size want + 1)" body]
  by (auto simp: spool_body_def Let_def split: prod.splits)

lemma spool_body_accept:
  "spool_body e want body = (None, bs) \<Longrightarrow> int (length bs) = Size want \<and> sha256_hex bs = Hash want"
  by (auto simp: spool_body_def Let_def split: prod.splits if_splits)

lemma spool_body_not_lister:
  "spool_body e want body = (Some err, bs) \<Longrightarrow> err \<notin> {ErrNoPeers, ErrLister}"
  by (auto simp: spool_body_def Let_def split: prod.splits if_splits)

lemma FetchFromPeer_Inr:
  assumes "FetchFromPeer e addr nv want dir fs = (Inr tmp, fs')"
  shows "\<exists>bs. fs tmp = None \<and> fs' = fs(tmp \<mapsto> bs) \<and> int (length bs) = Size want \<and> sha256_hex bs = Hash want"
  by (rule FetchFromPeer_cases [of e addr nv want dir fs]) (use assms spool_body_accept in auto)

lemma FetchFromPeer_Inl_fs:
  assumes "FetchFromPeer e addr nv want dir fs = (Inl err, fs')" "remove_ok e"
  shows "fs' = fs"
  by (rule FetchFromPeer_cases [of e addr nv want dir fs]) (use assms in \<open>auto simp: Remove_def\<close>)

lemma FetchFromPeer_corrupt:
  assumes "FetchFromPeer e addr nv want dir fs = (Inl err, fs')" "err \<noteq> ErrSpool" "validName nv"
  shows "err = ErrHashMismatch \<longleftrightarrow> corrupt e addr nv want"
  by (rule FetchFromPeer_cases [of e addr nv want dir fs]) (use assms in \<open>auto simp: corrupt_iff\<close>)

lemma FetchFromPeer_honest:
  assumes "honest e addr nv want" "local_ok e dir fs" "validName nv" "Size want < 2 ^ 63 - 1"
  shows "\<exists>tmp. fst (FetchFromPeer e addr nv want dir fs) = Inr tmp"
proof -
  obtain bs where bs: "offer e addr nv want = Some (Finite bs False)"
    "int (length bs) = Size want" "sha256_hex bs = Hash want"
    using assms(1) by (auto simp: honest_def)
  have "create_temp (temp_rand e) dir fs 0 \<noteq> None"
    using assms(2) create_temp_finds [of 0 _ fs dir "temp_rand e"] by (auto simp: local_ok_def)
  then have tmp: "CreateTemp e dir fs \<noteq> None"
    using assms(2) by (simp add: CreateTemp_def local_ok_def)
  have "wrap64 (Size want + 1) = Size want + 1"
    using assms(4) bs(2) by (intro wrap64_id) linarith+
  then have "spool_body e want (Finite bs False) = (None, bs)"
    using bs assms(2) by (simp add: spool_body_def limit_copy_Finite spool_copy_def local_ok_def)
  then show ?thesis
    by (rule_tac FetchFromPeer_cases [of e addr nv want dir fs]) (use bs tmp assms(3) in auto)
qed

subsection \<open>The loop\<close>

text \<open>The four things an iteration can do: skip, succeed, stop on a local fault, move on.\<close>

lemma fetch_loop_Cons_cases:
  assumes "fetch_loop env i (addr # addrs) nv want dir bl fs = (r, bl', is, fs')"
  obtains (skip) "addr \<in> blocked_set bl" "fetch_loop env (Suc i) addrs nv want dir bl fs = (r, bl', is, fs')"
  | (hit) f where "addr \<notin> blocked_set bl" "FetchFromPeer (env i) addr nv want dir fs = (Inr f, fs')"
      "r = Inr f" "bl' = bl" "is = [i]"
  | (stop) "addr \<notin> blocked_set bl" "FetchFromPeer (env i) addr nv want dir fs = (Inl ErrSpool, fs')"
      "r = Inl ErrSpool" "bl' = bl" "is = [i]"
  | (move) err fs1 is1 where "addr \<notin> blocked_set bl" "err \<noteq> ErrSpool"
      "FetchFromPeer (env i) addr nv want dir fs = (Inl err, fs1)" "is = i # is1"
      "fetch_loop env (Suc i) addrs nv want dir (if err = ErrHashMismatch then Block addr bl else bl) fs1
         = (r, bl', is1, fs')"
proof (cases "Blocked bl addr")
  case True
  with assms show ?thesis by (intro skip) (auto simp: Blocked_iff)
next
  case False
  obtain v fs1 where one: "FetchFromPeer (env i) addr nv want dir fs = (v, fs1)" by fastforce
  then show ?thesis
  proof (cases v)
    case (Inr f)
    with assms False one show ?thesis by (intro hit) (auto simp: Blocked_iff)
  next
    case (Inl err)
    show ?thesis
    proof (cases "err = ErrSpool")
      case True
      with assms False one Inl show ?thesis by (intro stop) (auto simp: Blocked_iff)
    next
      case f: False
      let ?b = "if err = ErrHashMismatch then Block addr bl else bl"
      obtain is1 where "is = i # is1"
        "fetch_loop env (Suc i) addrs nv want dir ?b fs1 = (r, bl', is1, fs')"
        using assms False one Inl f by (auto simp: Let_def split: prod.splits if_splits)
      with False one Inl f show ?thesis by (intro move) (auto simp: Blocked_iff)
    qed
  qed
qed

lemma fetch_loop_Inr:
  assumes "fetch_loop env i addrs nv want dir bl fs = (Inr f, bl', is, fs')"
  shows "\<exists>bs. fs' f = Some bs \<and> int (length bs) = Size want \<and> sha256_hex bs = Hash want \<and>
           ((\<forall>j. remove_ok (env j)) \<longrightarrow> fs f = None \<and> fs' = fs(f \<mapsto> bs))"
  using assms
proof (induction addrs arbitrary: i bl fs bl' "is")
  case (Cons addr addrs)
  from Cons.prems show ?case
  proof (cases rule: fetch_loop_Cons_cases)
    case skip
    from Cons.IH [OF this(2)] show ?thesis .
  next
    case (hit f')
    from FetchFromPeer_Inr [OF this(2)] hit(3) show ?thesis by (auto simp: fun_eq_iff)
  next
    case (move err fs1 is1)
    from Cons.IH [OF this(5)] FetchFromPeer_Inl_fs [OF move(3)] show ?thesis by auto
  qed simp
qed simp

lemma fetch_loop_Inl:
  assumes "fetch_loop env i addrs nv want dir bl fs = (Inl err, bl', is, fs')"
    "\<And>j. remove_ok (env j)"
  shows "fs' = fs"
  using assms(1)
proof (induction addrs arbitrary: i bl fs bl' "is")
  case (Cons addr addrs)
  note rm = FetchFromPeer_Inl_fs [OF _ assms(2)]
  from Cons.prems show ?case
    by (cases rule: fetch_loop_Cons_cases) (use Cons.IH rm in fastforce)+
qed simp

text \<open>The attempts are strictly increasing positions, each at an address that was not blacklisted.\<close>

lemma fetch_loop_attempts:
  assumes "fetch_loop env i addrs nv want dir bl fs = (r, bl', is, fs')"
  shows "sorted_wrt (<) is \<and>
    (\<forall>j \<in> set is. i \<le> j \<and> j < i + length addrs \<and> addrs ! (j - i) \<notin> blocked_set bl)"
  using assms
proof (induction addrs arbitrary: i bl fs bl' "is" fs')
  case (Cons addr addrs)
  have shift: "i < j \<and> j < i + length (addr # addrs) \<and> (addr # addrs) ! (j - i) \<notin> blocked_set bl"
    if "Suc i \<le> j \<and> j < Suc i + length addrs \<and> addrs ! (j - Suc i) \<notin> blocked_set b"
      "blocked_set bl \<subseteq> blocked_set b" for b j
    using that by (auto simp: nth_Cons' Suc_le_eq)
  from Cons.prems show ?case
  proof (cases rule: fetch_loop_Cons_cases)
    case skip
    from Cons.IH [OF this(2)] shift show ?thesis by (meson less_imp_le order_refl)
  next
    case (move err fs1 is1)
    let ?b = "if err = ErrHashMismatch then Block addr bl else bl"
    have "blocked_set bl \<subseteq> blocked_set ?b" using blocked_set_Block_mono by auto
    with Cons.IH [OF move(5)] shift [of _ ?b] have "sorted_wrt (<) is1 \<and>
      (\<forall>j \<in> set is1. i < j \<and> j < i + length (addr # addrs) \<and> (addr # addrs) ! (j - i) \<notin> blocked_set bl)"
      by blast
    with move show ?thesis by auto
  qed auto
qed simp

text \<open>
  The attempts whose outcome says something about the peer: all of them, except that a loop which ends for
  a fault of the local temporary directory ends at an attempt that does not.
\<close>

definition judged :: "peer_error + string \<Rightarrow> nat list \<Rightarrow> nat list" where
  "judged r is = (if r = Inl ErrSpool then butlast is else is)"

lemma judged_subset: "j \<in> set (judged r is) \<Longrightarrow> j \<in> set is"
  by (auto simp: judged_def split: if_splits dest: in_set_butlastD)

lemma fetch_loop_spool:
  "fetch_loop env i addrs nv want dir bl fs = (Inl ErrSpool, bl', is, fs') \<Longrightarrow> is \<noteq> []"
proof (induction addrs arbitrary: i bl fs bl' "is")
  case (Cons addr addrs)
  from Cons.prems show ?case
    by (cases rule: fetch_loop_Cons_cases) (use Cons.IH in auto)
qed simp

lemma fetch_loop_blacklist:
  assumes "fetch_loop env i addrs nv want dir bl fs = (r, bl', is, fs')" "validName nv" "bl \<noteq> None"
  shows "blocked_set bl' =
    blocked_set bl \<union> {addrs ! (j - i) | j. j \<in> set (judged r is) \<and> corrupt (env j) (addrs ! (j - i)) nv want}"
  using assms(1,3)
proof (induction addrs arbitrary: i bl fs bl' "is" fs')
  case (Cons addr addrs)
  have shift: "{(addr # addrs) ! (j - i) | j. j \<in> set (judged r js) \<and> corrupt (env j) ((addr # addrs) ! (j - i)) nv want}
     = {addrs ! (j - Suc i) | j. j \<in> set (judged r js) \<and> corrupt (env j) (addrs ! (j - Suc i)) nv want}"
    if "\<forall>j \<in> set js. Suc i \<le> j" for js
  proof -
    have "(addr # addrs) ! (j - i) = addrs ! (j - Suc i)" if "j \<in> set (judged r js)" for j
      using \<open>\<forall>j \<in> set js. Suc i \<le> j\<close> judged_subset [OF that] by (auto simp: nth_Cons' Suc_le_eq)
    then show ?thesis by (metis (no_types, lifting))
  qed
  from Cons.prems(1) show ?case
  proof (cases rule: fetch_loop_Cons_cases)
    case skip
    from fetch_loop_attempts [OF this(2)] have "\<forall>j \<in> set is. Suc i \<le> j" by blast
    from shift [OF this] Cons.IH [OF skip(2) Cons.prems(2)] show ?thesis by simp
  next
    case (hit f)
    then have "\<not> corrupt (env i) addr nv want"
      by (rule_tac FetchFromPeer_cases [of "env i" addr nv want dir fs])
        (auto simp: corrupt_iff)
    with hit show ?thesis by (auto simp: judged_def)
  next
    case stop
    then show ?thesis by (simp add: judged_def)
  next
    case (move err fs1 is1)
    let ?b = "if err = ErrHashMismatch then Block addr bl else bl"
    from fetch_loop_attempts [OF move(5)] have "\<forall>j \<in> set is1. Suc i \<le> j" by blast
    note eq = shift [OF this]
    have "?b \<noteq> None" using Cons.prems(2) by (simp del: not_None_eq)
    from Cons.IH [OF move(5) this] have ih: "blocked_set bl' = blocked_set ?b \<union>
      {addrs ! (j - Suc i) | j. j \<in> set (judged r is1) \<and> corrupt (env j) (addrs ! (j - Suc i)) nv want}" .
    have "blocked_set ?b = blocked_set bl \<union> {addr | u :: unit. corrupt (env i) addr nv want}"
      using FetchFromPeer_corrupt [OF move(3) move(2) assms(2)] Cons.prems(2)
      by (auto simp: blocked_set_Block)
    moreover have "judged r is = i # judged r is1"
      using move(4,5) fetch_loop_spool [of env "Suc i" addrs nv want dir ?b fs1 bl' is1 fs']
      by (auto simp: judged_def)
    ultimately show ?thesis by (auto simp: ih simp flip: eq intro: exI [of _ i])
  qed
qed (simp add: judged_def)

lemma fetch_loop_honest:
  assumes "a \<in> set addrs" "a \<notin> blocked_set bl" "validName nv" "Size want < 2 ^ 63 - 1"
    "\<And>j. local_ok (env j) dir fs" "\<And>j. honest (env j) a nv want"
  shows "\<exists>f. fst (fetch_loop env i addrs nv want dir bl fs) = Inr f"
  using assms(1,2)
proof (induction addrs arbitrary: i bl)
  case (Cons addr addrs)
  obtain r bl' "is" fs' where run: "fetch_loop env i (addr # addrs) nv want dir bl fs = (r, bl', is, fs')"
    by (metis prod_cases4)
  have ok: "\<exists>f. fst (FetchFromPeer (env i) a nv want dir fs) = Inr f"
    using assms by (intro FetchFromPeer_honest)
  from run show ?case
  proof (cases rule: fetch_loop_Cons_cases)
    case skip
    with Cons.prems have "a \<in> set addrs" by auto
    from Cons.IH [OF this Cons.prems(2), of "Suc i"] skip run show ?thesis by simp
  next
    case (hit f)
    with run show ?thesis by simp
  next
    case stop
    show ?thesis
      by (rule FetchFromPeer_cases [of "env i" addr nv want dir fs])
        (use stop assms(5) [of i] in \<open>auto simp: local_ok_def CreateTemp_def spool_body_def Let_def
           split: prod.splits if_splits dest: create_temp_finds [rotated 1]\<close>)
  next
    case (move err fs1 is1)
    have "fs1 = fs" using FetchFromPeer_Inl_fs [OF move(3)] assms(5) by (simp add: local_ok_def)
    moreover have "a \<noteq> addr" using move(3) ok by auto
    ultimately show ?thesis
      using Cons.IH [of "if err = ErrHashMismatch then Block addr bl else bl" "Suc i"] move run Cons.prems
      by (auto simp: blocked_set_Block split: if_splits)
  qed
qed simp

subsection \<open>Properties\<close>

lemma FetchFirst_loop:
  "FetchFirst env addrs nv want dir bl fs = (r, bl', is, fs') \<Longrightarrow> r \<noteq> Inl ErrBadName \<Longrightarrow>
   validName nv \<and> fetch_loop env 0 addrs nv want dir bl fs = (r, bl', is, fs')"
  by (auto simp: FetchFirst_def split: if_splits)

text \<open>
  C4: A file that the peer loop hands to its caller has exactly the size and the SHA-256 the
  repository database lists, whatever the peers sent; it is a new file, the only change to the
  temporary directory, and discarding it restores the directory.\<close>

theorem fetch_first_verified:
  assumes "FetchFirst env addrs nv want dir bl fs = (Inr f, bl', is, fs')"
    and "\<And>j. remove_ok (env j)"
  shows "(\<exists>bs. fs f = None \<and> fs' = fs(f \<mapsto> bs) \<and> int (length bs) = Size want \<and> sha256_hex bs = Hash want)
    \<and> Discard True (Some f) fs' = fs"
proof -
  have "fetch_loop env 0 addrs nv want dir bl fs = (Inr f, bl', is, fs')"
    using FetchFirst_loop [OF assms(1)] by simp
  from fetch_loop_Inr [OF this] assms(2) show ?thesis
    by (auto simp: Discard_def Remove_def fun_upd_idem)
qed

text \<open>
  A peer loop that fails, for whatever reason, leaves the temporary directory as it found it:
  no partial, oversized or corrupt download survives the request.\<close>

theorem fetch_first_failure_leaves_nothing:
  assumes "FetchFirst env addrs nv want dir bl fs = (Inl err, bl', is, fs')"
    and "\<And>j. remove_ok (env j)"
  shows "fs' = fs"
  using assms fetch_loop_Inl [of env 0 addrs nv want dir bl fs err bl' "is" fs']
  by (auto simp: FetchFirst_def split: if_splits)

text \<open>
  C39: The size bound.  Whatever a peer answers, an attempt leaves at most the expected size plus
  one byte in the temporary directory even when the file cannot be removed, and a peer that
  streams without end is read for exactly one byte too many, dropped for a size mismatch, and not
  taken for corrupt.\<close>

theorem fetch_size_bound:
  assumes "0 \<le> Size want" "Size want < 2 ^ 63 - 1"
  shows "(\<forall>f bs. snd (FetchFromPeer e addr nv want dir fs) f = Some bs \<and> fs f = None \<longrightarrow>
            int (length bs) \<le> Size want + 1)
    \<and> (offer e addr nv want = Some (Endless g) \<and> validName nv \<and> CreateTemp e dir fs \<noteq> None
          \<and> disk_room e = None \<longrightarrow>
         fst (FetchFromPeer e addr nv want dir fs) = Inl (ErrSizeMismatch (Size want + 1))
         \<and> \<not> corrupt e addr nv want)"
proof -
  have w: "wrap64 (Size want + 1) = Size want + 1" using assms by (intro wrap64_id) auto
  have len: "int (length bs) \<le> Size want + 1"
    if "snd (FetchFromPeer e addr nv want dir fs) f = Some bs" "fs f = None" for f bs
  proof (rule FetchFromPeer_cases [of e addr nv want dir fs])
  qed (use that spool_body_length [of e want] w assms(1) in \<open>auto simp: Remove_def split: if_splits\<close>)
  let ?c = "limit_copy (Size want + 1) (Endless g)"
  have "spool_body e want (Endless g) = (Some (ErrSizeMismatch (Size want + 1)), fst ?c)"
    if "disk_room e = None"
    using limit_copy_Endless_length [of "Size want + 1" g] assms(1) that w
    by (cases ?c) (simp add: spool_body_def spool_copy_def Let_def)
  then have "fst (FetchFromPeer e addr nv want dir fs) = Inl (ErrSizeMismatch (Size want + 1))
         \<and> \<not> corrupt e addr nv want"
    if "offer e addr nv want = Some (Endless g)" "validName nv" "CreateTemp e dir fs \<noteq> None"
      "disk_room e = None"
    by (rule_tac FetchFromPeer_cases [of e addr nv want dir fs]) (use that in \<open>auto simp: corrupt_iff\<close>)
  with len show ?thesis by blast
qed

text \<open>
  C5: The peers a loop adds to the blacklist are exactly the contacted peers that answered with
  the right number of bytes and the wrong contents; a peer that is unreachable, answers an error,
  breaks the size bound or breaks off is not added, and none is ever taken off.  This holds
  however the loop ends: when it ends because the temporary directory is broken, the holder at
  which it ended is the last one contacted, and it is not added whatever it offered.\<close>

theorem fetch_first_blacklists_exactly_corrupt:
  assumes "FetchFirst env addrs nv want dir (Some bl) fs = (r, bl', is, fs')"
  shows "blocked_set bl' = blocked_set (Some bl) \<union>
    {addrs ! j | j. j \<in> set (if r = Inl ErrSpool then butlast is else is) \<and> corrupt (env j) (addrs ! j) nv want} \<and>
    (r = Inl ErrSpool \<longrightarrow> is \<noteq> [])"
proof (cases "validName nv")
  case True
  with assms have run: "fetch_loop env 0 addrs nv want dir (Some bl) fs = (r, bl', is, fs')"
    by (simp add: FetchFirst_def)
  from fetch_loop_blacklist [OF run True] fetch_loop_spool [of env 0 addrs nv want dir "Some bl" fs bl' "is" fs'] run
  show ?thesis by (auto simp: judged_def)
qed (use assms in \<open>auto simp: FetchFirst_def\<close>)

text \<open>
  The peers are tried in the tracker's order, each listed position at most once, and a peer
  that is blacklisted when the loop starts receives no request.\<close>

theorem fetch_first_contacts_no_blacklisted:
  assumes "FetchFirst env addrs nv want dir bl fs = (r, bl', is, fs')"
  shows "sorted_wrt (<) is \<and> (\<forall>j \<in> set is. j < length addrs \<and> \<not> Blocked bl (addrs ! j))"
  using assms fetch_loop_attempts [of env 0 addrs nv want dir bl fs r bl' "is" fs']
  by (auto simp: FetchFirst_def Blocked_iff split: if_splits)

text \<open>
  One honest holder is enough.  If an address of the list that is not blacklisted serves the
  package, and the temporary directory works, the loop returns a file, whatever every other
  address does.\<close>

theorem fetch_first_one_honest_holder:
  assumes "a \<in> set addrs" "\<not> Blocked bl a" "validName nv" "Size want < 2 ^ 63 - 1"
    and "\<And>j. local_ok (env j) dir fs" "\<And>j. honest (env j) a nv want"
  shows "\<exists>f. fst (FetchFirst env addrs nv want dir bl fs) = Inr f"
  using assms fetch_loop_honest [of a addrs bl nv want env dir fs 0]
  by (simp add: FetchFirst_def Blocked_iff)

text \<open>
  A full disk is not reported as a local fault.  When the disk fills up during the copy, the
  attempt ends with the error of a failed body read and not with the spool error, so the loop
  goes on to the next holder exactly as it does after a peer that broke off.\<close>

theorem fetch_disk_full_is_not_a_spool_error:
  assumes "validName nv" "offer e addr nv want = Some (Finite bs False)" "CreateTemp e dir fs \<noteq> None"
    and "int (length bs) = Size want" "Size want < 2 ^ 63 - 1" "disk_room e = Some c" "c < length bs"
  shows "fst (FetchFromPeer e addr nv want dir fs) = Inl ErrReadBody"
proof -
  have "wrap64 (Size want + 1) = Size want + 1" using assms by (intro wrap64_id) linarith+
  then have "spool_body e want (Finite bs False) = (Some ErrReadBody, take c bs)"
    using assms by (simp add: spool_body_def limit_copy_Finite spool_copy_def)
  then show ?thesis
    by (rule_tac FetchFromPeer_cases [of e addr nv want dir fs]) (use assms in auto)
qed


subsection \<open>Witnesses\<close>

text \<open>
  Three holders: one that is down, one that streams without end and one that serves \<open>demo_body\<close>.
\<close>

definition demo_body :: "byte list" where "demo_body = [1, 2, 3]"

definition demo_want :: Want where "demo_want = \<lparr>Hash = sha256_hex demo_body, Size = 3\<rparr>"

definition demo_resp :: "reader \<Rightarrow> http_resp" where
  "demo_resp b = \<lparr>StatusCode = 200, ContentLength = -1, Header = [], Body = b\<rparr>"

definition demo_fetch_env :: "nat option \<Rightarrow> fetch_env" where
  "demo_fetch_env room =
     \<lparr>reply = (\<lambda>a p. if a = ''good'' then Reply (demo_resp (Finite demo_body False))
                    else if a = ''endless'' then Reply (demo_resp (Endless (\<lambda>_. 0)))
                    else NoReply),
      temp_ok = True, temp_rand = (\<lambda>i. ''1''), disk_room = room, seek_ok = True, remove_ok = True\<rparr>"

definition demo_tmp :: string where "demo_tmp = ''/t/jmj-1.pkg''"

lemma demo_CreateTemp: "CreateTemp (demo_fetch_env room) ''/t'' Map.empty = Some demo_tmp"
  by (simp add: CreateTemp_def demo_fetch_env_def temp_name_def HasSuffix_def create_temp.simps demo_tmp_def)

lemma demo_validName: "validName ''zip-3''"
  by (simp add: validName_def control_char_def)

lemma demo_wrong_hash: "sha256_hex bs \<noteq> ''00''"
  using sha256_hex_shape [of bs] by auto

lemma demo_offer:
  "offer (demo_fetch_env room) ''good'' nv want = Some (Finite demo_body False)"
  "offer (demo_fetch_env room) ''endless'' nv want = Some (Endless (\<lambda>_. 0))"
  by (simp_all add: offer_def demo_fetch_env_def demo_resp_def)

lemma demo_env_simps [simp]:
  "disk_room (demo_fetch_env room) = room" "seek_ok (demo_fetch_env room)"
  "remove_ok (demo_fetch_env room)"
  "reply (demo_fetch_env room) ''good'' p = Reply (demo_resp (Finite demo_body False))"
  "reply (demo_fetch_env room) ''down'' p = NoReply"
  by (simp_all add: demo_fetch_env_def)

lemma demo_spool:
  "spool_body (demo_fetch_env None) demo_want (Finite demo_body False) = (None, demo_body)"
  "spool_body (demo_fetch_env None) (demo_want\<lparr>Hash := ''00''\<rparr>) (Finite demo_body False)
     = (Some ErrHashMismatch, demo_body)"
  by (simp_all add: spool_body_def spool_copy_def limit_copy_def demo_want_def demo_body_def demo_wrong_hash)

lemma demo_fetch_good:
  "FetchFirst (\<lambda>_. demo_fetch_env None) [''down'', ''good''] ''zip-3'' demo_want ''/t'' None Map.empty
     = (Inr demo_tmp, None, [0, 1], [demo_tmp \<mapsto> demo_body])"
  by (simp add: FetchFirst_def demo_validName FetchFromPeer_def Blocked_def demo_CreateTemp
      demo_resp_def demo_spool)

lemma demo_fetch_bad:
  "FetchFirst (\<lambda>_. demo_fetch_env None) [''down'', ''good''] ''zip-3'' (demo_want\<lparr>Hash := ''00''\<rparr>) ''/t''
     (Some \<lparr>blocked = None\<rparr>) Map.empty
     = (Inl ErrNoPeers, Some \<lparr>blocked = Some {''good''}\<rparr>, [0, 1], Map.empty)"
  by (simp add: FetchFirst_def demo_validName FetchFromPeer_def Blocked_def demo_CreateTemp
      demo_resp_def demo_spool Remove_def Block_def)

theorem fetch_first_verified_witness:
  "(\<exists>bs. [demo_tmp \<mapsto> demo_body] = [demo_tmp \<mapsto> bs] \<and> int (length bs) = Size demo_want
      \<and> sha256_hex bs = Hash demo_want) \<and> Discard True (Some demo_tmp) [demo_tmp \<mapsto> demo_body] = Map.empty"
  using fetch_first_verified [OF demo_fetch_good] by simp

theorem fetch_first_failure_leaves_nothing_witness:
  "snd (snd (snd (FetchFirst (\<lambda>_. demo_fetch_env None) [''down'', ''good''] ''zip-3''
     (demo_want\<lparr>Hash := ''00''\<rparr>) ''/t'' (Some \<lparr>blocked = None\<rparr>) Map.empty))) = Map.empty"
  using fetch_first_failure_leaves_nothing [OF demo_fetch_bad] by (simp add: demo_fetch_bad)

theorem fetch_size_bound_witness:
  "fst (FetchFromPeer (demo_fetch_env None) ''endless'' ''zip-3'' demo_want ''/t'' Map.empty)
     = Inl (ErrSizeMismatch 4)"
  using fetch_size_bound [of demo_want "demo_fetch_env None" "''endless''" "''zip-3''" "''/t''" Map.empty "\<lambda>_. 0"]
  by (simp add: demo_want_def demo_offer demo_validName demo_CreateTemp)

theorem fetch_first_blacklists_exactly_corrupt_witness:
  "{''good''} = {[''down'', ''good''] ! j | j. j \<in> set [0, 1] \<and>
     corrupt (demo_fetch_env None) ([''down'', ''good''] ! j) ''zip-3'' (demo_want\<lparr>Hash := ''00''\<rparr>)}"
  using fetch_first_blacklists_exactly_corrupt [OF demo_fetch_bad] by (simp add: blocked_set_def)

theorem fetch_first_contacts_no_blacklisted_witness:
  "\<not> Blocked None ([''down'', ''good''] ! 0) \<and> \<not> Blocked None ([''down'', ''good''] ! 1)"
  using fetch_first_contacts_no_blacklisted [OF demo_fetch_good] by simp

theorem fetch_first_one_honest_holder_witness:
  "\<exists>f. fst (FetchFirst (\<lambda>_. demo_fetch_env None) [''down'', ''endless'', ''good''] ''zip-3'' demo_want ''/t''
     None Map.empty) = Inr f"
proof (rule fetch_first_one_honest_holder [of "''good''"])
  show "local_ok (demo_fetch_env None) ''/t'' Map.empty"
    by (simp add: local_ok_def demo_fetch_env_def) (rule exI [of _ 0], simp)
  show "honest (demo_fetch_env None) ''good'' ''zip-3'' demo_want"
    by (simp add: honest_def demo_offer demo_want_def demo_body_def)
qed (simp_all add: demo_validName demo_want_def Blocked_def)

theorem fetch_disk_full_is_not_a_spool_error_witness:
  "fst (FetchFromPeer (demo_fetch_env (Some 2)) ''good'' ''zip-3'' demo_want ''/t'' Map.empty) = Inl ErrReadBody"
  by (rule fetch_disk_full_is_not_a_spool_error [of _ _ _ _ demo_body _ _ 2])
     (simp_all add: demo_validName demo_offer demo_CreateTemp demo_want_def demo_body_def)

end
