(* ===== verification/Seed_Server.thy ===== *)
theory Seed_Server
  imports Seed_Limiter Cache_Source Fetch
begin

text \<open>
  The seeder (\<open>src/internal/peer/serve.go\<close>): the handler of the peer wire and the life cycle of
  its listener.

  A request is the method, the decoded URL path and the remote address; requests that carry a
  range or a precondition header, which \<open>http.ServeContent\<close> would interpret and the requester
  never sends, are left out.  The handler is split where other requests can interleave: admission
  (up to and including \<open>acquire\<close>), the transfer, and the deferred release.  \<open>ServeHTTP\<close> composes
  the three for one request; \<open>seed_step\<close> interleaves them for any number of requests.

  The lemmas give the status table of the wire, show that the re-announce hook fires on 404 and on
  nothing else, that the files open at any moment respect both caps, that a served body is what
  the cache holds under that name, and that a listener never outlives \<open>Close\<close>, even when \<open>Close\<close>
  overtakes \<open>Serve\<close>.
\<close>

subsection \<open>The handler\<close>

record request =
  Method :: string
  URL_Path :: string
  RemoteAddr :: string

type_synonym package_source = "string \<Rightarrow> (byte list \<times> int) option"

record Server =
  Source :: "package_source option"
  MaxConcurrentSeeds :: int
  MaxConcurrentSeedsPerIP :: int
  OnNotHeld :: bool                  \<comment> \<open>whether the hook is set\<close>
  limiter :: "seedLimiter option"    \<comment> \<open>built on first use\<close>

text \<open>Nothing is written after the header when the request is a HEAD.\<close>

definition body_for :: "request \<Rightarrow> byte list \<Rightarrow> reader" where
  "body_for r bs = Finite (if Method r = ''HEAD'' then [] else bs) False"

definition packagePath :: "string \<Rightarrow> string option" where
  "packagePath urlPath =
     (let (rest, found) = CutPrefix urlPath packagePathPrefix
      in if \<not> found \<or> rest = '''' \<or> Contains rest ''/'' then None else Some rest)"

definition remoteIP :: "request \<Rightarrow> string" where
  "remoteIP r =
     (case SplitHostPort (RemoteAddr r) of
        Inr (host, port) \<Rightarrow> host
      | Inl _ \<Rightarrow> RemoteAddr r)"

definition peerError :: "request \<Rightarrow> nat \<Rightarrow> string \<Rightarrow> http_resp" where
  "peerError r code msg =
     (let body = bytes_of (msg @ [CHR 0x0A])
      in \<lparr>StatusCode = code, ContentLength = int (length body),
          Header = [(''Content-Type'', [''text/plain; charset=utf-8''])],
          Body = body_for r body\<rparr>)"

definition ServeContent :: "request \<Rightarrow> byte list \<Rightarrow> http_resp" where
  "ServeContent r content =
     \<lparr>StatusCode = 200, ContentLength = int (length content),
      Header = [(''Content-Type'', [''application/octet-stream'']), (''Accept-Ranges'', [''bytes''])],
      Body = body_for r content\<rparr>"

definition limits :: "Server \<Rightarrow> seedLimiter \<times> Server" where
  "limits s =
     (case limiter s of
        Some l \<Rightarrow> (l, s)
      | None \<Rightarrow>
          let l = newSeedLimiter (MaxConcurrentSeeds s) (MaxConcurrentSeedsPerIP s)
          in (l, s\<lparr>limiter := Some l\<rparr>))"

definition Server_open :: "Server \<Rightarrow> string \<Rightarrow> (byte list \<times> int) option" where
  "Server_open s nameVersion = (case Source s of None \<Rightarrow> None | Some src \<Rightarrow> src nameVersion)"

text \<open>\<open>ServeHTTP\<close> up to \<open>acquire\<close>: an answer, or a slot and the name to serve.\<close>

definition seed_admit :: "request \<Rightarrow> Server \<Rightarrow> (http_resp + slot \<times> string) \<times> Server" where
  "seed_admit r s =
     (if Method r \<noteq> ''GET'' \<and> Method r \<noteq> ''HEAD'' then
        (Inl (peerError r 405 ''only GET is served on this wire''), s)
      else case packagePath (URL_Path r) of
        None \<Rightarrow> (Inl (peerError r 400 ''expected GET /pkg/<name-version>''), s)
      | Some nameVersion \<Rightarrow>
          if \<not> validName nameVersion
          then (Inl (peerError r 400 ''expected GET /pkg/<name-version>''), s)
          else
            let (l, s') = limits s
            in case acquire (remoteIP r) l of
                 Inl refused \<Rightarrow>
                   (Inl (peerError r 503 ''seeding capacity reached; try another peer''), s')
               | Inr l' \<Rightarrow>
                   (Inr (\<lparr>slot_ip = remoteIP r, slot_done = False\<rparr>, nameVersion), s'\<lparr>limiter := Some l'\<rparr>))"

text \<open>
  \<open>ServeHTTP\<close> between \<open>acquire\<close> and the deferred release: the answer, and the name passed to the
  hook, if it is called.
\<close>

definition seed_transfer :: "request \<Rightarrow> string \<Rightarrow> Server \<Rightarrow> http_resp \<times> string option" where
  "seed_transfer r nameVersion s =
     (case Server_open s nameVersion of
        None \<Rightarrow> (peerError r 404 ''not held'', if OnNotHeld s then Some nameVersion else None)
      | Some (content, sz) \<Rightarrow> (ServeContent r content, None))"

definition seed_release :: "slot \<Rightarrow> Server \<Rightarrow> slot \<times> Server" where
  "seed_release sl s =
     (let (l, s') = limits s; (sl', l') = release sl l in (sl', s'\<lparr>limiter := Some l'\<rparr>))"

definition ServeHTTP :: "request \<Rightarrow> Server \<Rightarrow> http_resp \<times> string option \<times> Server" where
  "ServeHTTP r s =
     (case seed_admit r s of
        (Inl resp, s') \<Rightarrow> (resp, None, s')
      | (Inr (sl, nameVersion), s') \<Rightarrow>
          let (resp, hook) = seed_transfer r nameVersion s'
          in (resp, hook, snd (seed_release sl s')))"

definition capForLog :: "int \<Rightarrow> string" where
  "capForLog n = (if n \<le> 0 then ''unlimited'' else Itoa n)"

subsection \<open>Lemmas on the handler\<close>

lemma Contains_single: "Contains s [c] \<longleftrightarrow> c \<in> set s"
  by (induction s) (auto simp: HasPrefix_def)

lemma packagePath_eq:
  "packagePath p = Some nv \<longleftrightarrow> p = ''/pkg/'' @ nv \<and> nv \<noteq> '''' \<and> CHR ''/'' \<notin> set nv"
  by (auto simp: packagePath_def packagePathPrefix_def CutPrefix_def Contains_single HasPrefix_iff
      split: if_splits)

text \<open>A well-formed request of the wire, and the name it asks for.\<close>

definition wire_request :: "request \<Rightarrow> string \<Rightarrow> bool" where
  "wire_request r nv \<longleftrightarrow>
     (Method r = ''GET'' \<or> Method r = ''HEAD'') \<and> URL_Path r = ''/pkg/'' @ nv \<and>
     CHR ''/'' \<notin> set nv \<and> validName nv"

definition the_limiter :: "Server \<Rightarrow> seedLimiter" where
  "the_limiter s = fst (limits s)"

lemma validName_not_Nil: "validName nv \<Longrightarrow> nv \<noteq> []"
  by (auto simp: validName_def)

lemma limits_simps [simp]:
  "Source (snd (limits s)) = Source s" "OnNotHeld (snd (limits s)) = OnNotHeld s"
  "MaxConcurrentSeeds (snd (limits s)) = MaxConcurrentSeeds s"
  "MaxConcurrentSeedsPerIP (snd (limits s)) = MaxConcurrentSeedsPerIP s"
  "limiter (snd (limits s)) = Some (the_limiter s)"
  by (auto simp: limits_def the_limiter_def Let_def split: option.splits)

lemma the_limiter_upd [simp]: "the_limiter (s\<lparr>limiter := Some l\<rparr>) = l"
  by (simp add: the_limiter_def limits_def)

lemma the_limiter_limits [simp]: "the_limiter (snd (limits s)) = the_limiter s"
  by (simp add: the_limiter_def [of "snd (limits s)"] limits_def [of "snd (limits s)"])

lemma seed_admit_wire:
  assumes "wire_request r nv"
  shows "seed_admit r s =
    (case acquire (remoteIP r) (the_limiter s) of
       Inl refused \<Rightarrow> (Inl (peerError r 503 ''seeding capacity reached; try another peer''), snd (limits s))
     | Inr l' \<Rightarrow> (Inr (\<lparr>slot_ip = remoteIP r, slot_done = False\<rparr>, nv), (snd (limits s))\<lparr>limiter := Some l'\<rparr>))"
proof -
  have "packagePath (URL_Path r) = Some nv"
    using assms by (auto simp: wire_request_def packagePath_eq validName_not_Nil)
  then show ?thesis
    using assms by (auto simp: seed_admit_def wire_request_def the_limiter_def case_prod_beta)
qed

lemma StatusCode_peerError [simp]: "StatusCode (peerError r code msg) = code"
  by (simp add: peerError_def Let_def)

lemma seed_admit_other:
  assumes "\<And>nv. \<not> wire_request r nv"
  shows "\<exists>resp. seed_admit r s = (Inl resp, s) \<and> StatusCode resp \<in> {405, 400} \<and>
    (StatusCode resp = 405 \<longleftrightarrow> Method r \<noteq> ''GET'' \<and> Method r \<noteq> ''HEAD'')"
  using assms
  by (auto simp: seed_admit_def wire_request_def packagePath_eq split: option.splits)

text \<open>A slot that is taken and given back leaves the limiter as it was.\<close>

lemma acquire_release:
  assumes "acquire ip l = Inr l'" "\<And>n. perIP l ip = Some n \<Longrightarrow> n > 0"
  shows "release \<lparr>slot_ip = ip, slot_done = False\<rparr> l' = (\<lparr>slot_ip = ip, slot_done = True\<rparr>, l)"
  using assms
  by (cases l; cases "perIP l ip")
     (auto simp: acquire_def release_def release_once_def perIP_count_def Let_def fun_upd_idem split: if_splits)

lemma release_limits: "the_limiter (snd (seed_release sl s)) = snd (release sl (the_limiter s))"
  by (simp add: seed_release_def the_limiter_def case_prod_beta Let_def limits_def)

lemma ServeHTTP_wire:
  assumes "wire_request r nv"
  shows "ServeHTTP r s =
    (case acquire (remoteIP r) (the_limiter s) of
       Inl refused \<Rightarrow> (peerError r 503 ''seeding capacity reached; try another peer'', None, snd (limits s))
     | Inr l' \<Rightarrow>
         (fst (seed_transfer r nv s), snd (seed_transfer r nv s),
          snd (seed_release \<lparr>slot_ip = remoteIP r, slot_done = False\<rparr> ((snd (limits s))\<lparr>limiter := Some l'\<rparr>))))"
  unfolding ServeHTTP_def seed_admit_wire [OF assms]
  by (auto simp: Let_def case_prod_beta seed_transfer_def Server_open_def split: sum.splits option.splits)

text \<open>
  C33: The status table of the peer wire.  405 for another method, 400 for a path that is not
  \<open>/pkg/<name>\<close> with a valid one-segment name, 503 exactly when a cap refuses, 404 exactly when
  the source does not hold the name, and otherwise 200 with the held bytes and their exact
  length.  The re-announce hook gets the name on 404 and is not called on any other answer.\<close>

theorem seed_status_table:
  assumes "ServeHTTP r s = (resp, hook, s')"
  shows "(if Method r \<noteq> ''GET'' \<and> Method r \<noteq> ''HEAD'' then StatusCode resp = 405 \<and> hook = None
      else if \<nexists>nv. wire_request r nv then StatusCode resp = 400 \<and> hook = None
      else (\<exists>nv. wire_request r nv \<and>
        (case acquire (remoteIP r) (the_limiter s) of
           Inl _ \<Rightarrow> StatusCode resp = 503 \<and> hook = None
         | Inr _ \<Rightarrow>
             (case Server_open s nv of
                None \<Rightarrow> StatusCode resp = 404 \<and> hook = (if OnNotHeld s then Some nv else None)
              | Some (bs, n) \<Rightarrow>
                  StatusCode resp = 200 \<and> hook = None \<and> ContentLength resp = int (length bs) \<and>
                  (Method r = ''GET'' \<longrightarrow> Body resp = Finite bs False)))))"
proof (cases "\<exists>nv. wire_request r nv")
  case True
  then obtain nv where nv: "wire_request r nv" by blast
  then have "Method r = ''GET'' \<or> Method r = ''HEAD''" by (simp add: wire_request_def)
  with assms nv show ?thesis
    unfolding ServeHTTP_wire [OF nv]
    by (auto simp: seed_transfer_def ServeContent_def body_for_def
        intro!: exI [of _ nv] split: sum.splits option.splits)
next
  case False
  with seed_admit_other [of r s] assms show ?thesis
    by (auto simp: ServeHTTP_def)
qed

subsection \<open>Requests in parallel\<close>

text \<open>
  The state of a running seeder: the server and the transfers admitted so far, each with its slot.
  The last component collects the names passed to the re-announce hook.
\<close>

record seed_sys =
  server :: Server
  transfers :: "(slot \<times> request \<times> string) list"
  notices :: "string list"

datatype seed_event = Turned_away request | Admitted request | Finished nat http_resp

inductive seed_step :: "seed_sys \<Rightarrow> seed_event \<Rightarrow> seed_sys \<Rightarrow> bool" where
  seed_turn_away: "seed_admit r (server y) = (Inl resp, s') \<Longrightarrow>
    seed_step y (Turned_away r) (y\<lparr>server := s'\<rparr>)"
| seed_admission: "seed_admit r (server y) = (Inr (sl, nv), s') \<Longrightarrow>
    seed_step y (Admitted r) (y\<lparr>server := s', transfers := transfers y @ [(sl, r, nv)]\<rparr>)"
| seed_finish: "i < length (transfers y) \<Longrightarrow> transfers y ! i = (sl, r, nv) \<Longrightarrow> \<not> slot_done sl \<Longrightarrow>
    seed_transfer r nv (server y) = (resp, hook) \<Longrightarrow> seed_release sl (server y) = (sl', s') \<Longrightarrow>
    seed_step y (Finished i resp)
      (y\<lparr>server := s', transfers := (transfers y)[i := (sl', r, nv)],
         notices := notices y @ (case hook of None \<Rightarrow> [] | Some n \<Rightarrow> [n])\<rparr>)"

inductive_cases seed_stepE: "seed_step y e y'"

text \<open>The transfers that hold an open file: admitted and not finished.\<close>

definition active :: "seed_sys \<Rightarrow> (slot \<times> request \<times> string) list" where
  "active y = filter (\<lambda>(sl, r, nv). \<not> slot_done sl) (transfers y)"

definition seed_start :: "Server \<Rightarrow> seed_sys" where
  "seed_start s = \<lparr>server = s\<lparr>limiter := None\<rparr>, transfers = [], notices = []\<rparr>"

definition seed_inv :: "Server \<Rightarrow> seed_sys \<Rightarrow> bool" where
  "seed_inv s y \<longleftrightarrow>
     limiter_inv (the_limiter (server y), map fst (transfers y)) \<and>
     maxGlobal (the_limiter (server y)) = MaxConcurrentSeeds s \<and>
     maxPerIP (the_limiter (server y)) = MaxConcurrentSeedsPerIP s \<and>
     Source (server y) = Source s \<and> OnNotHeld (server y) = OnNotHeld s \<and>
     (\<forall>(sl, r, nv) \<in> set (transfers y). wire_request r nv \<and> slot_ip sl = remoteIP r) \<and>
     (\<forall>nv \<in> set (notices y). Server_open s nv = None)"

lemma acquire_caps: "acquire ip l = Inr l' \<Longrightarrow> maxGlobal l' = maxGlobal l \<and> maxPerIP l' = maxPerIP l"
  by (auto simp: acquire_def split: if_splits)

lemma release_caps: "release sl l = (sl', l') \<Longrightarrow>
    maxGlobal l' = maxGlobal l \<and> maxPerIP l' = maxPerIP l \<and> slot_ip sl' = slot_ip sl"
  by (auto simp: release_def release_once_def Let_def split: if_splits)

lemma seed_admit_Inr:
  assumes "seed_admit r s = (Inr (sl, nv), s')"
  shows "wire_request r nv \<and> sl = \<lparr>slot_ip = remoteIP r, slot_done = False\<rparr> \<and>
    acquire (remoteIP r) (the_limiter s) = Inr (the_limiter s') \<and>
    Source s' = Source s \<and> OnNotHeld s' = OnNotHeld s"
proof (cases "\<exists>nv. wire_request r nv")
  case True
  then obtain nv' where nv': "wire_request r nv'" by blast
  from seed_admit_wire [OF nv', of s] assms nv' show ?thesis by (auto split: sum.splits)
next
  case False
  with seed_admit_other [of r s] assms show ?thesis by auto
qed

lemma seed_admit_Inl:
  assumes "seed_admit r s = (Inl resp, s')"
  shows "the_limiter s' = the_limiter s \<and> Source s' = Source s \<and> OnNotHeld s' = OnNotHeld s"
proof (cases "\<exists>nv. wire_request r nv")
  case True
  then obtain nv' where "wire_request r nv'" by blast
  from seed_admit_wire [OF this, of s] assms show ?thesis by (auto split: sum.splits)
next
  case False
  with seed_admit_other [of r s] assms show ?thesis by auto
qed

lemma seed_release_simps:
  assumes "seed_release sl s = (sl', s')"
  shows "release sl (the_limiter s) = (sl', the_limiter s') \<and> Source s' = Source s \<and> OnNotHeld s' = OnNotHeld s"
proof -
  obtain sl1 l1 where "release sl (the_limiter s) = (sl1, l1)" by fastforce
  with assms show ?thesis
    by (auto simp: seed_release_def case_prod_beta Let_def the_limiter_def [symmetric])
qed

lemma seed_step_inv: "seed_step y e y' \<Longrightarrow> seed_inv s y \<Longrightarrow> seed_inv s y'"
proof (induction rule: seed_step.induct)
  case (seed_turn_away r y resp s')
  with seed_admit_Inl [OF seed_turn_away(1)] show ?case by (simp add: seed_inv_def)
next
  case (seed_admission r y sl nv s')
  from seed_admit_Inr [OF seed_admission(1)] have a: "wire_request r nv"
    "sl = \<lparr>slot_ip = remoteIP r, slot_done = False\<rparr>"
    "acquire (remoteIP r) (the_limiter (server y)) = Inr (the_limiter s')"
    "Source s' = Source (server y)" "OnNotHeld s' = OnNotHeld (server y)" by auto
  with seed_admission(2) acquire_caps [OF a(3)] acquire_inv [OF _ a(3), of "map fst (transfers y)"]
  show ?case by (simp add: seed_inv_def)
next
  case (seed_finish i y sl r nv resp hook sl' s')
  from seed_release_simps [OF seed_finish(5)]
  have b: "release sl (the_limiter (server y)) = (sl', the_limiter s')"
    "Source s' = Source (server y)" "OnNotHeld s' = OnNotHeld (server y)" by auto
  have "limiter_inv (the_limiter s', (map fst (transfers y))[i := sl'])"
    using seed_finish b(1) by (intro release_inv) (auto simp: seed_inv_def)
  moreover have "Server_open s n = None" if "hook = Some n" for n
    using seed_finish(4,6) that
    by (auto simp: seed_transfer_def Server_open_def seed_inv_def split: option.splits if_splits)
  then have "\<forall>n \<in> set (notices y @ (case hook of None \<Rightarrow> [] | Some n \<Rightarrow> [n])). Server_open s n = None"
    using seed_finish(6) by (auto simp: seed_inv_def split: option.splits)
  moreover have "wire_request r nv \<and> slot_ip sl' = remoteIP r"
    using seed_finish(2,6) nth_mem [OF seed_finish(1)] release_caps [OF b(1)] by (fastforce simp: seed_inv_def)
  then have "\<forall>(sl, r, nv) \<in> set ((transfers y)[i := (sl', r, nv)]). wire_request r nv \<and> slot_ip sl = remoteIP r"
    using seed_finish(6) set_update_subset_insert [of "transfers y" i "(sl', r, nv)"]
    by (fastforce simp: seed_inv_def)
  ultimately show ?case
    using seed_finish(6) b release_caps [OF b(1)]
    by (simp add: seed_inv_def map_update)
qed

lemma seed_start_inv: "seed_inv s (seed_start s)"
  using newSeedLimiter_inv by (simp add: seed_inv_def seed_start_def the_limiter_def limits_def Let_def newSeedLimiter_def)

lemma seed_run_inv: "run seed_step (seed_start s) es y \<Longrightarrow> seed_inv s y"
  by (erule run_invariant) (auto intro: seed_start_inv seed_step_inv)


text \<open>
  However requests interleave, the transfers in progress (the files the seeder has open) never
  exceed a positive global cap, those of one remote IP never exceed a positive per-IP cap, each of
  them is a well-formed request, and every re-announce is for a name the source does not hold.\<close>

theorem seed_server_respects_caps:
  assumes "run seed_step (seed_start s) es y"
  shows "(MaxConcurrentSeeds s > 0 \<longrightarrow> int (length (active y)) \<le> MaxConcurrentSeeds s) \<and>
    (MaxConcurrentSeedsPerIP s > 0 \<longrightarrow>
       int (length (filter (\<lambda>(sl, r, nv). remoteIP r = ip) (active y))) \<le> MaxConcurrentSeedsPerIP s) \<and>
    (\<forall>(sl, r, nv) \<in> set (active y). wire_request r nv) \<and>
    (\<forall>nv \<in> set (notices y). Server_open s nv = None)"
proof -
  let ?ss = "map fst (transfers y)"
  note inv = seed_run_inv [OF assms, unfolded seed_inv_def]
  then have ips: "\<forall>(sl, r, nv) \<in> set (transfers y). slot_ip sl = remoteIP r" by auto
  have n: "length (active y) = in_use ?ss"
    by (auto simp: active_def in_use_def filter_map o_def intro!: arg_cong [where f = length] filter_cong)
  have "length (filter (\<lambda>(sl, r, nv). remoteIP r = ip) (active y)) =
      length (filter (\<lambda>x. \<not> slot_done (fst x) \<and> slot_ip (fst x) = ip) (transfers y))"
    unfolding active_def filter_filter using ips
    by (intro arg_cong [where f = length] filter_cong) auto
  then have m: "length (filter (\<lambda>(sl, r, nv). remoteIP r = ip) (active y)) = in_use_by ip ?ss"
    by (simp add: in_use_by_def filter_map o_def)
  have "(MaxConcurrentSeeds s > 0 \<longrightarrow> int (length (active y)) \<le> MaxConcurrentSeeds s)"
    "(MaxConcurrentSeedsPerIP s > 0 \<longrightarrow> int (in_use_by ip ?ss) \<le> MaxConcurrentSeedsPerIP s)"
    using inv n by (auto simp: limiter_inv_def)
  then show ?thesis unfolding m using inv by (auto simp: active_def)
qed

subsection \<open>The contract of a package source\<close>

text \<open>
  What the seeder relies on: a source hands out what it holds, with the exact length, and hands
  out something whenever it holds the name.
\<close>

locale package_contract =
  fixes src_open :: package_source
    and held :: "string \<Rightarrow> byte list \<Rightarrow> bool"
  assumes open_held: "src_open nv = Some (bs, n) \<Longrightarrow> held nv bs \<and> n = int (length bs)"
    and held_open: "held nv bs \<Longrightarrow> src_open nv = Some (bs, int (length bs))"
begin

lemma served_is_held:
  assumes "Source s = Some src_open" "ServeHTTP r s = (resp, hook, s')" "StatusCode resp = 200"
    "Method r = ''GET''"
  shows "\<exists>nv bs. wire_request r nv \<and> held nv bs \<and> Body resp = Finite bs False \<and>
    ContentLength resp = int (length bs)"
proof (cases "\<exists>nv. wire_request r nv")
  case True
  then obtain nv where nv: "wire_request r nv" by blast
  show ?thesis
    using assms ServeHTTP_wire [OF nv, of s] nv open_held
    by (auto simp: seed_transfer_def Server_open_def ServeContent_def body_for_def
        split: sum.splits option.splits)
next
  case False
  with seed_admit_other [of r s] assms show ?thesis by (auto simp: ServeHTTP_def)
qed

lemma held_is_served:
  assumes "Source s = Some src_open" "held nv bs" "wire_request r nv" "Method r = ''GET''"
    "acquire (remoteIP r) (the_limiter s) = Inr l'"
  shows "fst (ServeHTTP r s) = ServeContent r bs"
  using assms held_open [of nv bs]
  by (simp add: ServeHTTP_wire seed_transfer_def Server_open_def)

lemma hook_means_not_held:
  assumes "Source s = Some src_open" "ServeHTTP r s = (resp, Some nv, s')"
  shows "\<not> held nv bs"
proof (cases "\<exists>nv. wire_request r nv")
  case True
  then obtain nv' where nv': "wire_request r nv'" by blast
  show ?thesis
    using assms ServeHTTP_wire [OF nv', of s] held_open [of nv bs]
    by (auto simp: seed_transfer_def Server_open_def split: sum.splits option.splits if_splits)
next
  case False
  with seed_admit_other [of r s] assms show ?thesis by (auto simp: ServeHTTP_def)
qed

end

text \<open>pkg's cache provides it: what it holds under a name is the regular file the name leads to.\<close>

definition cache_holds :: "node \<Rightarrow> CacheSource \<Rightarrow> string \<Rightarrow> byte list \<Rightarrow> bool" where
  "cache_holds root c nv bs \<longleftrightarrow>
     safe_name nv \<and> os_Stat root (Join2 (cs_dir c) (nv @ packageFileExtension)) = Some (Regular bs)"

interpretation cache: package_contract "CacheSource_Open root c" "cache_holds root c" for root c
  by unfold_locales
     (auto simp: CacheSource_Open_def cacheFileName_eq cache_holds_def split: option.splits node.splits if_splits)

text \<open>
  What the seeder sends is what the cache holds.  A 200 answer to a GET is for a well-formed
  name, and its body and declared length are those of the regular file that name selects in the
  cache; a name handed to the re-announce hook is not held.\<close>

theorem seed_serves_the_cache:
  assumes "Source s = Some (CacheSource_Open root c)" "ServeHTTP r s = (resp, hook, s')" "Method r = ''GET''"
  shows "(StatusCode resp = 200 \<longrightarrow>
      (\<exists>nv bs. wire_request r nv \<and> cache_holds root c nv bs \<and> Body resp = Finite bs False \<and>
         ContentLength resp = int (length bs))) \<and>
    (\<forall>nv bs. hook = Some nv \<longrightarrow> \<not> cache_holds root c nv bs)"
  using cache.served_is_held [OF assms(1,2) _ assms(3)] cache.hook_means_not_held [OF assms(1)] assms(2)
  by blast

subsection \<open>From seeder to requester\<close>

text \<open>The reply a requester gets from a seeder: one GET, answered by \<open>ServeHTTP\<close>.\<close>

definition seeder_reply :: "Server \<Rightarrow> string \<Rightarrow> string \<Rightarrow> peer_reply" where
  "seeder_reply s remote p =
     Reply (fst (ServeHTTP \<lparr>Method = ''GET'', URL_Path = p, RemoteAddr = remote\<rparr> s))"

lemma seeder_offer:
  assumes "Source s = Some (CacheSource_Open root c)" "cache_holds root c nv bs" "validName nv"
    "acquire (remoteIP \<lparr>Method = ''GET'', URL_Path = ''/pkg/'' @ nv, RemoteAddr = remote\<rparr>) (the_limiter s) = Inr l'"
    "reply e a (''/pkg/'' @ nv) = seeder_reply s remote (''/pkg/'' @ nv)" "int (length bs) = Size want"
  shows "offer e a nv want = Some (Finite bs False)"
proof -
  let ?r = "\<lparr>Method = ''GET'', URL_Path = ''/pkg/'' @ nv, RemoteAddr = remote\<rparr>"
  have "wire_request ?r nv"
    using assms(2,3) by (simp add: wire_request_def cache_holds_def safe_name_def)
  from cache.held_is_served [OF assms(1,2) this _ assms(4)] show ?thesis
    using assms(5,6)
    by (simp add: offer_def seeder_reply_def packagePathPrefix_def ServeContent_def body_for_def)
qed

text \<open>
  A package that sits in a seeder's cache and matches the requester's repository database
  arrives.  If one address of the list is a seeder with a free slot whose cache holds the file,
  and the requester has not blacklisted it, the requester's loop ends with a verified file; if it
  is the only address, that file has exactly the bytes of the seeder's cache.\<close>

theorem seeded_package_arrives:
  assumes "Source s = Some (CacheSource_Open root c)" "cache_holds root c nv bs" "validName nv"
    and "acquire (remoteIP \<lparr>Method = ''GET'', URL_Path = ''/pkg/'' @ nv, RemoteAddr = remote\<rparr>) (the_limiter s)
           = Inr l'"
    and "\<And>j. reply (env j) a (''/pkg/'' @ nv) = seeder_reply s remote (''/pkg/'' @ nv)"
    and "int (length bs) = Size want" "sha256_hex bs = Hash want" "Size want < 2 ^ 63 - 1"
    and "a \<in> set addrs" "\<not> Blocked bl a" "\<And>j. local_ok (env j) dir fs"
  shows "\<exists>f bl' is fs'. FetchFirst env addrs nv want dir bl fs = (Inr f, bl', is, fs') \<and>
    (addrs = [a] \<longrightarrow> fs' = fs(f \<mapsto> bs))"
proof -
  have o: "offer (env j) a nv want = Some (Finite bs False)" for j
    using assms(1-4) assms(5) [of j] assms(6) by (rule seeder_offer)
  then have h: "honest (env j) a nv want" for j using assms(6,7) by (simp add: honest_def)
  obtain r bl' "is" fs' where run: "FetchFirst env addrs nv want dir bl fs = (r, bl', is, fs')"
    by (metis prod_cases4)
  obtain f where f: "r = Inr f"
    using fetch_loop_honest [of a addrs bl nv want env dir fs 0] assms h run
    by (auto simp: FetchFirst_def Blocked_iff)
  have "fs' = fs(f \<mapsto> bs)" if "addrs = [a]"
  proof (rule FetchFromPeer_cases [of "env 0" a nv want dir fs])
    fix tmp body bs'
    assume acc: "FetchFromPeer (env 0) a nv want dir fs = (Inr tmp, fs(tmp \<mapsto> bs'))"
      "offer (env 0) a nv want = Some body" "spool_body (env 0) want body = (None, bs')"
    have "wrap64 (Size want + 1) = Size want + 1" using assms(6,8) by (intro wrap64_id) linarith+
    then have "bs' = bs"
      using acc o [of 0] assms(6) assms(11) [of 0]
      by (auto simp: spool_body_def limit_copy_Finite spool_copy_def local_ok_def split: if_splits)
    then show ?thesis using acc run f that assms(10) by (auto simp: FetchFirst_def split: if_splits)
  qed (use run f that assms(10) in \<open>auto simp: FetchFirst_def Let_def split: if_splits\<close>)
  with run f show ?thesis by blast
qed

subsection \<open>Serve and Close\<close>

text \<open>
  The two methods run on different goroutines.  Each is split at its lock: the critical section,
  then the call into \<open>http.Server\<close>.  \<open>srv_http\<close> is nil, or whether the \<open>http.Server\<close> is shut down;
  an \<open>http.Server\<close> that is shut down refuses a listener and closes it.
\<close>

datatype serve_pc = AtLock | AtServe | Serving | Returned

record life =
  srv_closed :: bool
  srv_http :: "bool option"
  pc :: "nat \<Rightarrow> serve_pc"         \<comment> \<open>one call of \<open>Serve\<close> per listener\<close>
  open_listeners :: "nat set"
  closing :: nat                 \<comment> \<open>calls of \<open>Close\<close> between the lock and \<open>srv.Close\<close>\<close>
  close_returned :: bool         \<comment> \<open>some call of \<open>Close\<close> has returned\<close>

definition Serve_locked :: "nat \<Rightarrow> life \<Rightarrow> life" where
  "Serve_locked ln y =
     (if srv_closed y
      then y\<lparr>pc := (pc y)(ln := Returned), open_listeners := open_listeners y - {ln}\<rparr>
      else y\<lparr>srv_http := (case srv_http y of None \<Rightarrow> Some False | Some b \<Rightarrow> Some b),
             pc := (pc y)(ln := AtServe)\<rparr>)"

definition http_Serve :: "nat \<Rightarrow> life \<Rightarrow> life" where
  "http_Serve ln y =
     (if srv_http y = Some True
      then y\<lparr>pc := (pc y)(ln := Returned), open_listeners := open_listeners y - {ln}\<rparr>
      else y\<lparr>pc := (pc y)(ln := Serving)\<rparr>)"

definition Close_locked :: "life \<Rightarrow> life" where
  "Close_locked y =
     (case srv_http y of
        None \<Rightarrow> y\<lparr>srv_closed := True, close_returned := True\<rparr>
      | Some _ \<Rightarrow> y\<lparr>srv_closed := True, closing := Suc (closing y)\<rparr>)"

definition http_Close :: "life \<Rightarrow> life" where
  "http_Close y =
     y\<lparr>srv_http := Some True,
       open_listeners := open_listeners y - {ln. pc y ln = Serving},
       pc := (\<lambda>ln. if pc y ln = Serving then Returned else pc y ln),
       closing := closing y - 1, close_returned := True\<rparr>"

inductive life_step :: "life \<Rightarrow> unit \<Rightarrow> life \<Rightarrow> bool" where
  "pc y ln = AtLock \<Longrightarrow> life_step y () (Serve_locked ln y)"
| "pc y ln = AtServe \<Longrightarrow> life_step y () (http_Serve ln y)"
| "life_step y () (Close_locked y)"
| "closing y > 0 \<Longrightarrow> life_step y () (http_Close y)"

definition life_start :: "nat set \<Rightarrow> life" where
  "life_start lns = \<lparr>srv_closed = False, srv_http = None, pc = (\<lambda>_. AtLock), open_listeners = lns,
     closing = 0, close_returned = False\<rparr>"

definition life_inv :: "life \<Rightarrow> bool" where
  "life_inv y \<longleftrightarrow>
     (closing y > 0 \<longrightarrow> srv_closed y \<and> srv_http y \<noteq> None) \<and>
     (close_returned y \<longrightarrow> srv_closed y \<and> srv_http y \<noteq> Some False) \<and>
     (\<forall>ln. pc y ln \<in> {AtServe, Serving} \<longrightarrow> srv_http y \<noteq> None) \<and>
     (\<forall>ln \<in> open_listeners y. pc y ln \<noteq> Returned) \<and>
     (srv_http y = Some True \<longrightarrow> (\<forall>ln. pc y ln \<noteq> Serving))"

lemma life_step_inv: "life_step y e y' \<Longrightarrow> life_inv y \<Longrightarrow> life_inv y'"
  by (induction rule: life_step.induct)
     (auto simp: life_inv_def Serve_locked_def http_Serve_def Close_locked_def http_Close_def
        split: option.splits if_splits)

lemma life_start_inv: "life_inv (life_start lns)"
  by (simp add: life_start_def life_inv_def)

lemma life_run_inv: "run life_step (life_start lns) es y \<Longrightarrow> life_inv y"
  by (erule run_invariant) (auto intro: life_start_inv life_step_inv)

text \<open>
  C36: Close wins.  In every interleaving of any number of Serve and Close calls, once some Close
  has returned no listener is being served; a listener that is still open belongs to a Serve call
  that has not reached its own next step, and that step closes it.\<close>

theorem close_wins_over_serve:
  assumes "run life_step (life_start lns) es y" "close_returned y"
  shows "(\<forall>ln. pc y ln \<noteq> Serving) \<and>
    (\<forall>ln \<in> open_listeners y.
       (pc y ln = AtLock \<and> ln \<notin> open_listeners (Serve_locked ln y) \<and> pc (Serve_locked ln y) ln = Returned) \<or>
       (pc y ln = AtServe \<and> ln \<notin> open_listeners (http_Serve ln y) \<and> pc (http_Serve ln y) ln = Returned))"
proof -
  note inv = life_run_inv [OF assms(1), unfolded life_inv_def]
  then have c: "srv_closed y" "srv_http y \<noteq> Some False" using assms(2) by auto
  have s: "pc y ln \<noteq> Serving" for ln using inv c by (cases "srv_http y") auto
  moreover have "pc y ln = AtLock \<or> pc y ln = AtServe \<and> srv_http y = Some True" if "ln \<in> open_listeners y" for ln
    using inv that s [of ln] c by (cases "pc y ln"; cases "srv_http y") auto
  ultimately show ?thesis using c by (auto simp: Serve_locked_def http_Serve_def)
qed

theorem close_wins_over_serve_witness:
  "\<exists>es y. run life_step (life_start {0}) es y \<and> close_returned y \<and> 0 \<in> open_listeners y \<and>
     (\<forall>ln. pc y ln \<noteq> Serving)"
proof -
  let ?y = "http_Close (Close_locked (Serve_locked 0 (life_start {0})))"
  note defs = life_start_def Serve_locked_def Close_locked_def http_Close_def
  have "life_step (life_start {0}) () (Serve_locked 0 (life_start {0}))"
    by (rule life_step.intros) (simp add: defs)
  moreover have "life_step (Close_locked (Serve_locked 0 (life_start {0}))) () ?y"
    by (rule life_step.intros) (simp add: defs)
  ultimately have r: "run life_step (life_start {0}) [(), (), ()] ?y"
    by (blast intro: run.intros life_step.intros(3))
  have o: "close_returned ?y" "0 \<in> open_listeners ?y" by (simp_all add: defs)
  from close_wins_over_serve [OF r o(1)] have "\<forall>ln. pc ?y ln \<noteq> Serving" by (rule conjunct1)
  with r o show ?thesis by (intro exI [of _ "[(), (), ()]"] exI [of _ ?y]) simp
qed

subsection \<open>Witnesses\<close>

definition demo_server :: Server where
  "demo_server = \<lparr>Source = Some (CacheSource_Open demo_root (NewCacheSource ''/cache'')),
     MaxConcurrentSeeds = 1, MaxConcurrentSeedsPerIP = 0, OnNotHeld = True, limiter = None\<rparr>"

definition demo_get :: "string \<Rightarrow> request" where
  "demo_get nv = \<lparr>Method = ''GET'', URL_Path = ''/pkg/'' @ nv, RemoteAddr = ''10.0.0.9:5''\<rparr>"

lemma demo_wire: "wire_request (demo_get ''zip-3'') ''zip-3''" "wire_request (demo_get ''bash-5'') ''bash-5''"
  by (simp_all add: wire_request_def demo_get_def validName_def control_char_def)

lemma demo_holds: "cache_holds demo_root (NewCacheSource ''/cache'') ''zip-3'' [1, 2, 3]"
proof -
  have c: "cs_dir (NewCacheSource ''/cache'') = ''/cache''" by (simp add: NewCacheSource_def)
  have "safe_name ''zip-3''" "HasPrefix ''/cache'' ''/''" by (simp_all add: safe_name_def HasPrefix_def)
  moreover have "rooted_segs ''/cache'' = [''cache'']" by (simp add: rooted_segs_def)
  ultimately show ?thesis
    using cache_entry [OF _ demo_cache_dir, of "''zip-3''"] resolve_entry [OF demo_cache_dir, of "''zip-3.pkg''" 31] demo_link
    by (simp add: cache_holds_def c packageFileExtension_def maxSymlinks_def plain_seg_def demo_cache_entries_def
        HasPrefix_def eval_nat_numeral)
qed


lemma demo_acquire: "acquire ip (the_limiter demo_server) =
    Inr \<lparr>maxGlobal = 1, maxPerIP = 0, global = 1, perIP = [ip \<mapsto> 1]\<rparr>"
  by (simp add: the_limiter_def limits_def demo_server_def newSeedLimiter_def acquire_def perIP_count_def Let_def)

lemma demo_source: "Source demo_server = Some (CacheSource_Open demo_root (NewCacheSource ''/cache''))"
  by (simp add: demo_server_def)

lemma demo_serve: "fst (ServeHTTP (demo_get ''zip-3'') demo_server) = ServeContent (demo_get ''zip-3'') [1, 2, 3]"
  using cache.held_is_served [OF demo_source demo_holds demo_wire(1)] demo_acquire
  by (simp add: demo_get_def)

theorem seed_status_table_witness:
  "StatusCode (fst (ServeHTTP (demo_get ''bash-5'' \<lparr>Method := ''POST''\<rparr>) demo_server)) = 405 \<and>
   fst (snd (ServeHTTP (demo_get ''bash-5'' \<lparr>Method := ''POST''\<rparr>) demo_server)) = None"
  using seed_status_table [of "demo_get ''bash-5'' \<lparr>Method := ''POST''\<rparr>" demo_server] by (simp add: prod_eq_iff)

theorem seed_server_respects_caps_witness:
  "\<exists>y. run seed_step (seed_start demo_server) [Admitted (demo_get ''zip-3'')] y \<and> length (active y) = 1 \<and>
     int (length (active y)) \<le> MaxConcurrentSeeds demo_server"
proof -
  let ?s = "server (seed_start demo_server)"
  have "acquire ip (the_limiter ?s) = acquire ip (the_limiter demo_server)" for ip
    by (simp add: seed_start_def demo_server_def)
  with seed_admit_wire [OF demo_wire(1), of ?s] demo_acquire obtain s' where
    adm: "seed_admit (demo_get ''zip-3'') ?s =
      (Inr (\<lparr>slot_ip = remoteIP (demo_get ''zip-3''), slot_done = False\<rparr>, ''zip-3''), s')" by auto
  from seed_admission [OF this] obtain y where
    y: "run seed_step (seed_start demo_server) [Admitted (demo_get ''zip-3'')] y" "length (active y) = 1"
    by (fastforce simp: run_Cons_iff active_def seed_start_def)
  have "MaxConcurrentSeeds demo_server > 0" by (simp add: demo_server_def)
  then have "int (length (active y)) \<le> MaxConcurrentSeeds demo_server"
    using seed_server_respects_caps [OF y(1), THEN conjunct1] by simp
  with y show ?thesis by (intro exI [of _ y] conjI)
qed

theorem seed_serves_the_cache_witness:
  "\<exists>nv bs. wire_request (demo_get ''zip-3'') nv \<and> cache_holds demo_root (NewCacheSource ''/cache'') nv bs \<and>
     Body (ServeContent (demo_get ''zip-3'') [1, 2, 3]) = Finite bs False"
proof -
  obtain hook s' where "ServeHTTP (demo_get ''zip-3'') demo_server = (ServeContent (demo_get ''zip-3'') [1, 2, 3], hook, s')"
    using demo_serve by (metis prod.collapse)
  from seed_serves_the_cache [OF demo_source this] show ?thesis
    by (auto simp: demo_get_def ServeContent_def)
qed

definition demo_peer_env :: fetch_env where
  "demo_peer_env = (demo_fetch_env None)\<lparr>reply := \<lambda>a p. seeder_reply demo_server ''10.0.0.9:5'' p\<rparr>"

theorem seeded_package_arrives_witness:
  "\<exists>f bl' is fs'. FetchFirst (\<lambda>_. demo_peer_env) [''s''] ''zip-3'' demo_want ''/t'' None Map.empty
     = (Inr f, bl', is, fs') \<and> fs' = [f \<mapsto> [1, 2, 3]]"
proof -
  have "local_ok demo_peer_env ''/t'' Map.empty"
    by (simp add: local_ok_def demo_peer_env_def demo_fetch_env_def) (rule exI [of _ 0], simp)
  then have "\<exists>f bl' is fs'. FetchFirst (\<lambda>_. demo_peer_env) [''s''] ''zip-3'' demo_want ''/t'' None Map.empty
     = (Inr f, bl', is, fs') \<and> ([''s''] = [''s''] \<longrightarrow> fs' = [f \<mapsto> [1, 2, 3]])"
    by (intro seeded_package_arrives [OF demo_source demo_holds demo_validName demo_acquire])
       (simp_all add: demo_peer_env_def demo_want_def demo_body_def Blocked_def)
  then show ?thesis by simp
qed

end
