(* ===== verification/Go_Unicode.thy ===== *)
theory Go_Unicode
  imports Go_Path
begin

text \<open>
  Runes: \<open>decode_rune\<close> is the first rune of a non-empty string as the conversion \<open>[]rune(s)\<close> yields
  it, U+FFFD for a byte that does not start a well-formed UTF-8 sequence, and \<open>IsDigit\<close> is
  \<open>unicode.IsDigit\<close>, the category Nd of Unicode 15.
\<close>

definition byte_at :: "string \<Rightarrow> nat \<Rightarrow> nat" where
  "byte_at s i = (if i < length s then of_char (s ! i) else 0)"

definition cont :: "nat \<Rightarrow> bool" where
  "cont b \<longleftrightarrow> 0x80 \<le> b \<and> b \<le> 0xBF"

definition rune_error :: nat where "rune_error = 0xFFFD"

definition decode_rune :: "string \<Rightarrow> nat" where
  "decode_rune s =
     (let b0 = byte_at s 0; b1 = byte_at s 1; b2 = byte_at s 2; b3 = byte_at s 3
      in if b0 < 0x80 then b0
         else if 0xC2 \<le> b0 \<and> b0 \<le> 0xDF then
           (if cont b1 then (b0 - 0xC0) * 0x40 + (b1 - 0x80) else rune_error)
         else if 0xE0 \<le> b0 \<and> b0 \<le> 0xEF then
           (if (if b0 = 0xE0 then 0xA0 \<le> b1 \<and> b1 \<le> 0xBF
                else if b0 = 0xED then 0x80 \<le> b1 \<and> b1 \<le> 0x9F else cont b1) \<and> cont b2
            then (b0 - 0xE0) * 0x1000 + (b1 - 0x80) * 0x40 + (b2 - 0x80) else rune_error)
         else if 0xF0 \<le> b0 \<and> b0 \<le> 0xF4 then
           (if (if b0 = 0xF0 then 0x90 \<le> b1 \<and> b1 \<le> 0xBF
                else if b0 = 0xF4 then 0x80 \<le> b1 \<and> b1 \<le> 0x8F else cont b1) \<and> cont b2 \<and> cont b3
            then (b0 - 0xF0) * 0x40000 + (b1 - 0x80) * 0x1000 + (b2 - 0x80) * 0x40 + (b3 - 0x80)
            else rune_error)
         else rune_error)"

definition digit_ranges :: "(nat \<times> nat) list" where
  "digit_ranges =
   [(0x30, 0x39), (0x660, 0x669), (0x6F0, 0x6F9), (0x7C0, 0x7C9), (0x966, 0x96F), (0x9E6, 0x9EF),
    (0xA66, 0xA6F), (0xAE6, 0xAEF), (0xB66, 0xB6F), (0xBE6, 0xBEF), (0xC66, 0xC6F), (0xCE6, 0xCEF),
    (0xD66, 0xD6F), (0xDE6, 0xDEF), (0xE50, 0xE59), (0xED0, 0xED9), (0xF20, 0xF29),
    (0x1040, 0x1049), (0x1090, 0x1099), (0x17E0, 0x17E9), (0x1810, 0x1819), (0x1946, 0x194F),
    (0x19D0, 0x19D9), (0x1A80, 0x1A89), (0x1A90, 0x1A99), (0x1B50, 0x1B59), (0x1BB0, 0x1BB9),
    (0x1C40, 0x1C49), (0x1C50, 0x1C59), (0xA620, 0xA629), (0xA8D0, 0xA8D9), (0xA900, 0xA909),
    (0xA9D0, 0xA9D9), (0xA9F0, 0xA9F9), (0xAA50, 0xAA59), (0xABF0, 0xABF9), (0xFF10, 0xFF19),
    (0x104A0, 0x104A9), (0x10D30, 0x10D39), (0x11066, 0x1106F), (0x110F0, 0x110F9),
    (0x11136, 0x1113F), (0x111D0, 0x111D9), (0x112F0, 0x112F9), (0x11450, 0x11459),
    (0x114D0, 0x114D9), (0x11650, 0x11659), (0x116C0, 0x116C9), (0x11730, 0x11739),
    (0x118E0, 0x118E9), (0x11950, 0x11959), (0x11C50, 0x11C59), (0x11D50, 0x11D59),
    (0x11DA0, 0x11DA9), (0x11F50, 0x11F59), (0x16A60, 0x16A69), (0x16AC0, 0x16AC9),
    (0x16B50, 0x16B59), (0x1D7CE, 0x1D7FF), (0x1E140, 0x1E149), (0x1E2F0, 0x1E2F9),
    (0x1E4F0, 0x1E4F9), (0x1E950, 0x1E959), (0x1FBF0, 0x1FBF9)]"

definition IsDigit :: "nat \<Rightarrow> bool" where
  "IsDigit r \<longleftrightarrow> list_ex (\<lambda>(lo, hi). lo \<le> r \<and> r \<le> hi) digit_ranges"

lemma decode_rune_ascii: "s \<noteq> [] \<Longrightarrow> (of_char (hd s) :: nat) < 128 \<Longrightarrow> decode_rune s = of_char (hd s)"
  by (simp add: decode_rune_def byte_at_def hd_conv_nth)

lemma IsDigit_ascii: "r < 128 \<Longrightarrow> IsDigit r \<longleftrightarrow> 48 \<le> r \<and> r \<le> 57"
  by (simp add: IsDigit_def digit_ranges_def)

end
