(* ===== verification/Watcher.thy ===== *)
theory Watcher
  imports Go_Unicode Go_OS Go_Crypto Cache_Source
begin

text \<open>
  The cache watcher (\<open>src/internal/daemon/watcher.go\<close>): what the daemon announces.  It walks the
  cache directory, takes a package name and version from every file name, and keeps the files the
  repository database knows with exactly their size.

  The walk is over the file tree of \<open>Go_OS\<close>; a listing that fails or a file that vanishes ends it
  with an error.  The map of the packages found is ranged over in an order that is an argument.
  The lemmas describe the package list a scan emits, show that the checksum suffix of a file name
  never reaches the identifier, that a link contributes nothing of its own, and that a stopped
  watcher holds nothing.
\<close>

subsection \<open>Names\<close>

record PackageInfo =
  Name :: string
  Version :: string
  Path :: string
  FileSizeBytes :: int

definition NameVersion :: "PackageInfo \<Rightarrow> string" where
  "NameVersion p = (if Version p = '''' then Name p else Name p @ ''-'' @ Version p)"

text \<open>The regular expression \<open>~[0-9a-f]{10}$\<close> and the replacement of its match by nothing.\<close>

definition cksumSuffix :: "string \<Rightarrow> bool" where
  "cksumSuffix s \<longleftrightarrow>
     length s \<ge> 11 \<and> s ! (length s - 11) = CHR ''~'' \<and> list_all lower_hex (drop (length s - 10) s)"

definition strip_cksum :: "string \<Rightarrow> string" where
  "strip_cksum s = (if cksumSuffix s then take (length s - 11) s else s)"

definition startsWithDigit :: "string \<Rightarrow> bool" where
  "startsWithDigit s \<longleftrightarrow> s \<noteq> '''' \<and> IsDigit (decode_rune s)"

definition parsePackageName :: "string \<Rightarrow> string \<times> string" where
  "parsePackageName filename =
     (let base = strip_cksum (TrimSuffix filename packageFileExtension)
      in case LastIndex base (CHR ''-'') of
           None \<Rightarrow> (base, '''')
         | Some i \<Rightarrow>
             let candidateName = take i base; candidateVersion = drop (Suc i) base
             in if candidateVersion = '''' \<or> \<not> startsWithDigit candidateVersion then (base, '''')
                else (candidateName, candidateVersion))"

definition isValidNameVersionFormat :: "PackageInfo \<Rightarrow> bool" where
  "isValidNameVersionFormat pkg \<longleftrightarrow> Name pkg \<noteq> '''' \<and> Version pkg \<noteq> ''''"

text \<open>A repository database as the watcher sees it: expected sizes and nothing else.\<close>

type_synonym size_db = "string \<Rightarrow> int option"

definition sane :: "size_db option \<Rightarrow> PackageInfo \<Rightarrow> bool" where
  "sane repoDB candidate \<longleftrightarrow>
     isValidNameVersionFormat candidate \<and>
     (case repoDB of
        None \<Rightarrow> True
      | Some db \<Rightarrow>
          (case db (NameVersion candidate) of
             None \<Rightarrow> False
           | Some expected \<Rightarrow> FileSizeBytes candidate = expected))"

definition SanityFilter :: "PackageInfo list \<Rightarrow> size_db option \<Rightarrow> PackageInfo list" where
  "SanityFilter candidates repoDB = filter (sane repoDB) candidates"

subsection \<open>Scanning\<close>

datatype ChangeType = Added | Removed | Modified

definition ChangeType_String :: "ChangeType \<Rightarrow> string" where
  "ChangeType_String c =
     (case c of Added \<Rightarrow> ''added'' | Removed \<Rightarrow> ''removed'' | Modified \<Rightarrow> ''modified'')"

record ChangeEvent =
  ev_Type :: ChangeType
  ev_Package :: PackageInfo

record Watcher =
  cacheDir :: string
  repoDB :: "size_db option"
  pkgs :: "string \<rightharpoonup> PackageInfo"

definition Watcher_New :: "string \<Rightarrow> size_db option \<Rightarrow> Watcher" where
  "Watcher_New dir db = \<lparr>cacheDir = dir, repoDB = db, pkgs = Map.empty\<rparr>"

text \<open>
  \<open>filepath.Walk\<close> with a callback that returns the error it is given and accepts every directory:
  the non-directories visited, in order, and whether the walk went through.
\<close>

fun walk_node :: "string \<Rightarrow> node \<Rightarrow> (string \<times> node) list \<times> bool"
  and walk_entries :: "string \<Rightarrow> (string \<times> node) list \<Rightarrow> (string \<times> node) list \<times> bool" where
  "walk_node p (Directory listable es) = (if listable then walk_entries p es else ([], False))"
| "walk_node p n = ([(p, n)], True)"
| "walk_entries p [] = ([], True)"
| "walk_entries p ((x, n) # es) =
     (if n = Vanished then ([], False)
      else case walk_node (Join2 p x) n of
        (a, False) \<Rightarrow> (a, False)
      | (a, True) \<Rightarrow> (case walk_entries p es of (b, ok) \<Rightarrow> (a @ b, ok)))"

definition Walk :: "node \<Rightarrow> string \<Rightarrow> (string \<times> node) list \<times> bool" where
  "Walk root p = (case os_Lstat root p of None \<Rightarrow> ([], False) | Some n \<Rightarrow> walk_node p n)"

definition package_info :: "string \<Rightarrow> int \<Rightarrow> PackageInfo" where
  "package_info p sz =
     (let (name, ver) = parsePackageName (Base p)
      in \<lparr>Name = name, Version = ver, Path = p, FileSizeBytes = sz\<rparr>)"

definition is_link :: "node \<Rightarrow> bool" where
  "is_link n = (case n of Symlink _ \<Rightarrow> True | _ \<Rightarrow> False)"

definition scan_file :: "string \<times> node \<Rightarrow> (string \<rightharpoonup> PackageInfo) \<Rightarrow> string \<rightharpoonup> PackageInfo" where
  "scan_file = (\<lambda>(p, n) m. if is_link n then m else m(p \<mapsto> package_info p (node_size n)))"

text \<open>\<open>Scan\<close>; the list it returns is also what it passes to \<open>onUpdate\<close>.\<close>

definition Scan :: "node \<Rightarrow> string list \<Rightarrow> Watcher \<Rightarrow> PackageInfo list option \<times> Watcher" where
  "Scan root order w =
     (let (files, ok) = Walk root (cacheDir w);
          m = fold scan_file files Map.empty;
          w' = w\<lparr>pkgs := m\<rparr>
      in if \<not> ok then (None, w')
         else (Some (SanityFilter (map (\<lambda>p. the (m p)) order) (repoDB w)), w'))"

text \<open>\<open>loop\<close>: the bits of an event are looked at in this order, and other bits are ignored.\<close>

datatype fs_op = Create | Write | Remove_op | Rename | Chmod

definition dispatch :: "fs_op set \<Rightarrow> ChangeType option" where
  "dispatch ops =
     (if Create \<in> ops then Some Added
      else if Write \<in> ops then Some Modified
      else if Remove_op \<in> ops then Some Removed
      else None)"

text \<open>
  \<open>handleEvent\<close>: the notification for \<open>onChange\<close>, and the result of the rescan, when there is one.
\<close>

definition handleEvent ::
  "node \<Rightarrow> string list \<Rightarrow> string \<Rightarrow> ChangeType \<Rightarrow> Watcher
     \<Rightarrow> (ChangeEvent \<times> PackageInfo list option) option \<times> Watcher" where
  "handleEvent root order p changeType w =
     (let continue = (\<lambda>sz.
            let (out, w') = Scan root order w
            in (Some (\<lparr>ev_Type = changeType, ev_Package = package_info p sz\<rparr>, out), w'))
      in if changeType \<noteq> Removed then
           (case os_Lstat root p of
              None \<Rightarrow> (None, w)
            | Some n \<Rightarrow> if is_link n then (None, w) else continue (node_size n))
         else continue 0)"

datatype start_error = ErrStat | ErrNotDir | ErrFsnotify | ErrWalk

text \<open>\<open>Start\<close>, with \<open>fsnotify\<close> as a parameter: whether a watcher can be created and which directories it accepts.\<close>

fun walk_dirs :: "(string \<Rightarrow> bool) \<Rightarrow> string \<Rightarrow> node \<Rightarrow> string list option"
  and walk_dirs_entries :: "(string \<Rightarrow> bool) \<Rightarrow> string \<Rightarrow> (string \<times> node) list \<Rightarrow> string list option" where
  "walk_dirs add p (Directory listable es) =
     (if listable \<and> add p then map_option ((#) p) (walk_dirs_entries add p es) else None)"
| "walk_dirs add p n = Some []"
| "walk_dirs_entries add p [] = Some []"
| "walk_dirs_entries add p ((x, n) # es) =
     (if n = Vanished then None
      else case walk_dirs add (Join2 p x) n of
        None \<Rightarrow> None
      | Some a \<Rightarrow> map_option ((@) a) (walk_dirs_entries add p es))"

definition Watcher_Start ::
  "bool \<Rightarrow> (string \<Rightarrow> bool) \<Rightarrow> node \<Rightarrow> Watcher \<Rightarrow> start_error + string list" where
  "Watcher_Start can_create add root w =
     (case os_Stat root (cacheDir w) of
        None \<Rightarrow> Inl ErrStat
      | Some n \<Rightarrow>
          if \<not> IsDir n then Inl ErrNotDir
          else if \<not> can_create then Inl ErrFsnotify
          else case Option.bind (os_Lstat root (cacheDir w)) (walk_dirs add (cacheDir w)) of
                 None \<Rightarrow> Inl ErrWalk
               | Some dirs \<Rightarrow> Inr dirs)"

text \<open>
  The life of a watcher: the handle of fsnotify (absent, open or closed), whether \<open>done\<close> is closed, which
  only \<open>stopOnce\<close> does, and whether the goroutine \<open>loop\<close> runs.  The steps of the loop are the cases of its
  \<open>select\<close>: \<open>done\<close>, a channel that fsnotify closed, an event, an error.  fsnotify closes its channels
  when the handle is closed, and an event may still come out while it does so.
\<close>

record watch_life =
  wl_state :: Watcher
  wl_fs :: "bool option"
  wl_done :: bool
  wl_loop :: bool

definition watch_new :: "string \<Rightarrow> size_db option \<Rightarrow> watch_life" where
  "watch_new dir db = \<lparr>wl_state = Watcher_New dir db, wl_fs = None, wl_done = False, wl_loop = False\<rparr>"

definition watch_start ::
  "bool \<Rightarrow> (string \<Rightarrow> bool) \<Rightarrow> node \<Rightarrow> watch_life \<Rightarrow> start_error option \<times> watch_life" where
  "watch_start can_create add root w =
     (case Watcher_Start can_create add root (wl_state w) of
        Inl e \<Rightarrow> (Some e, if e = ErrWalk then w\<lparr>wl_fs := Some False\<rparr> else w)
      | Inr dirs \<Rightarrow> (None, w\<lparr>wl_fs := Some True, wl_loop := True\<rparr>))"

definition Watcher_Stop :: "watch_life \<Rightarrow> watch_life" where
  "Watcher_Stop w =
     (if wl_done w then w else w\<lparr>wl_done := True, wl_fs := map_option (\<lambda>_. False) (wl_fs w)\<rparr>)"

definition watch_on_event ::
  "node \<Rightarrow> string list \<Rightarrow> string \<Rightarrow> fs_op set \<Rightarrow> watch_life \<Rightarrow> ChangeEvent option \<times> watch_life" where
  "watch_on_event root order name ops w =
     (case dispatch ops of
        None \<Rightarrow> (None, w)
      | Some change \<Rightarrow>
          let (out, s) = handleEvent root order name change (wl_state w)
          in (map_option fst out, w\<lparr>wl_state := s\<rparr>))"

datatype watch_event =
    WlStart bool "string \<Rightarrow> bool" node
  | WlStop
  | WlDone
  | WlClosed
  | WlEvent node "string list" string "fs_op set"
  | WlError

inductive watch_step :: "watch_life \<Rightarrow> watch_event \<Rightarrow> watch_life \<Rightarrow> bool" where
  wl_start: "wl_fs w = None \<Longrightarrow> watch_step w (WlStart c add root) (snd (watch_start c add root w))"
| wl_stop: "watch_step w WlStop (Watcher_Stop w)"
| wl_done: "wl_loop w \<Longrightarrow> wl_done w \<Longrightarrow> watch_step w WlDone (w\<lparr>wl_loop := False\<rparr>)"
| wl_closed: "wl_loop w \<Longrightarrow> wl_fs w = Some False \<Longrightarrow> watch_step w WlClosed (w\<lparr>wl_loop := False\<rparr>)"
| wl_event: "wl_loop w \<Longrightarrow> watch_step w (WlEvent root order name ops) (snd (watch_on_event root order name ops w))"
| wl_error: "wl_loop w \<Longrightarrow> watch_step w WlError w"

inductive_cases wl_eventE: "watch_step w (WlEvent root order name ops) w'"

subsection \<open>File names and identifiers\<close>

lemma cksumSuffix_append:
  assumes "length h = 10" "list_all lower_hex h"
  shows "strip_cksum (s @ CHR ''~'' # h) = s"
  using assms by (simp add: strip_cksum_def cksumSuffix_def nth_append)

lemma is_digit_starts:
  assumes "v \<noteq> []" "is_digit (hd v)"
  shows "startsWithDigit v"
proof -
  have "(of_char (hd v) :: nat) < 128" using assms(2) by (simp add: is_digit_def)
  then show ?thesis
    using assms by (simp add: startsWithDigit_def decode_rune_ascii IsDigit_ascii is_digit_def)
qed

lemma parse_base:
  assumes "startsWithDigit v" "CHR ''-'' \<notin> set v"
    and "strip_cksum (TrimSuffix f packageFileExtension) = n @ ''-'' @ v"
  shows "parsePackageName f = (n, v)"
proof -
  have "v \<noteq> []" using assms(1) by (auto simp: startsWithDigit_def)
  moreover have "LastIndex (n @ ''-'' @ v) (CHR ''-'') = Some (length n)"
    using LastIndex_append [OF assms(2), of n] by simp
  ultimately show ?thesis
    unfolding parsePackageName_def assms(3) using assms(1) by (simp add: Let_def)
qed

text \<open>
  The identifier of a cache file.  For a package name and a version that starts with a digit
  and has no hyphen, the file \<open>name-version~hash10.pkg\<close> and the link \<open>name-version.pkg\<close> beside it
  give the same identifier, \<open>name-version\<close>: the checksum suffix never reaches the announce.\<close>

theorem parse_strips_checksum:
  assumes "startsWithDigit v" "CHR ''-'' \<notin> set v" "length h = 10" "list_all lower_hex h"
    and "\<not> cksumSuffix (n @ ''-'' @ v)"
  shows "parsePackageName (n @ ''-'' @ v @ ''~'' @ h @ ''.pkg'') = (n, v) \<and>
    parsePackageName (n @ ''-'' @ v @ ''.pkg'') = (n, v) \<and>
    NameVersion \<lparr>Name = n, Version = v, Path = p, FileSizeBytes = sz\<rparr> = n @ ''-'' @ v"
proof (intro conjI)
  have "v \<noteq> []" using assms(1) by (auto simp: startsWithDigit_def)
  then show "NameVersion \<lparr>Name = n, Version = v, Path = p, FileSizeBytes = sz\<rparr> = n @ ''-'' @ v"
    by (simp add: NameVersion_def)
  show "parsePackageName (n @ ''-'' @ v @ ''~'' @ h @ ''.pkg'') = (n, v)"
    using assms(1,2) cksumSuffix_append [OF assms(3,4), of "n @ ''-'' @ v"]
      TrimSuffix_append [of "n @ ''-'' @ v @ ''~'' @ h" "''.pkg''"]
    by (intro parse_base) (simp_all add: packageFileExtension_def)
  show "parsePackageName (n @ ''-'' @ v @ ''.pkg'') = (n, v)"
    using assms(1,2,5) TrimSuffix_append [of "n @ ''-'' @ v" "''.pkg''"]
    by (intro parse_base) (simp_all add: packageFileExtension_def strip_cksum_def)
qed

theorem parse_strips_checksum_witness:
  "parsePackageName ''indexinfo-0.3.1_1~ae9dce33aa.pkg'' = (''indexinfo'', ''0.3.1_1'')"
  using parse_strips_checksum [of "''0.3.1_1''" "''ae9dce33aa''" "''indexinfo''"]
  by (simp add: is_digit_starts is_digit_def lower_hex_def cksumSuffix_def)

subsection \<open>The walk\<close>

fun wf_node :: "node \<Rightarrow> bool" and wf_entries :: "(string \<times> node) list \<Rightarrow> bool" where
  "wf_node (Directory l es) \<longleftrightarrow> distinct (map fst es) \<and> wf_entries es"
| "wf_node n \<longleftrightarrow> True"
| "wf_entries [] \<longleftrightarrow> True"
| "wf_entries ((x, n) # es) \<longleftrightarrow> plain_seg x \<and> wf_node n \<and> wf_entries es"

fun walkable :: "node \<Rightarrow> bool" and walkable_entries :: "(string \<times> node) list \<Rightarrow> bool" where
  "walkable (Directory l es) \<longleftrightarrow> l \<and> walkable_entries es"
| "walkable n \<longleftrightarrow> True"
| "walkable_entries [] \<longleftrightarrow> True"
| "walkable_entries ((x, n) # es) \<longleftrightarrow> n \<noteq> Vanished \<and> walkable n \<and> walkable_entries es"

definition path_str :: "string list \<Rightarrow> string" where
  "path_str xs = CHR ''/'' # Join xs ''/''"

lemma rooted_segs_Cons: "rooted_segs (CHR ''/'' # p) = rooted_segs p"
  by (simp add: rooted_segs_def)

lemma rooted_segs_path_str: "list_all plain_seg xs \<Longrightarrow> rooted_segs (path_str xs) = xs"
  by (simp add: path_str_def rooted_segs_Cons rooted_segs_Join)

lemma Join2_path_str:
  assumes "HasPrefix d ''/''" "plain_seg x"
  shows "Join2 d x = path_str (rooted_segs d @ [x])"
proof -
  obtain d' where d: "d = CHR ''/'' # d'" using assms(1) by (auto simp: HasPrefix_iff)
  then have "Join2 d x = Clean (CHR ''/'' # (d' @ CHR ''/'' # x))" by (simp add: Join2_def)
  also have "\<dots> = path_str (rooted_segs (d' @ CHR ''/'' # x))" by (simp add: Clean_rooted path_str_def)
  finally show ?thesis by (simp add: rooted_segs_append assms(2) d rooted_segs_Cons)
qed

lemma walk_ok: "snd (walk_node p n) \<longleftrightarrow> walkable n" "snd (walk_entries p es) \<longleftrightarrow> walkable_entries es"
proof (induction n and es arbitrary: p and p rule: walkable_walkable_entries.induct)
  case (4 x n es)
  from 4(1) [of "Join2 p x"] 4(2) [of p] show ?case
    by (cases "walk_node (Join2 p x) n"; cases "walk_entries p es") (auto split: bool.splits)
qed auto

lemma walk_entries_Cons:
  assumes "walkable_entries ((x, n) # es)"
  shows "fst (walk_entries p ((x, n) # es)) = fst (walk_node (Join2 p x) n) @ fst (walk_entries p es)"
  using assms walk_ok(1) [of "Join2 p x" n]
  by (cases "walk_node (Join2 p x) n"; cases "walk_entries p es") auto

text \<open>What a successful walk visits: the non-directories of the tree, under their full paths.\<close>

definition leaf_at :: "node \<Rightarrow> string list \<Rightarrow> node \<Rightarrow> bool" where
  "leaf_at n ss m \<longleftrightarrow> lookup n ss = Some m \<and> \<not> IsDir m"

lemma leaf_at_nondir: "\<not> IsDir n \<Longrightarrow> n \<noteq> Vanished \<Longrightarrow> leaf_at n ss m \<longleftrightarrow> ss = [] \<and> m = n"
  by (cases ss; cases n) (auto simp: leaf_at_def IsDir_def)

lemma leaf_at_Directory:
  "leaf_at (Directory l es) ss m \<longleftrightarrow> (\<exists>x n ss'. ss = x # ss' \<and> map_of es x = Some n \<and> leaf_at n ss' m)"
  by (cases ss) (auto simp: leaf_at_def IsDir_def split: option.splits)

lemma walk_sound:
  "walkable n \<Longrightarrow> wf_node n \<Longrightarrow> n \<noteq> Vanished \<Longrightarrow> list_all plain_seg ps \<Longrightarrow>
     set (fst (walk_node (path_str ps) n)) = {(path_str (ps @ ss), m) | ss m. leaf_at n ss m}"
  "walkable_entries es \<Longrightarrow> wf_entries es \<Longrightarrow> distinct (map fst es) \<Longrightarrow> list_all plain_seg ps \<Longrightarrow>
     set (fst (walk_entries (path_str ps) es)) =
       {(path_str (ps @ x # ss), m) | x n ss m. map_of es x = Some n \<and> leaf_at n ss m}"
proof (induction n and es arbitrary: ps and ps rule: walkable_walkable_entries.induct)
  case (1 l es)
  have "{(path_str (ps @ ss), m) | ss m. leaf_at (Directory l es) ss m} =
      {(path_str (ps @ x # ss), m) | x n ss m. map_of es x = Some n \<and> leaf_at n ss m}"
    unfolding leaf_at_Directory by blast
  with 1 show ?case by simp
next
  case (4 x n es)
  have abs: "HasPrefix (path_str ps) ''/''" by (simp add: path_str_def HasPrefix_def)
  have x: "plain_seg x" and ps: "list_all plain_seg (ps @ [x])" using "4.prems" by auto
  then have "Join2 (path_str ps) x = path_str (ps @ [x])"
    using "4.prems"(4) by (simp add: Join2_path_str [OF abs] rooted_segs_path_str)
  moreover have "set (fst (walk_node (path_str (ps @ [x])) n)) =
      {(path_str ((ps @ [x]) @ ss), m) | ss m. leaf_at n ss m}"
    using "4.prems" ps by (intro "4.IH"(1)) auto
  moreover have "set (fst (walk_entries (path_str ps) es)) =
      {(path_str (ps @ y # ss), m) | y k ss m. map_of es y = Some k \<and> leaf_at k ss m}"
    using "4.prems" by (intro "4.IH"(2)) auto
  moreover have "map_of es x = None" using "4.prems"(3) by (simp add: map_of_eq_None_iff)
  then have "map_of ((x, n) # es) y = Some k \<longleftrightarrow> y = x \<and> k = n \<or> map_of es y = Some k" for y k by auto
  ultimately show ?case
    unfolding walk_entries_Cons [OF "4.prems"(1)] by auto
qed (auto simp: leaf_at_nondir IsDir_def)

subsection \<open>The package list of a scan\<close>

lemma walk_entries_clean:
  "HasPrefix d ''/'' \<Longrightarrow> wf_entries es \<Longrightarrow> walk_entries d es = walk_entries (path_str (rooted_segs d)) es"
proof (induction es)
  case (Cons a es)
  obtain x n where a: "a = (x, n)" by fastforce
  have "Join2 d x = Join2 (path_str (rooted_segs d)) x"
    using Cons.prems a clean_segs_rooted [of d]
    by (simp add: Join2_path_str rooted_segs_path_str) (simp add: Join2_path_str path_str_def HasPrefix_def
      rooted_segs_path_str [unfolded path_str_def])
  with Cons a show ?case by simp
qed simp

lemma path_str_inj:
  "list_all plain_seg xs \<Longrightarrow> list_all plain_seg ys \<Longrightarrow> path_str xs = path_str ys \<Longrightarrow> xs = ys"
  by (metis rooted_segs_path_str)

lemma wf_entries_map_of: "wf_entries es \<Longrightarrow> map_of es x = Some k \<Longrightarrow> plain_seg x \<and> wf_node k"
  by (induction es) (auto split: if_splits)

lemma lookup_plain: "wf_node n \<Longrightarrow> lookup n ss = Some m \<Longrightarrow> list_all plain_seg ss"
proof (induction ss arbitrary: n)
  case (Cons x ss)
  then obtain l es k where n: "n = Directory l es" "map_of es x = Some k" "lookup k ss = Some m"
    by (cases n) (auto split: option.splits)
  then have "plain_seg x \<and> wf_node k" using Cons.prems wf_entries_map_of by auto
  with Cons.IH [of k] n(3) show ?case by simp
qed simp

lemma Walk_files:
  assumes "HasPrefix d ''/''" "lookup root (rooted_segs d) = Some (Directory l es)"
    "wf_node (Directory l es)" "walkable (Directory l es)"
  shows "snd (Walk root d) \<and>
    set (fst (Walk root d)) = {(path_str (rooted_segs d @ ss), m) | ss m. leaf_at (Directory l es) ss m}"
proof -
  have "Walk root d = walk_node (path_str (rooted_segs d)) (Directory l es)"
    using assms walk_entries_clean [of d es] by (simp add: Walk_def os_Lstat_def)
  then show ?thesis
    using walk_ok(1) [of "path_str (rooted_segs d)" "Directory l es"] assms(3,4) clean_segs_rooted [of d]
      walk_sound(1) [of "Directory l es" "rooted_segs d"] by simp
qed

lemma fold_scan_file:
  assumes "\<And>p n n'. (p, n) \<in> set files \<Longrightarrow> (p, n') \<in> set files \<Longrightarrow> n = n'"
  shows "fold scan_file files Map.empty p = Some i \<longleftrightarrow>
    (\<exists>n. (p, n) \<in> set files \<and> \<not> is_link n \<and> i = package_info p (node_size n))"
  using assms
proof (induction files rule: rev_induct)
  case (snoc a files)
  obtain q m where a: "a = (q, m)" by fastforce
  have "fold scan_file files Map.empty p = Some i \<longleftrightarrow>
    (\<exists>n. (p, n) \<in> set files \<and> \<not> is_link n \<and> i = package_info p (node_size n))"
    using snoc.prems by (intro snoc.IH) auto
  moreover have "n = m" if "(q, n) \<in> set files" for n using snoc.prems [of q n m] that a by simp
  ultimately show ?case by (auto simp: a scan_file_def)
qed simp

text \<open>
  Which file names stand for a package, written forwards: a name, a hyphen, a version that starts with a
  digit and has no hyphen, at most one checksum tag, and the extension or nothing.  A tag is a tilde with
  ten hexadecimal digits; what precedes a missing tag may not end like one.
\<close>

definition hex_tag :: "string \<Rightarrow> bool" where
  "hex_tag t \<longleftrightarrow> length t = 11 \<and> hd t = CHR ''~'' \<and> list_all lower_hex (tl t)"

definition names_file :: "string \<Rightarrow> string \<Rightarrow> string \<Rightarrow> bool" where
  "names_file f name ver \<longleftrightarrow>
     name \<noteq> [] \<and> ver \<noteq> [] \<and> CHR ''-'' \<notin> set ver \<and> IsDigit (decode_rune ver) \<and>
     (\<exists>tag. f = name @ ''-'' @ ver @ tag @ (if HasSuffix f ''.pkg'' then ''.pkg'' else []) \<and>
        (hex_tag tag \<or> tag = [] \<and> \<not> (\<exists>r t. name @ ''-'' @ ver = r @ t \<and> hex_tag t)))"

lemma cksumSuffix_iff: "cksumSuffix s \<longleftrightarrow> (\<exists>r t. s = r @ t \<and> hex_tag t)"
proof
  assume c: "cksumSuffix s"
  then have n: "11 \<le> length s" by (simp add: cksumSuffix_def)
  let ?t = "drop (length s - 11) s"
  have "Suc (length s - 11) = length s - 10" using n by arith
  then have "tl ?t = drop (length s - 10) s" by (simp add: tl_drop drop_Suc [symmetric])
  moreover have "hd ?t = CHR ''~''" using c n by (simp add: cksumSuffix_def hd_drop_conv_nth)
  ultimately have "hex_tag ?t" using c n by (simp add: cksumSuffix_def hex_tag_def)
  then show "\<exists>r t. s = r @ t \<and> hex_tag t" by (metis append_take_drop_id)
next
  assume "\<exists>r t. s = r @ t \<and> hex_tag t"
  then obtain r t where s: "s = r @ t" "hex_tag t" by blast
  then obtain h where "t = CHR ''~'' # h" "length h = 10" "list_all lower_hex h" by (cases t) (auto simp: hex_tag_def)
  then show "cksumSuffix s" using s(1) by (simp add: cksumSuffix_def nth_append)
qed

lemma strip_cksum_iff:
  "strip_cksum s = b \<longleftrightarrow> (\<exists>t. s = b @ t \<and> (hex_tag t \<or> t = [] \<and> \<not> cksumSuffix b))"
proof (cases "cksumSuffix s")
  case True
  then obtain r t where t: "s = r @ t" "hex_tag t" by (auto simp: cksumSuffix_iff)
  then have l: "length t = 11" by (simp add: hex_tag_def)
  have "strip_cksum s = r" using True t(1) l by (simp add: strip_cksum_def)
  moreover have "r = b" if "s = b @ u" "hex_tag u" for u
    using that t l by (simp add: hex_tag_def)
  moreover have "s \<noteq> b" if "\<not> cksumSuffix b" using that True by blast
  ultimately show ?thesis using t by (metis append_Nil2)
next
  case False
  then have "\<not> hex_tag t" if "s = b @ t" for t using that by (auto simp: cksumSuffix_iff)
  then show ?thesis using False by (auto simp: strip_cksum_def)
qed

lemma TrimSuffix_iff: "TrimSuffix s p = r \<longleftrightarrow> s = r @ (if HasSuffix s p then p else [])"
  by (auto simp: TrimSuffix_def HasSuffix_iff)

lemma parse_names_file:
  "parsePackageName f = (name, ver) \<and> name \<noteq> [] \<and> ver \<noteq> [] \<longleftrightarrow> names_file f name ver"
proof -
  let ?base = "strip_cksum (TrimSuffix f packageFileExtension)"
  have base: "?base = name @ ''-'' @ ver \<longleftrightarrow>
      (\<exists>tag. f = name @ ''-'' @ ver @ tag @ (if HasSuffix f ''.pkg'' then ''.pkg'' else []) \<and>
        (hex_tag tag \<or> tag = [] \<and> \<not> (\<exists>r t. name @ ''-'' @ ver = r @ t \<and> hex_tag t)))"
    using TrimSuffix_iff [of f "''.pkg''"]
    by (simp add: strip_cksum_iff cksumSuffix_iff packageFileExtension_def)
  have "parsePackageName f = (name, ver) \<and> name \<noteq> [] \<and> ver \<noteq> [] \<longleftrightarrow>
      ?base = name @ ''-'' @ ver \<and> name \<noteq> [] \<and> CHR ''-'' \<notin> set ver \<and> startsWithDigit ver"
  proof
    assume p: "parsePackageName f = (name, ver) \<and> name \<noteq> [] \<and> ver \<noteq> []"
    then obtain i where i: "LastIndex ?base (CHR ''-'') = Some i" "name = take i ?base" "ver = drop (Suc i) ?base"
      "startsWithDigit ver"
      by (auto simp: parsePackageName_def Let_def split: option.splits if_splits)
    with LastIndex_Some [OF i(1)] p show
      "?base = name @ ''-'' @ ver \<and> name \<noteq> [] \<and> CHR ''-'' \<notin> set ver \<and> startsWithDigit ver" by simp
  next
    assume "?base = name @ ''-'' @ ver \<and> name \<noteq> [] \<and> CHR ''-'' \<notin> set ver \<and> startsWithDigit ver"
    then show "parsePackageName f = (name, ver) \<and> name \<noteq> [] \<and> ver \<noteq> []"
      using parse_base [of ver f name] by (auto simp: startsWithDigit_def)
  qed
  also have "\<dots> \<longleftrightarrow> names_file f name ver"
    unfolding base names_file_def by (auto simp: startsWithDigit_def)
  finally show ?thesis .
qed

lemma Join_snoc: "Join (xs @ [x]) [c] = (if xs = [] then x else Join xs [c] @ c # x)"
proof (induction xs)
  case (Cons y xs)
  then show ?case by (cases "xs = []") (simp_all add: Join_Cons)
qed simp

lemma Base_path_str: "ss \<noteq> [] \<Longrightarrow> plain_seg (last ss) \<Longrightarrow> Base (path_str (xs @ ss)) = last ss"
  using Base_join [of "last ss" "if xs @ butlast ss = [] then [] else CHR ''/'' # Join (xs @ butlast ss) ''/''"]
    Join_snoc [of "xs @ butlast ss" "last ss" "CHR ''/''"]
  by (auto simp: path_str_def plain_seg_def)

text \<open>
  The packages a scan may announce: the files below the cache directory that are not links and whose
  names stand for a package, each with its full path and its own size, as far as the repository database, when
  there is one, lists the package with exactly that size.
\<close>

definition announced :: "node \<Rightarrow> string \<Rightarrow> size_db option \<Rightarrow> PackageInfo set" where
  "announced n d db =
     {\<lparr>Name = name, Version = ver, Path = path_str (rooted_segs d @ ss), FileSizeBytes = node_size m\<rparr> | ss m name ver.
        leaf_at n ss m \<and> \<not> is_link m \<and> names_file (last ss) name ver \<and>
        (\<forall>sizes. db = Some sizes \<longrightarrow> sizes (name @ ''-'' @ ver) = Some (node_size m))}"

lemma Path_package_info [simp]: "Path (package_info p sz) = p"
  by (simp add: package_info_def case_prod_beta)

lemma sane_package_info:
  assumes "ss \<noteq> []" "plain_seg (last ss)"
  shows "i = package_info (path_str (xs @ ss)) sz \<and> sane db i \<longleftrightarrow>
    (\<exists>name ver. i = \<lparr>Name = name, Version = ver, Path = path_str (xs @ ss), FileSizeBytes = sz\<rparr> \<and>
       names_file (last ss) name ver \<and> (\<forall>sizes. db = Some sizes \<longrightarrow> sizes (name @ ''-'' @ ver) = Some sz))"
proof -
  obtain name ver where p: "parsePackageName (last ss) = (name, ver)" by fastforce
  then have "names_file (last ss) n v \<longleftrightarrow> n = name \<and> v = ver \<and> name \<noteq> [] \<and> ver \<noteq> []" for n v
    using parse_names_file [of "last ss" n v] by auto
  then show ?thesis
    using p Base_path_str [OF assms]
    by (auto simp: package_info_def sane_def isValidNameVersionFormat_def NameVersion_def split: option.splits)
qed

lemma announced_scanned:
  assumes "wf_node (Directory l es)"
  shows "announced (Directory l es) d db =
    {i. \<exists>ss m. leaf_at (Directory l es) ss m \<and> \<not> is_link m \<and>
       i = package_info (path_str (rooted_segs d @ ss)) (node_size m) \<and> sane db i}"
proof -
  have "ss \<noteq> [] \<and> plain_seg (last ss)" if leaf: "leaf_at (Directory l es) ss m" for ss m
  proof -
    have "list_all plain_seg ss" using lookup_plain [OF assms] leaf by (simp add: leaf_at_def)
    moreover have "ss \<noteq> []" using leaf by (auto simp: leaf_at_Directory)
    ultimately show ?thesis by (simp add: list_all_iff)
  qed
  then have eq: "(\<exists>name ver. i = \<lparr>Name = name, Version = ver, Path = path_str (rooted_segs d @ ss), FileSizeBytes = node_size m\<rparr> \<and>
        names_file (last ss) name ver \<and> (\<forall>sizes. db = Some sizes \<longrightarrow> sizes (name @ ''-'' @ ver) = Some (node_size m)))
      \<longleftrightarrow> i = package_info (path_str (rooted_segs d @ ss)) (node_size m) \<and> sane db i"
    if "leaf_at (Directory l es) ss m" for i ss m
    using sane_package_info [of ss i "rooted_segs d" "node_size m" db] that by simp
  show ?thesis
  proof (rule set_eqI)
    fix i
    have "i \<in> announced (Directory l es) d db \<longleftrightarrow> (\<exists>ss m. leaf_at (Directory l es) ss m \<and> \<not> is_link m \<and>
      (\<exists>name ver. i = \<lparr>Name = name, Version = ver, Path = path_str (rooted_segs d @ ss), FileSizeBytes = node_size m\<rparr> \<and>
        names_file (last ss) name ver \<and> (\<forall>sizes. db = Some sizes \<longrightarrow> sizes (name @ ''-'' @ ver) = Some (node_size m))))"
      unfolding announced_def by blast
    also have "\<dots> \<longleftrightarrow> (\<exists>ss m. leaf_at (Directory l es) ss m \<and> \<not> is_link m \<and>
        i = package_info (path_str (rooted_segs d @ ss)) (node_size m) \<and> sane db i)"
      using eq [of _ _ i] by (simp cong: conj_cong)
    finally show "i \<in> announced (Directory l es) d db \<longleftrightarrow> i \<in> {i. \<exists>ss m. leaf_at (Directory l es) ss m \<and> \<not> is_link m \<and>
       i = package_info (path_str (rooted_segs d @ ss)) (node_size m) \<and> sane db i}" by simp
  qed
qed

lemma scan_result:
  assumes "HasPrefix (cacheDir w) ''/''" "lookup root (rooted_segs (cacheDir w)) = Some (Directory l es)"
    and "wf_node (Directory l es)" "Scan root order w = (res, w')"
    and "walkable (Directory l es) \<Longrightarrow> range_order order (dom (pkgs w'))"
  shows "(if walkable (Directory l es)
     then \<exists>out. res = Some out \<and> set out = announced (Directory l es) (cacheDir w) (repoDB w) \<and> distinct (map Path out)
     else res = None)"
proof (cases "walkable (Directory l es)")
  case False
  have "Walk root (cacheDir w) = walk_node (cacheDir w) (Directory l es)"
    using assms(2) by (simp add: Walk_def os_Lstat_def)
  then have "\<not> snd (Walk root (cacheDir w))" using False walk_ok(1) by metis
  with assms(4) False show ?thesis by (auto simp: Scan_def Let_def split: prod.splits if_splits)
next
  case True
  let ?d = "cacheDir w" let ?n = "Directory l es"
  obtain files where walk: "Walk root ?d = (files, True)"
    and files: "set files = {(path_str (rooted_segs ?d @ ss), m) | ss m. leaf_at ?n ss m}"
    using Walk_files [OF assms(1-3) True] by (cases "Walk root ?d") auto
  have fn: "a = b" if ab: "(p, a) \<in> set files" "(p, b) \<in> set files" for p a b
  proof -
    obtain s t where "p = path_str (rooted_segs ?d @ s)" "leaf_at ?n s a"
      "p = path_str (rooted_segs ?d @ t)" "leaf_at ?n t b" using ab unfolding files by blast
    moreover from this have "s = t"
      using lookup_plain [OF assms(3)] path_str_inj [of "rooted_segs ?d @ s" "rooted_segs ?d @ t"]
        clean_segs_rooted [of ?d] by (simp add: leaf_at_def)
    ultimately show ?thesis by (simp add: leaf_at_def)
  qed
  define m where "m = fold scan_file files Map.empty"
  have m: "m p = Some i \<longleftrightarrow> (\<exists>n. (p, n) \<in> set files \<and> \<not> is_link n \<and> i = package_info p (node_size n))" for p i
    unfolding m_def using fn by (rule fold_scan_file)
  have res: "res = Some (SanityFilter (map (\<lambda>p. the (m p)) order) (repoDB w))" "pkgs w' = m"
    using assms(4) walk by (auto simp: Scan_def Let_def m_def)
  have order: "set order = dom m" "distinct order"
    using assms(5) [OF True] res(2) by (auto simp: range_order_def)
  have path: "Path (the (m p)) = p" if "p \<in> set order" for p
  proof -
    from that order(1) obtain i where "m p = Some i" by auto
    then show ?thesis using m [of p i] by auto
  qed
  then have "map Path (map (\<lambda>p. the (m p)) order) = order" by (auto intro: map_idI)
  then have "distinct (map Path (SanityFilter (map (\<lambda>p. the (m p)) order) (repoDB w)))"
    unfolding SanityFilter_def using order(2) by (metis distinct_map_filter)
  moreover have "set (SanityFilter (map (\<lambda>p. the (m p)) order) (repoDB w)) = announced ?n ?d (repoDB w)"
  proof -
    have "(\<lambda>p. the (m p)) ` dom m = {i. \<exists>p. m p = Some i}" by (force simp: dom_def image_iff)
    then show ?thesis
      by (auto simp: SanityFilter_def order(1) announced_scanned [OF assms(3)] m files)
  qed
  ultimately show ?thesis using True res(1) by simp
qed

text \<open>
  C28: A scan emits exactly the packages on disk.  Over any directory tree that can be listed, the
  list has one entry per file that is not a link, whose name is a package name, a hyphen, a version that
  starts with a digit and has no hyphen, at most one checksum tag and the extension or nothing, and which the
  repository database, when the watcher has one, lists with exactly the size of the file; a scan fails exactly when
  a directory cannot be listed or a file vanishes under it.\<close>

theorem scan_exact:
  assumes "HasPrefix (cacheDir w) ''/''" "lookup root (rooted_segs (cacheDir w)) = Some (Directory l es)"
    and "wf_node (Directory l es)" "Scan root order w = (res, w')"
    and "walkable (Directory l es) \<Longrightarrow> range_order order (dom (pkgs w'))"
  shows "(if walkable (Directory l es)
     then \<exists>out. res = Some out \<and> set out = announced (Directory l es) (cacheDir w) (repoDB w) \<and> distinct (map Path out)
     else res = None)"
  using scan_result [OF assms] .

subsection \<open>The life of a watcher\<close>

lemma handleEvent_pkgs:
  "pkgs (snd (handleEvent root order p change w)) \<in>
     {pkgs w, fold scan_file (fst (Walk root (cacheDir w))) Map.empty}"
  "cacheDir (snd (handleEvent root order p change w)) = cacheDir w"
  "repoDB (snd (handleEvent root order p change w)) = repoDB w"
  by (auto simp: handleEvent_def Scan_def Let_def split_beta split: option.split)

lemma watch_step_stopped:
  assumes "watch_step w e w'" "wl_done w" "wl_fs w \<noteq> Some True" "wl_fs w \<noteq> None"
  shows "wl_done w' \<and> wl_fs w' = Some False \<and> (wl_loop w' \<longrightarrow> wl_loop w)"
  using assms
  by (cases rule: watch_step.cases)
    (auto simp: Watcher_Stop_def watch_on_event_def Let_def split_beta split: option.splits)

text \<open>
  A watcher that was started and then stopped holds no handle and never gets one again; its loop can
  end at every moment from then on, and once it has ended it stays so.  Stopping twice is stopping once.\<close>

lemma stopped_watcher_is_released:
  assumes "wl_fs w \<noteq> None" "run watch_step (Watcher_Stop w) es w'" "\<not> wl_done w"
  shows "wl_done w' \<and> wl_fs w' = Some False \<and> Watcher_Stop w' = w' \<and>
    (wl_loop w' \<longrightarrow> watch_step w' WlDone (w'\<lparr>wl_loop := False\<rparr>)) \<and> (\<not> wl_loop w \<longrightarrow> \<not> wl_loop w')"
proof -
  have "wl_done w' \<and> wl_fs w' = Some False \<and> (wl_loop w' \<longrightarrow> wl_loop w)"
  proof (rule run_invariant [OF assms(2)])
    show "wl_done s' \<and> wl_fs s' = Some False \<and> (wl_loop s' \<longrightarrow> wl_loop w)"
      if "watch_step s e s'" "wl_done s \<and> wl_fs s = Some False \<and> (wl_loop s \<longrightarrow> wl_loop w)" for s e s'
      using watch_step_stopped [OF that(1)] that(2) by auto
  qed (use assms(1,3) in \<open>auto simp: Watcher_Stop_def\<close>)
  then show ?thesis by (auto simp: Watcher_Stop_def intro: wl_done)
qed

text \<open>Every event the loop acts on leaves the package map of a scan at that moment; a file that is only renamed
  away is not such an event.\<close>

lemma handled_event_rescans:
  assumes "dispatch ops = Some change" "change = Removed \<or> (\<exists>n. os_Lstat root name = Some n \<and> \<not> is_link n)"
  shows "pkgs (wl_state (snd (watch_on_event root order name ops w))) =
      fold scan_file (fst (Walk root (cacheDir (wl_state w)))) Map.empty \<and>
    (\<exists>ev. fst (watch_on_event root order name ops w) = Some ev \<and> ev_Type ev = change)"
  using assms by (auto simp: watch_on_event_def handleEvent_def Scan_def Let_def split_beta split: option.split)

lemma rename_is_not_noticed:
  assumes "wl_loop w"
  shows "watch_step w (WlEvent root order name {Rename}) w" "fst (watch_on_event root order name {Rename} w) = None"
proof -
  have e: "watch_on_event root order name {Rename} w = (None, w)" by (simp add: watch_on_event_def dispatch_def)
  then show "fst (watch_on_event root order name {Rename} w) = None" by simp
  from wl_event [OF assms, of root order name "{Rename}"] e show "watch_step w (WlEvent root order name {Rename}) w" by simp
qed

text \<open>
  A link gives no entry of its own, and a cache directory that is itself a link gives none at
  all: the start check follows the link and accepts the directory, the walk does not, so nothing
  is watched and every scan of a full cache succeeds with an empty list.\<close>

theorem scan_of_linked_cache_is_empty:
  assumes "os_Lstat root (cacheDir w) = Some (Symlink t)"
    and "os_Stat root (cacheDir w) = Some (Directory True es)"
  shows "Watcher_Start True (\<lambda>_. True) root w = Inr [] \<and> fst (Scan root [] w) = Some []"
  using assms by (simp add: Watcher_Start_def IsDir_def Scan_def Walk_def SanityFilter_def)

definition demo_watcher :: "string \<Rightarrow> Watcher" where
  "demo_watcher d = Watcher_New d (Some (\<lambda>nv. if nv = ''zip-3'' then Some 3 else None))"

definition demo_linked_root :: node where
  "demo_linked_root = Directory True [(''pkg'', Symlink ''cache''), (''cache'', Directory True demo_cache_entries)]"

theorem scan_of_linked_cache_is_empty_witness:
  "fst (Scan demo_linked_root [] (demo_watcher ''/pkg'')) = Some [] \<and>
   lookup demo_linked_root [''cache'', ''zip-3~00112233aa.pkg''] = Some (Regular [1, 2, 3])"
proof -
  have "os_Lstat demo_linked_root (cacheDir (demo_watcher ''/pkg'')) = Some (Symlink ''cache'')"
    by (simp add: os_Lstat_def rooted_segs_def demo_linked_root_def demo_watcher_def Watcher_New_def)
  moreover have "os_Stat demo_linked_root (cacheDir (demo_watcher ''/pkg'')) = Some (Directory True demo_cache_entries)"
    by (simp add: os_Stat_def rooted_segs_def demo_linked_root_def demo_watcher_def Watcher_New_def
        maxSymlinks_def HasPrefix_def)
  ultimately show ?thesis
    using scan_of_linked_cache_is_empty
    by (simp add: demo_linked_root_def demo_cache_entries_def)
qed

lemma demo_scan_m: "pkgs (snd (Scan demo_root order (demo_watcher ''/cache''))) =
   [''/cache/zip-3~00112233aa.pkg'' \<mapsto>
      \<lparr>Name = ''zip'', Version = ''3'', Path = ''/cache/zip-3~00112233aa.pkg'', FileSizeBytes = 3\<rparr>]"
proof -
  have "parsePackageName (Base ''/cache/zip-3~00112233aa.pkg'') = (''zip'', ''3'')"
    by (simp add: Base_def strip_slashes_def)
       (rule parse_base, simp_all add: startsWithDigit_def decode_rune_ascii IsDigit_ascii TrimSuffix_def
         packageFileExtension_def HasSuffix_def strip_cksum_def cksumSuffix_def lower_hex_def)
  then show ?thesis
    by (simp add: Scan_def Walk_def os_Lstat_def demo_watcher_def Watcher_New_def rooted_segs_def
        demo_root_def demo_cache_entries_def Join2_def Clean_def scan_file_def is_link_def
        package_info_def node_size_def Let_def)
qed

theorem scan_exact_witness:
  "announced (Directory True demo_cache_entries) ''/cache'' (Some (\<lambda>nv. if nv = ''zip-3'' then Some 3 else None)) =
     {\<lparr>Name = ''zip'', Version = ''3'', Path = ''/cache/zip-3~00112233aa.pkg'', FileSizeBytes = 3\<rparr>} \<and>
   announced (Directory True demo_cache_entries) ''/cache'' (Some (\<lambda>nv. Some 4)) = {}"
proof -
  let ?i = "\<lparr>Name = ''zip'', Version = ''3'', Path = ''/cache/zip-3~00112233aa.pkg'', FileSizeBytes = 3\<rparr>"
  have ok: "wf_node (Directory True demo_cache_entries)" "walkable (Directory True demo_cache_entries)"
    by (simp_all add: demo_cache_entries_def plain_seg_def)
  have scan: "\<exists>w'. Scan demo_root [''/cache/zip-3~00112233aa.pkg''] (Watcher_New ''/cache'' db) = (Some (SanityFilter [?i] db), w')"
    "range_order [''/cache/zip-3~00112233aa.pkg''] (dom (pkgs (snd (Scan demo_root [''/cache/zip-3~00112233aa.pkg''] (Watcher_New ''/cache'' db)))))"
    for db
  proof -
    have "Walk demo_root ''/cache'' = Walk demo_root (cacheDir (demo_watcher ''/cache''))"
      by (simp add: demo_watcher_def Watcher_New_def)
    moreover have "snd (Walk demo_root ''/cache'')"
      by (simp add: Walk_def os_Lstat_def rooted_segs_def demo_root_def demo_cache_entries_def Join2_def Clean_def)
    ultimately show "\<exists>w'. Scan demo_root [''/cache/zip-3~00112233aa.pkg''] (Watcher_New ''/cache'' db) = (Some (SanityFilter [?i] db), w')"
      "range_order [''/cache/zip-3~00112233aa.pkg''] (dom (pkgs (snd (Scan demo_root [''/cache/zip-3~00112233aa.pkg''] (Watcher_New ''/cache'' db)))))"
      using demo_scan_m [of "[''/cache/zip-3~00112233aa.pkg'']"]
      by (auto simp: Scan_def demo_watcher_def Watcher_New_def range_order_def Let_def split: prod.splits if_splits)
  qed
  have "announced (Directory True demo_cache_entries) ''/cache'' db = set (SanityFilter [?i] db)" for db
  proof -
    obtain w' where w: "Scan demo_root [''/cache/zip-3~00112233aa.pkg''] (Watcher_New ''/cache'' db) = (Some (SanityFilter [?i] db), w')"
      using scan(1) by blast
    show ?thesis
      using scan_exact [of "Watcher_New ''/cache'' db" demo_root True demo_cache_entries _ _ w', OF _ _ ok(1)] ok(2)
        w scan(2) [of db] demo_cache_dir
      by (auto simp: Watcher_New_def HasPrefix_def)
  qed
  then show ?thesis by (simp add: SanityFilter_def sane_def isValidNameVersionFormat_def NameVersion_def)
qed

end
