(* ===== verification/Go_URL.thy ===== *)
theory Go_URL
  imports Go_Net
begin

text \<open>
  The part of \<open>net/url\<close> the program uses: parsing, percent-escapes and printing.  Zone
  identifiers in bracketed hosts are rejected here, and \<open>ToLower\<close> maps the ASCII letters;
  otherwise the functions follow the package.
\<close>

subsection \<open>Percent-escapes\<close>

definition upper_hex :: "nat \<Rightarrow> char" where
  "upper_hex d = (if d < 10 then char_of (48 + d) else char_of (55 + d))"

definition alnum :: "char \<Rightarrow> bool" where
  "alnum c \<longleftrightarrow> (let n = (of_char c :: nat) in 48 \<le> n \<and> n \<le> 57 \<or> 65 \<le> n \<and> n \<le> 90 \<or> 97 \<le> n \<and> n \<le> 122)"

datatype escape_mode = encodePath | encodeHost | encodeUserPassword

definition shouldEscape :: "escape_mode \<Rightarrow> char \<Rightarrow> bool" where
  "shouldEscape mode c =
     (if alnum c then False
      else if mode = encodeHost \<and> c \<in> set ''!$&()*+,;=:[]<>'' \<union> {CHR 0x27, CHR 0x22} then False
      else if c \<in> set ''-_.~'' then False
      else if c \<in> set ''$&+,/:;=?@'' then
        (case mode of
           encodePath \<Rightarrow> c = CHR ''?''
         | encodeUserPassword \<Rightarrow> c \<in> set ''@/?:''
         | encodeHost \<Rightarrow> True)
      else True)"

definition escape1 :: "escape_mode \<Rightarrow> char \<Rightarrow> string" where
  "escape1 mode c =
     (if shouldEscape mode c
      then [CHR ''%'', upper_hex (of_char c div 16), upper_hex (of_char c mod 16)]
      else [c])"

definition escape :: "escape_mode \<Rightarrow> string \<Rightarrow> string" where
  "escape mode s = concat (map (escape1 mode) s)"

fun unescape :: "escape_mode \<Rightarrow> string \<Rightarrow> string option" where
  "unescape mode [] = Some []"
| "unescape mode (c # s) =
     (if c = CHR ''%'' then
        (case s of
           a # b # s' \<Rightarrow>
             (case (hex_digit a, hex_digit b) of
                (Some x, Some y) \<Rightarrow>
                  if mode = encodeHost \<and> x < 8 \<and> \<not> (a = CHR ''2'' \<and> b = CHR ''5'') then None
                  else map_option ((#) (char_of (16 * x + y))) (unescape mode s')
              | _ \<Rightarrow> None)
         | _ \<Rightarrow> None)
      else if mode = encodeHost \<and> (of_char c :: nat) < 128 \<and> shouldEscape mode c then None
      else map_option ((#) c) (unescape mode s))"

subsection \<open>URLs\<close>

record URL =
  Scheme :: string
  Opaque :: string
  User :: "(string \<times> string option) option"
  Host :: string
  URLPath :: string
  RawQuery :: string
  ForceQuery :: bool

definition empty_url :: URL where
  "empty_url = \<lparr>Scheme = [], Opaque = [], User = None, Host = [], URLPath = [], RawQuery = [], ForceQuery = False\<rparr>"

definition ascii_lower :: "char \<Rightarrow> char" where
  "ascii_lower c = (let n = (of_char c :: nat) in if 65 \<le> n \<and> n \<le> 90 then char_of (n + 32) else c)"

definition ToLower :: "string \<Rightarrow> string" where
  "ToLower s = map ascii_lower s"

definition is_letter :: "char \<Rightarrow> bool" where
  "is_letter c \<longleftrightarrow> (let n = (of_char c :: nat) in 65 \<le> n \<and> n \<le> 90 \<or> 97 \<le> n \<and> n \<le> 122)"

definition scheme_char :: "char \<Rightarrow> bool" where
  "scheme_char c \<longleftrightarrow> is_letter c \<or> is_digit c \<or> c \<in> set ''+-.''"

text \<open>\<open>getScheme\<close>: \<open>None\<close> is the missing-scheme error.\<close>

definition getScheme :: "string \<Rightarrow> (string \<times> string) option" where
  "getScheme s =
     (let p = takeWhile scheme_char s; r = dropWhile scheme_char s
      in if p \<noteq> [] \<and> \<not> is_letter (hd p) then Some ([], s)
         else if r \<noteq> [] \<and> hd r = CHR '':'' then (if p = [] then None else Some (p, tl r))
         else Some ([], s))"

text \<open>\<open>strings.Cut\<close> at the first occurrence of a byte.\<close>

definition cut :: "char \<Rightarrow> string \<Rightarrow> string \<times> string" where
  "cut c s = (takeWhile (\<lambda>x. x \<noteq> c) s, tl (dropWhile (\<lambda>x. x \<noteq> c) s))"

definition validOptionalPort :: "string \<Rightarrow> bool" where
  "validOptionalPort s \<longleftrightarrow> s = [] \<or> hd s = CHR '':'' \<and> list_all is_digit (tl s)"

definition parseHost :: "string \<Rightarrow> string option" where
  "parseHost h =
     (if HasPrefix h ''['' then
        (case LastIndex h (CHR '']'') of
           None \<Rightarrow> None
         | Some i \<Rightarrow>
             if validOptionalPort (drop (Suc i) h) \<and> parseIPv6 (take (i - 1) (tl h)) \<noteq> None
             then Some h else None)
      else if CHR ''['' \<in> set h then None
      else case LastIndex h (CHR '':'') of
             None \<Rightarrow> unescape encodeHost h
           | Some i \<Rightarrow> if validOptionalPort (drop i h) then unescape encodeHost h else None)"

definition userinfo_char :: "char \<Rightarrow> bool" where
  "userinfo_char c \<longleftrightarrow> alnum c \<or> c \<in> set ''-._:~!$&()*+,;=%@'' \<or> c = CHR 0x27"

definition parseUserinfo :: "string \<Rightarrow> (string \<times> string option) option" where
  "parseUserinfo s =
     (if \<not> list_all userinfo_char s then None
      else if CHR '':'' \<notin> set s then map_option (\<lambda>u. (u, None)) (unescape encodeUserPassword s)
      else let (u, p) = cut (CHR '':'') s
           in case (unescape encodeUserPassword u, unescape encodeUserPassword p) of
                (Some u', Some p') \<Rightarrow> Some (u', Some p')
              | _ \<Rightarrow> None)"

definition parseAuthority :: "string \<Rightarrow> ((string \<times> string option) option \<times> string) option" where
  "parseAuthority a =
     (case LastIndex a (CHR ''@'') of
        None \<Rightarrow> map_option (Pair None) (parseHost a)
      | Some i \<Rightarrow>
          (case (parseHost (drop (Suc i) a), parseUserinfo (take i a)) of
             (Some h, Some u) \<Rightarrow> Some (Some u, h)
           | _ \<Rightarrow> None))"

definition ctl_byte :: "char \<Rightarrow> bool" where
  "ctl_byte c \<longleftrightarrow> (of_char c :: nat) < 32 \<or> (of_char c :: nat) = 127"

definition setPath :: "string \<Rightarrow> URL \<Rightarrow> URL option" where
  "setPath p u = map_option (\<lambda>q. u\<lparr>URLPath := q\<rparr>) (unescape encodePath p)"

text \<open>The query part is cut off; a lone trailing question mark is remembered in \<open>ForceQuery\<close>.\<close>

definition split_query :: "string \<Rightarrow> string \<times> string \<times> bool" where
  "split_query rest =
     (if HasSuffix rest ''?'' \<and> length (filter (\<lambda>c. c = CHR ''?'') rest) = 1 then (butlast rest, [], True)
      else (fst (cut (CHR ''?'') rest), snd (cut (CHR ''?'') rest), False))"

definition url_parse :: "bool \<Rightarrow> string \<Rightarrow> URL option" where
  "url_parse viaRequest raw =
     (if list_ex ctl_byte raw then None
      else if raw = [] \<and> viaRequest then None
      else if raw = ''*'' then Some (empty_url\<lparr>URLPath := ''*''\<rparr>)
      else case getScheme raw of
        None \<Rightarrow> None
      | Some (sch, rest0) \<Rightarrow>
          let (rest, q, force) = split_query rest0;
              u = empty_url\<lparr>Scheme := ToLower sch, RawQuery := q, ForceQuery := force\<rparr>
          in if \<not> HasPrefix rest ''/'' \<and> sch \<noteq> [] then Some (u\<lparr>Opaque := rest\<rparr>)
             else if \<not> HasPrefix rest ''/'' \<and> viaRequest then None
             else if \<not> HasPrefix rest ''/'' \<and> CHR '':'' \<in> set (fst (cut (CHR ''/'') rest)) then None
             else if (sch \<noteq> [] \<or> \<not> viaRequest \<and> \<not> HasPrefix rest ''///'') \<and> HasPrefix rest ''//'' then
               let authority = takeWhile (\<lambda>c. c \<noteq> CHR ''/'') (drop 2 rest);
                   p = dropWhile (\<lambda>c. c \<noteq> CHR ''/'') (drop 2 rest)
               in case parseAuthority authority of
                    None \<Rightarrow> None
                  | Some (usr, h) \<Rightarrow> setPath p (u\<lparr>User := usr, Host := h\<rparr>)
             else setPath rest u)"

text \<open>\<open>url.Parse\<close>; a fragment has to unescape and is then of no interest to the program.\<close>

definition Parse :: "string \<Rightarrow> URL option" where
  "Parse raw =
     (let (u, frag) = cut (CHR ''#'') raw
      in case url_parse False u of
           None \<Rightarrow> None
         | Some url \<Rightarrow> if unescape encodePath frag = None then None else Some url)"

definition ParseRequestURI :: "string \<Rightarrow> URL option" where
  "ParseRequestURI raw = url_parse True raw"

text \<open>\<open>URL.Hostname\<close>: the host without a valid port, and without brackets.\<close>

definition Hostname :: "URL \<Rightarrow> string" where
  "Hostname u =
     (let h = Host u;
          h' = (case LastIndex h (CHR '':'') of
                  None \<Rightarrow> h
                | Some i \<Rightarrow> if validOptionalPort (drop i h) then take i h else h)
      in if HasPrefix h' ''['' \<and> HasSuffix h' '']'' then butlast (tl h') else h')"

definition userinfo_str :: "(string \<times> string option) option \<Rightarrow> string" where
  "userinfo_str u =
     (case u of
        None \<Rightarrow> []
      | Some (n, p) \<Rightarrow>
          escape encodeUserPassword n @
          (case p of None \<Rightarrow> [] | Some w \<Rightarrow> CHR '':'' # escape encodeUserPassword w) @ ''@'')"

text \<open>\<open>URL.EscapedPath\<close> without a raw path, and \<open>URL.String\<close> for a URL with a scheme and no opaque part.\<close>

definition EscapedPath :: "URL \<Rightarrow> string" where
  "EscapedPath u = (if URLPath u = ''*'' then ''*'' else escape encodePath (URLPath u))"

definition URL_String :: "URL \<Rightarrow> string" where
  "URL_String u =
     Scheme u @ '':'' @
     (if Host u \<noteq> [] \<or> URLPath u \<noteq> [] \<or> User u \<noteq> None
      then ''//'' @ userinfo_str (User u) @ escape encodeHost (Host u) else []) @
     (let p = EscapedPath u
      in (if p \<noteq> [] \<and> hd p \<noteq> CHR ''/'' \<and> Host u \<noteq> [] then CHR ''/'' # p else p)) @
     (if ForceQuery u \<or> RawQuery u \<noteq> [] then CHR ''?'' # RawQuery u else [])"

subsection \<open>strings.TrimSpace\<close>

text \<open>The white-space runes of Unicode, as the byte sequences that encode them.\<close>

definition spaces :: "string list" where
  "spaces =
     [[CHR 0x09], [CHR 0x0A], [CHR 0x0B], [CHR 0x0C], [CHR 0x0D], [CHR 0x20], [CHR 0xC2, CHR 0x85],
      [CHR 0xC2, CHR 0xA0], [CHR 0xE1, CHR 0x9A, CHR 0x80], [CHR 0xE2, CHR 0x80, CHR 0xA8],
      [CHR 0xE2, CHR 0x80, CHR 0xA9], [CHR 0xE2, CHR 0x80, CHR 0xAF],
      [CHR 0xE2, CHR 0x81, CHR 0x9F], [CHR 0xE3, CHR 0x80, CHR 0x80],
      [CHR 0xE2, CHR 0x80, CHR 0x80], [CHR 0xE2, CHR 0x80, CHR 0x81],
      [CHR 0xE2, CHR 0x80, CHR 0x82], [CHR 0xE2, CHR 0x80, CHR 0x83],
      [CHR 0xE2, CHR 0x80, CHR 0x84], [CHR 0xE2, CHR 0x80, CHR 0x85],
      [CHR 0xE2, CHR 0x80, CHR 0x86], [CHR 0xE2, CHR 0x80, CHR 0x87],
      [CHR 0xE2, CHR 0x80, CHR 0x88], [CHR 0xE2, CHR 0x80, CHR 0x89],
      [CHR 0xE2, CHR 0x80, CHR 0x8A]]"

fun trim_left :: "string list \<Rightarrow> nat \<Rightarrow> string \<Rightarrow> string" where
  "trim_left ws 0 s = s"
| "trim_left ws (Suc k) s =
     (case find (HasPrefix s) ws of None \<Rightarrow> s | Some w \<Rightarrow> trim_left ws k (drop (length w) s))"

definition TrimSpace :: "string \<Rightarrow> string" where
  "TrimSpace s =
     (let l = trim_left spaces (length s) s
      in rev (trim_left (map rev spaces) (length l) (rev l)))"

subsection \<open>Lemmas\<close>

lemma hex_digit_upper: "d < 16 \<Longrightarrow> hex_digit (upper_hex d) = Some d"
  by (auto simp: hex_digit_def upper_hex_def Let_def)

lemma unescape_escape_path: "unescape encodePath (escape encodePath s) = Some s"
proof (induction s)
  case (Cons c s)
  have n: "(of_char c :: nat) < 256" by simp
  then have d: "(of_char c :: nat) div 16 < 16" by (simp add: less_mult_imp_div_less)
  have "shouldEscape encodePath (CHR ''%'')" by (simp add: shouldEscape_def alnum_def)
  then show ?case
    using Cons d by (auto simp: escape_def escape1_def hex_digit_upper)
qed (simp add: escape_def)

lemma find_space_None:
  assumes "s \<noteq> []" "(of_char (hd s) :: nat) \<in> {33..127}"
  shows "find (HasPrefix s) spaces = None"
proof -
  obtain c s' where s: "s = c # s'" using assms(1) by (cases s) auto
  have "\<not> HasPrefix s w" if "w \<in> set spaces" for w
    using that assms(2) by (auto simp: s spaces_def HasPrefix_def)
  then show ?thesis by (auto simp: find_None_iff)
qed

lemma find_rev_space_None:
  assumes "s \<noteq> []" "(of_char (hd s) :: nat) \<in> {33..127}"
  shows "find (HasPrefix s) (map rev spaces) = None"
proof -
  obtain c s' where s: "s = c # s'" using assms(1) by (cases s) auto
  have "\<not> HasPrefix s (rev w)" if "w \<in> set spaces" for w
    using that assms(2) by (auto simp: s spaces_def HasPrefix_def)
  then show ?thesis by (auto simp: find_None_iff)
qed

lemma TrimSpace_id:
  assumes "s \<noteq> []" "(of_char (hd s) :: nat) \<in> {33..127}" "(of_char (last s) :: nat) \<in> {33..127}"
  shows "TrimSpace s = s"
proof -
  have stop: "trim_left ws k t = t" if "find (HasPrefix t) ws = None" for ws k t
    using that by (cases k) auto
  have "find (HasPrefix (rev s)) (map rev spaces) = None"
    using assms by (intro find_rev_space_None) (auto simp: hd_rev)
  with find_space_None [OF assms(1,2)] show ?thesis by (simp add: TrimSpace_def stop)
qed

lemma escape_path_inj: "escape encodePath s = escape encodePath t \<longleftrightarrow> s = t"
  by (metis option.inject unescape_escape_path)

text \<open>An escaped path holds no character that would end it.\<close>

lemma escape1_path_delims:
  assumes "d = CHR ''?'' \<or> d = CHR ''#''"
  shows "d \<notin> set (escape1 encodePath c)"
proof (cases "shouldEscape encodePath c")
  case True
  have "(of_char c :: nat) div 16 < 16" "(of_char c :: nat) mod 16 < 16" by (simp_all add: less_mult_imp_div_less)
  then have "hex_digit (upper_hex (of_char c div 16)) \<noteq> None" "hex_digit (upper_hex (of_char c mod 16)) \<noteq> None"
    by (simp_all add: hex_digit_upper)
  moreover have "hex_digit d = None" "d \<noteq> CHR ''%''" using assms by (auto simp: hex_digit_def)
  ultimately show ?thesis using True by (auto simp: escape1_def)
next
  case False
  moreover have "shouldEscape encodePath (CHR ''?'')" "shouldEscape encodePath (CHR ''#'')"
    by (simp_all add: shouldEscape_def alnum_def)
  ultimately show ?thesis using assms by (auto simp: escape1_def)
qed

lemma escape_path_delims: "CHR ''?'' \<notin> set (escape encodePath s)" "CHR ''#'' \<notin> set (escape encodePath s)"
  by (simp_all add: escape_def escape1_path_delims)

lemma escape_append: "escape m (a @ b) = escape m a @ escape m b"
  by (simp add: escape_def)

end
