(* ===== verification/Repo_DB.thy ===== *)
theory Repo_DB
  imports Go_URL Go_OS Go_Crypto "HOL-Library.Multiset"
begin

text \<open>
  pkg's repository databases (\<open>src/internal/daemon/repodb.go\<close>), the check of the configured
  upstream against them (\<open>src/internal/daemon/upstreamcheck.go\<close>) and the composite interface of
  \<open>src/internal/daemon/repository.go\<close>.

  The SQLite driver is a parameter: for each data source name, what the two queries of the program
  return.
  Ranging over a map takes the order as an argument.  The lemmas show that a failed reload keeps
  the old snapshot, that a successful one holds for each name-version the row of the first
  catalogue that has it with the daemon's own catalogue first, that every row that can be
  looked up has a well-formed hash and a positive size, and that no database is opened for writing.
\<close>

subsection \<open>Comparing repository URLs (upstreamcheck.go)\<close>

definition normaliseRepoURL :: "string \<Rightarrow> string option" where
  "normaliseRepoURL raw =
     (case Parse (TrimSpace raw) of
        None \<Rightarrow> None
      | Some u \<Rightarrow>
          if Host u = '''' then None
          else Some (TrimPrefix (Scheme u) ''pkg+'' @ ''://'' @ ToLower (Host u) @ TrimSuffix (URLPath u) ''/''))"

definition isLoopbackURL :: "string \<Rightarrow> bool" where
  "isLoopbackURL normalised =
     (case Parse normalised of
        None \<Rightarrow> False
      | Some u \<Rightarrow>
          Hostname u = ''localhost'' \<or>
          (case ParseIP (Hostname u) of None \<Rightarrow> False | Some ip \<Rightarrow> IsLoopback ip))"

text \<open>
  The loop over the sources: \<open>None\<close> when one of them agrees with the configured upstream, else
  the sources that disagree.
\<close>

fun known_sources :: "string \<Rightarrow> string list \<Rightarrow> string list \<Rightarrow> string list option" where
  "known_sources want known [] = Some known"
| "known_sources want known (raw # raws) =
     (case normaliseRepoURL raw of
        None \<Rightarrow> known_sources want known raws
      | Some got \<Rightarrow>
          if isLoopbackURL got then known_sources want known raws
          else if got = want then None
          else known_sources want (known @ [raw]) raws)"

text \<open>The warning is represented by the values its text is built from.\<close>

record upstream_warning =
  warn_configured :: string
  warn_known :: "string list"

definition UpstreamWarnings :: "string \<Rightarrow> string list \<Rightarrow> upstream_warning list" where
  "UpstreamWarnings configured raws =
     (case normaliseRepoURL configured of
        None \<Rightarrow> []
      | Some want \<Rightarrow>
          (case known_sources want [] raws of
             None \<Rightarrow> []
           | Some known \<Rightarrow>
               if length known = 0 then []
               else [\<lparr>warn_configured = configured, warn_known = sort known\<rparr>]))"

subsection \<open>Reading one catalogue\<close>

record repoRow =
  row_hash :: string
  row_size :: int

record packages_row =
  col_name :: string
  col_version :: string
  col_pkgsize :: int
  col_cksum :: string

text \<open>
  What \<open>database/sql\<close> delivers for the two queries on a data source name.  A row that cannot be scanned is \<open>None\<close>; the
  flag is the verdict of \<open>rows.Err\<close>.
\<close>

datatype packages_query =
    OpenFailed
  | QueryFailed
  | Rows "packages_row option list" bool

datatype source_query = SourceFailed | SourceNoRow | SourceRow string

record sqlite =
  q_packages :: "string \<Rightarrow> packages_query"
  q_source :: "string \<Rightarrow> source_query"

datatype load_error = ErrOpening | ErrQuerying | ErrScanning | ErrReading

record skippedRows =
  badCksum :: "string list"
  badPkgSize :: "string list"

definition cksumHexLen :: nat where "cksumHexLen = 64"

definition isHexSHA256 :: "string \<Rightarrow> bool" where
  "isHexSHA256 s \<longleftrightarrow>
     length s = cksumHexLen \<and>
     list_all (\<lambda>c. let n = (of_char c :: nat) in \<not> ((n < 48 \<or> n > 57) \<and> (n < 97 \<or> n > 102))) s"

fun load_rows ::
  "packages_row option list \<Rightarrow> (string \<rightharpoonup> repoRow) \<Rightarrow> skippedRows
     \<Rightarrow> ((string \<rightharpoonup> repoRow) \<times> skippedRows) option" where
  "load_rows [] out skipped = Some (out, skipped)"
| "load_rows (None # rs) out skipped = None"
| "load_rows (Some r # rs) out skipped =
     (let nameVersion = col_name r @ ''-'' @ col_version r
      in if \<not> isHexSHA256 (col_cksum r)
           then load_rows rs out (skipped\<lparr>badCksum := badCksum skipped @ [nameVersion]\<rparr>)
         else if col_pkgsize r \<le> 0
           then load_rows rs out (skipped\<lparr>badPkgSize := badPkgSize skipped @ [nameVersion]\<rparr>)
         else load_rows rs (out(nameVersion \<mapsto> \<lparr>row_hash = col_cksum r, row_size = col_pkgsize r\<rparr>)) skipped)"

definition readOnlyDSN :: "string \<Rightarrow> string" where
  "readOnlyDSN p = URL_String (empty_url\<lparr>Scheme := ''file'', URLPath := p, RawQuery := ''mode=ro&_pragma=query_only(1)''\<rparr>)"

definition loadRepositoryDatabase ::
  "sqlite \<Rightarrow> string \<Rightarrow> load_error + ((string \<rightharpoonup> repoRow) \<times> skippedRows)" where
  "loadRepositoryDatabase db p =
     (case q_packages db (readOnlyDSN p) of
        OpenFailed \<Rightarrow> Inl ErrOpening
      | QueryFailed \<Rightarrow> Inl ErrQuerying
      | Rows rs failed \<Rightarrow>
          (case load_rows rs Map.empty \<lparr>badCksum = [], badPkgSize = []\<rparr> of
             None \<Rightarrow> Inl ErrScanning
           | Some r \<Rightarrow> if failed then Inl ErrReading else Inr r))"

definition loadRepositorySource :: "sqlite \<Rightarrow> string \<Rightarrow> string option" where
  "loadRepositorySource db p =
     (case q_source db (readOnlyDSN p) of SourceFailed \<Rightarrow> None | SourceNoRow \<Rightarrow> Some '''' | SourceRow u \<Rightarrow> Some u)"

subsection \<open>The snapshot\<close>

record Repositories =
  repo_dir :: string
  rows :: "string \<rightharpoonup> repoRow"
  sources :: "string \<rightharpoonup> string"

definition repoDBFile :: string where "repoDBFile = ''db''"

text \<open>\<open>os.ReadDir\<close> follows a link to the directory; \<open>e.IsDir()\<close> does not follow links.\<close>

definition repositoryDatabases :: "node \<Rightarrow> string \<Rightarrow> string list option" where
  "repositoryDatabases root d =
     (case os_Stat root d of
        Some (Directory True es) \<Rightarrow>
          Some (sort (filter (\<lambda>p. case os_Stat root p of Some (Regular _) \<Rightarrow> True | _ \<Rightarrow> False)
            (map (\<lambda>(x, n). Join2 (Join2 d x) repoDBFile) (filter (\<lambda>(x, n). IsDir n) es))))
      | _ \<Rightarrow> None)"

definition read_sources :: "sqlite \<Rightarrow> string list \<Rightarrow> string \<rightharpoonup> string" where
  "read_sources db paths =
     fold (\<lambda>p m. case loadRepositorySource db p of
                   Some src \<Rightarrow> if src \<noteq> '''' then m(p \<mapsto> src) else m
                 | None \<Rightarrow> m) paths Map.empty"

definition is_ours :: "(string \<rightharpoonup> string) \<Rightarrow> string \<Rightarrow> bool" where
  "is_ours srcs p =
     (case srcs p of
        None \<Rightarrow> False
      | Some src \<Rightarrow> (case normaliseRepoURL src of None \<Rightarrow> False | Some n \<Rightarrow> isLoopbackURL n))"

definition ownCatalogueFirst :: "string list \<Rightarrow> (string \<rightharpoonup> string) \<Rightarrow> string list" where
  "ownCatalogueFirst paths srcs =
     (let ours = filter (is_ours srcs) paths; theirs = filter (\<lambda>p. \<not> is_ours srcs p) paths
      in if length ours = 0 then paths else ours @ theirs)"

text \<open>One step of the merge: the first row wins; a later, different row is noted as a conflict.\<close>

definition merge_row ::
  "(string \<rightharpoonup> repoRow) \<Rightarrow> string \<Rightarrow> (string \<rightharpoonup> repoRow) \<times> string list \<Rightarrow> (string \<rightharpoonup> repoRow) \<times> string list" where
  "merge_row loaded nv acc =
     (case (fst acc nv, loaded nv) of
        (Some existing, row) \<Rightarrow> if Some existing \<noteq> row then (fst acc, snd acc @ [nv]) else acc
      | (None, row) \<Rightarrow> ((fst acc)(nv := row), snd acc))"

fun merge_catalogues ::
  "sqlite \<Rightarrow> (string \<Rightarrow> string list) \<Rightarrow> string list \<Rightarrow> (string \<rightharpoonup> repoRow) \<times> string list
     \<Rightarrow> (string \<times> load_error) + ((string \<rightharpoonup> repoRow) \<times> string list)" where
  "merge_catalogues db order [] acc = Inr acc"
| "merge_catalogues db order (p # ps) acc =
     (case loadRepositoryDatabase db p of
        Inl e \<Rightarrow> Inl (p, e)
      | Inr (loaded, skipped) \<Rightarrow> merge_catalogues db order ps (fold (merge_row loaded) (order p) acc))"

datatype reload_error = ErrReadDir | ErrNoDatabase | ErrLoad string load_error

definition Reload ::
  "node \<Rightarrow> sqlite \<Rightarrow> (string \<Rightarrow> string list) \<Rightarrow> Repositories \<Rightarrow> reload_error option \<times> Repositories" where
  "Reload root db order r =
     (case repositoryDatabases root (repo_dir r) of
        None \<Rightarrow> (Some ErrReadDir, r)
      | Some paths \<Rightarrow>
          if length paths = 0 then (Some ErrNoDatabase, r)
          else
            let srcs = read_sources db paths
            in case merge_catalogues db order (ownCatalogueFirst paths srcs) (Map.empty, []) of
                 Inl (p, e) \<Rightarrow> (Some (ErrLoad p e), r)
               | Inr (merged, conflicts) \<Rightarrow> (None, r\<lparr>rows := merged, sources := srcs\<rparr>))"

definition OpenRepositories ::
  "node \<Rightarrow> sqlite \<Rightarrow> (string \<Rightarrow> string list) \<Rightarrow> string \<Rightarrow> reload_error + Repositories" where
  "OpenRepositories root db order d =
     (case Reload root db order \<lparr>repo_dir = d, rows = Map.empty, sources = Map.empty\<rparr> of
        (Some e, _) \<Rightarrow> Inl e
      | (None, r) \<Rightarrow> Inr r)"

definition Sources :: "Repositories \<Rightarrow> string \<rightharpoonup> string" where
  "Sources r = sources r"

definition ExpectedHash :: "Repositories \<Rightarrow> string \<Rightarrow> string option" where
  "ExpectedHash r nameVersion = map_option row_hash (rows r nameVersion)"

definition ExpectedFileSizeBytes :: "Repositories \<Rightarrow> string \<Rightarrow> int option" where
  "ExpectedFileSizeBytes r nameVersion = map_option row_size (rows r nameVersion)"

definition Repositories_Len :: "Repositories \<Rightarrow> nat" where
  "Repositories_Len r = card (dom (rows r))"

definition logNameLimit :: nat where "logNameLimit = 10"

definition namesForLog :: "string list \<Rightarrow> string" where
  "namesForLog keys =
     (let sorted = sort keys
      in if length sorted \<le> logNameLimit then Join sorted '', ''
         else Join (take logNameLimit sorted) '', '' @ '' and '' @
              Itoa (int (length sorted - logNameLimit)) @ '' more'')"

subsection \<open>The rows of one catalogue\<close>

definition loaded_rows :: "sqlite \<Rightarrow> string \<Rightarrow> string \<rightharpoonup> repoRow" where
  "loaded_rows db p = (case loadRepositoryDatabase db p of Inl _ \<Rightarrow> Map.empty | Inr (m, _) \<Rightarrow> m)"

definition sound_row :: "repoRow \<Rightarrow> bool" where
  "sound_row row \<longleftrightarrow> isHexSHA256 (row_hash row) \<and> row_size row > 0"

lemma readOnlyDSN_rooted:
  "readOnlyDSN (CHR ''/'' # p) = ''file://'' @ escape encodePath (CHR ''/'' # p) @ ''?mode=ro&_pragma=query_only(1)''"
  by (simp add: readOnlyDSN_def URL_String_def EscapedPath_def empty_url_def userinfo_str_def escape_def)

lemma readOnlyDSN_rooted_inj: "readOnlyDSN (CHR ''/'' # p) = readOnlyDSN (CHR ''/'' # q) \<longleftrightarrow> p = q"
  by (simp add: readOnlyDSN_rooted escape_path_inj)

text \<open>
  C30: The databases are opened read-only.  Whatever the directories are called, the name given to the driver
  has the fixed query that forbids writing and no other parameter, no fragment, and the database's own
  absolute path.\<close>

theorem databases_are_opened_read_only:
  assumes "HasPrefix p ''/''"
  shows "\<exists>path. cut (CHR ''?'') (readOnlyDSN p) = (''file://'' @ path, ''mode=ro&_pragma=query_only(1)'') \<and>
    unescape encodePath path = Some p \<and> HasPrefix path ''/'' \<and> CHR ''#'' \<notin> set path"
proof -
  obtain p' where p: "p = CHR ''/'' # p'" using assms by (auto simp: HasPrefix_iff)
  let ?path = "escape encodePath p"
  have "HasPrefix ?path ''/''" by (simp add: p escape_def escape1_def shouldEscape_def alnum_def HasPrefix_iff)
  moreover have "cut (CHR ''?'') (readOnlyDSN p) = (''file://'' @ ?path, ''mode=ro&_pragma=query_only(1)'')"
    using escape_path_delims(1) [of p] unfolding p readOnlyDSN_rooted
    by (simp add: cut_def takeWhile_append dropWhile_append)
  ultimately show ?thesis using escape_path_delims(2) [of p] unescape_escape_path by blast
qed

text \<open>A relative directory is different: its first element stands where a URI has its authority.\<close>

lemma relative_directory_becomes_authority:
  "readOnlyDSN ''repos/a/db'' = ''file://'' @ ''repos'' @ ''/a/db?mode=ro&_pragma=query_only(1)''"
  by (simp add: readOnlyDSN_def URL_String_def EscapedPath_def empty_url_def userinfo_str_def escape_def escape1_def
      shouldEscape_def alnum_def)

theorem databases_are_opened_read_only_witness:
  "\<exists>path. cut (CHR ''?'') (readOnlyDSN ''/r?mode=rw/db'') = (''file://'' @ path, ''mode=ro&_pragma=query_only(1)'') \<and>
    unescape encodePath path = Some ''/r?mode=rw/db''"
  using databases_are_opened_read_only [of "''/r?mode=rw/db''"] by (auto simp: HasPrefix_def)

lemma load_rows_sound:
  "load_rows rs out sk = Some (out', sk') \<Longrightarrow> (\<And>row. row \<in> ran out \<Longrightarrow> sound_row row) \<Longrightarrow>
   row \<in> ran out' \<Longrightarrow> sound_row row"
proof (induction rs arbitrary: out sk)
  case (Cons q rs)
  from Cons.prems(1) obtain r where r: "q = Some r" by (cases q) auto
  let ?row = "\<lparr>row_hash = col_cksum r, row_size = col_pkgsize r\<rparr>"
  let ?out = "out(col_name r @ ''-'' @ col_version r \<mapsto> ?row)"
  show ?case
  proof (cases "isHexSHA256 (col_cksum r) \<and> col_pkgsize r > 0")
    case True
    have "sound_row x" if "x \<in> ran ?out" for x
      using that True Cons.prems(2) by (auto simp: ran_def sound_row_def split: if_splits)
    moreover have "load_rows rs ?out sk = Some (out', sk')"
      using Cons.prems(1) True r by (simp add: Let_def)
    ultimately show ?thesis using Cons.IH Cons.prems(3) by blast
  next
    case False
    then obtain sk1 where "load_rows rs out sk1 = Some (out', sk')"
      using Cons.prems(1) r by (auto simp: Let_def not_less split: if_splits)
    from Cons.IH [OF this Cons.prems(2,3)] show ?thesis .
  qed
qed simp

lemma loaded_rows_sound: "loaded_rows db p nv = Some row \<Longrightarrow> sound_row row"
  by (auto simp: loaded_rows_def loadRepositoryDatabase_def intro: load_rows_sound ranI
      split: packages_query.splits option.splits if_splits)

lemma sound_row_hash: "isHexSHA256 s \<longleftrightarrow> length s = 64 \<and> list_all lower_hex s"
proof -
  have "(let n = (of_char c :: nat) in \<not> ((n < 48 \<or> n > 57) \<and> (n < 97 \<or> n > 102))) \<longleftrightarrow> lower_hex c" for c
    by (auto simp: lower_hex_def Let_def)
  then show ?thesis by (simp add: isHexSHA256_def cksumHexLen_def)
qed

subsection \<open>The merge\<close>

text \<open>The row of the first catalogue in the list that has one.\<close>

fun first_row :: "sqlite \<Rightarrow> string list \<Rightarrow> string \<Rightarrow> repoRow option" where
  "first_row db [] nv = None"
| "first_row db (p # ps) nv = (case loaded_rows db p nv of Some row \<Rightarrow> Some row | None \<Rightarrow> first_row db ps nv)"

lemma fold_merge_row:
  "fst (fold (merge_row loaded) ks acc) nv =
     (case fst acc nv of Some x \<Rightarrow> Some x | None \<Rightarrow> if nv \<in> set ks then loaded nv else None)"
proof (induction ks arbitrary: acc)
  case (Cons k ks)
  show ?case unfolding fold_simps Cons.IH
    by (auto simp: merge_row_def split: option.splits)
qed (simp split: option.splits)

lemma merge_catalogues_rows:
  assumes "\<And>p. p \<in> set ps \<Longrightarrow> range_order (order p) (dom (loaded_rows db p))"
    "merge_catalogues db order ps acc = Inr acc'"
  shows "fst acc' nv = (case fst acc nv of Some x \<Rightarrow> Some x | None \<Rightarrow> first_row db ps nv)"
  using assms
proof (induction ps arbitrary: acc)
  case (Cons p ps)
  obtain m sk where l: "loadRepositoryDatabase db p = Inr (m, sk)"
    using Cons.prems(2) by (cases "loadRepositoryDatabase db p") auto
  then have m: "m = loaded_rows db p" by (simp add: loaded_rows_def)
  have k: "set (order p) = dom m" using Cons.prems(1) [of p] m by (auto simp: range_order_def)
  have "fst acc' nv = (case fst (fold (merge_row m) (order p) acc) nv of
      Some x \<Rightarrow> Some x | None \<Rightarrow> first_row db ps nv)"
    using Cons.prems l by (intro Cons.IH) auto
  then show ?case unfolding fold_merge_row k using m by (auto split: option.splits)
qed (simp split: option.splits)

lemma merge_catalogues_ok:
  "(\<exists>acc'. merge_catalogues db order ps acc = Inr acc') \<longleftrightarrow>
     (\<forall>p \<in> set ps. \<exists>x. loadRepositoryDatabase db p = Inr x)"
  by (induction ps arbitrary: acc) (auto split: sum.splits)

lemma set_ownCatalogueFirst: "set (ownCatalogueFirst paths srcs) = set paths"
  by (auto simp: ownCatalogueFirst_def Let_def)

lemma first_row_append: "first_row db (ps @ qs) nv = (case first_row db ps nv of Some r \<Rightarrow> Some r | None \<Rightarrow> first_row db qs nv)"
  by (induction ps) (auto split: option.splits)

lemma first_row_sound: "first_row db ps nv = Some row \<Longrightarrow> sound_row row"
  by (induction ps) (auto intro: loaded_rows_sound split: option.splits)

text \<open>
  C27: What a reload does.  It succeeds exactly when the directory lists at least one database and
  every database can be read; then each name-version has the row of the first catalogue that
  lists it, catalogues recorded under a loopback address (this daemon's own) coming before all
  others.  When it fails, the previous snapshot is untouched.\<close>

theorem reload_spec:
  assumes "Reload root db order r = (err, r')"
    and "\<And>p. range_order (order p) (dom (loaded_rows db p))"
  shows "(case repositoryDatabases root (repo_dir r) of
      None \<Rightarrow> err = Some ErrReadDir \<and> r' = r
    | Some paths \<Rightarrow>
        if paths = [] \<or> (\<exists>p \<in> set paths. \<exists>e. loadRepositoryDatabase db p = Inl e) then err \<noteq> None \<and> r' = r
        else err = None \<and> repo_dir r' = repo_dir r \<and> sources r' = read_sources db paths \<and>
          (\<forall>nv. rows r' nv =
             (case first_row db (filter (is_ours (read_sources db paths)) paths) nv of
                Some row \<Rightarrow> Some row
              | None \<Rightarrow> first_row db (filter (\<lambda>p. \<not> is_ours (read_sources db paths) p) paths) nv)))"
proof (cases "repositoryDatabases root (repo_dir r)")
  case None
  with assms(1) show ?thesis by (simp add: Reload_def)
next
  case (Some paths)
  let ?srcs = "read_sources db paths" let ?ps = "ownCatalogueFirst paths ?srcs"
  show ?thesis
  proof (cases "\<exists>acc. merge_catalogues db order ?ps (Map.empty, []) = Inr acc")
    case True
    then obtain m c where acc: "merge_catalogues db order ?ps (Map.empty, []) = Inr (m, c)" by auto
    have m: "m nv = first_row db ?ps nv" for nv
      using merge_catalogues_rows [OF assms(2) acc, of nv] by simp
    have ordered: "first_row db ?ps nv = (case first_row db (filter (is_ours ?srcs) paths) nv of
        Some row \<Rightarrow> Some row | None \<Rightarrow> first_row db (filter (\<lambda>p. \<not> is_ours ?srcs p) paths) nv)" for nv
    proof (cases "filter (is_ours ?srcs) paths = []")
      case empty: True
      then have "filter (\<lambda>p. \<not> is_ours ?srcs p) paths = paths" by (simp add: filter_empty_conv)
      with empty show ?thesis by (simp add: ownCatalogueFirst_def)
    next
      case False
      then show ?thesis by (simp add: ownCatalogueFirst_def first_row_append)
    qed
    from True have "\<forall>p \<in> set paths. \<exists>x. loadRepositoryDatabase db p = Inr x"
      using merge_catalogues_ok [of db order ?ps] by (simp add: set_ownCatalogueFirst)
    then have "\<not> (\<exists>p \<in> set paths. \<exists>e. loadRepositoryDatabase db p = Inl e)" by force
    then show ?thesis
      using assms(1) Some acc m ordered by (auto simp: Reload_def Let_def)
  next
    case False
    then obtain p e where e: "merge_catalogues db order ?ps (Map.empty, []) = Inl (p, e)"
      by (metis sumE surj_pair)
    have "\<exists>p \<in> set paths. \<exists>e. loadRepositoryDatabase db p = Inl e"
      using False merge_catalogues_ok [of db order ?ps] set_ownCatalogueFirst by (metis sumE)
    with assms(1) Some e show ?thesis by (auto simp: Reload_def Let_def split: if_splits)
  qed
qed

text \<open>
  No row the daemon could look up is unusable: in every snapshot a successful reload
  produces, the hash is 64 lowercase hexadecimal digits and the size is positive, and hash and
  size of a name-version are present together or absent together.\<close>

theorem reload_rows_sound:
  assumes "Reload root db order r = (None, r')"
    and "\<And>p. range_order (order p) (dom (loaded_rows db p))"
  shows "(ExpectedHash r' nv = Some h \<longrightarrow> length h = 64 \<and> list_all lower_hex h) \<and>
    (ExpectedFileSizeBytes r' nv = Some n \<longrightarrow> 0 < n) \<and>
    (ExpectedHash r' nv = None \<longleftrightarrow> ExpectedFileSizeBytes r' nv = None)"
proof -
  obtain paths acc where acc: "merge_catalogues db order paths (Map.empty, []) = Inr acc" "rows r' = fst acc"
    using assms(1) by (auto simp: Reload_def Let_def split: option.splits if_splits sum.splits)
  have "rows r' nv = first_row db paths nv"
    using merge_catalogues_rows [OF assms(2) acc(1), of nv] acc(2) by simp
  then show ?thesis
    using first_row_sound [of db paths nv]
    by (auto simp: ExpectedHash_def ExpectedFileSizeBytes_def sound_row_def sound_row_hash)
qed

subsection \<open>The composite interface\<close>

text \<open>
  \<open>Repository\<close> promises that the two views of a name-version come from one row.
\<close>

locale repository_view =
  fixes exp_hash :: "string \<Rightarrow> string option"
    and exp_size :: "string \<Rightarrow> int option"
    and row :: "string \<Rightarrow> repoRow option"
  assumes hash_of_row: "exp_hash nv = map_option row_hash (row nv)"
    and size_of_row: "exp_size nv = map_option row_size (row nv)"
begin

lemma both_or_neither: "exp_hash nv = None \<longleftrightarrow> exp_size nv = None"
  by (simp add: hash_of_row size_of_row)

lemma together: "exp_hash nv = Some h \<Longrightarrow> \<exists>n. exp_size nv = Some n \<and> row nv = Some \<lparr>row_hash = h, row_size = n\<rparr>"
  by (cases "row nv") (auto simp: hash_of_row size_of_row)

end

interpretation snapshot: repository_view "ExpectedHash r" "ExpectedFileSizeBytes r" "rows r" for r
  by unfold_locales (simp_all add: ExpectedHash_def ExpectedFileSizeBytes_def)

subsection \<open>The upstream warning\<close>

definition foreign :: "string list \<Rightarrow> string list" where
  "foreign raws =
     filter (\<lambda>raw. case normaliseRepoURL raw of None \<Rightarrow> False | Some got \<Rightarrow> \<not> isLoopbackURL got) raws"

lemma known_sources_eq:
  "known_sources want known raws =
     (if \<exists>raw \<in> set (foreign raws). normaliseRepoURL raw = Some want then None
      else Some (known @ foreign raws))"
  by (induction raws arbitrary: known) (auto simp: foreign_def split: option.splits)

lemma sort_mset: "mset xs = mset ys \<Longrightarrow> sort xs = sort (ys :: string list)"
  by (metis mset_sort properties_for_sort sorted_sort)

text \<open>
  The upstream check warns when and only when pkg has fetched from some real repository and
  the configured upstream is none of them; loopback sources and unusable URLs count for nothing,
  the warning lists the real sources in order, and the order in which the map of sources is
  visited does not matter.\<close>

theorem upstream_warning_spec:
  "UpstreamWarnings configured raws =
     (if (\<exists>want. normaliseRepoURL configured = Some want \<and> foreign raws \<noteq> [] \<and>
            (\<forall>raw \<in> set (foreign raws). normaliseRepoURL raw \<noteq> Some want))
      then [\<lparr>warn_configured = configured, warn_known = sort (foreign raws)\<rparr>] else [])
   \<and> (mset raws = mset raws' \<longrightarrow> UpstreamWarnings configured raws = UpstreamWarnings configured raws')"
proof -
  have eq: "UpstreamWarnings configured raws =
     (if (\<exists>want. normaliseRepoURL configured = Some want \<and> foreign raws \<noteq> [] \<and>
            (\<forall>raw \<in> set (foreign raws). normaliseRepoURL raw \<noteq> Some want))
      then [\<lparr>warn_configured = configured, warn_known = sort (foreign raws)\<rparr>] else [])" for raws
    by (auto simp: UpstreamWarnings_def known_sources_eq split: option.splits if_splits)
  moreover have "mset (foreign raws) = mset (foreign raws')" if "mset raws = mset raws'"
    using that by (simp add: foreign_def)
  then have "sort (foreign raws) = sort (foreign raws') \<and> set (foreign raws) = set (foreign raws') \<and>
      (foreign raws = [] \<longleftrightarrow> foreign raws' = [])" if "mset raws = mset raws'"
    using that by (metis mset_zero_iff set_mset_mset sort_mset)
  ultimately show ?thesis by auto
qed

lemmas url_eval = Parse_def cut_def url_parse_def ctl_byte_def getScheme_def scheme_char_def is_letter_def
  Let_def split_query_def HasSuffix_def HasPrefix_def ToLower_def ascii_lower_def parseAuthority_def
  parseHost_def setPath_def shouldEscape_def alnum_def empty_url_def is_digit_def validOptionalPort_def
  Hostname_def

lemmas repo_url_eval = normaliseRepoURL_def TrimSpace_id TrimPrefix_def TrimSuffix_def url_eval

theorem upstream_warning_spec_witness:
  "UpstreamWarnings ''https://a.org/x'' [''http://127.0.0.1:9001/x'', ''pkg+https://A.org/y/'']
     = [\<lparr>warn_configured = ''https://a.org/x'', warn_known = [''pkg+https://A.org/y/'']\<rparr>]
   \<and> UpstreamWarnings ''https://a.org/x'' [''http://127.0.0.1:9001/x'', ''pkg+https://A.org/y/'']
     = UpstreamWarnings ''https://a.org/x'' [''pkg+https://A.org/y/'', ''http://127.0.0.1:9001/x'']"
proof -
  have "char_of (97 :: nat) = CHR ''a''" by code_simp
  then have n: "normaliseRepoURL ''https://a.org/x'' = Some ''https://a.org/x''"
    "normaliseRepoURL ''pkg+https://A.org/y/'' = Some ''https://a.org/y''"
    "normaliseRepoURL ''http://127.0.0.1:9001/x'' = Some ''http://127.0.0.1:9001/x''"
    by (simp_all add: repo_url_eval)
  have l: "isLoopbackURL ''http://127.0.0.1:9001/x''" "\<not> isLoopbackURL ''https://a.org/y''"
    by (simp_all add: isLoopbackURL_def url_eval ParseIP_def parseIPv4_def v4_field_def dec_value_def
        IsLoopback_def To4_def)
  have f: "foreign [''http://127.0.0.1:9001/x'', ''pkg+https://A.org/y/''] = [''pkg+https://A.org/y/'']"
    by (simp add: foreign_def n l)
  show ?thesis
    using upstream_warning_spec [of "''https://a.org/x''"
      "[''http://127.0.0.1:9001/x'', ''pkg+https://A.org/y/'']"
      "[''pkg+https://A.org/y/'', ''http://127.0.0.1:9001/x'']"]
    unfolding f by (auto simp: n add_mset_commute)
qed


text \<open>Two catalogues that disagree on one package; the second is the daemon's own.\<close>

definition demo_hash :: "char \<Rightarrow> string" where "demo_hash c = replicate 64 c"

definition demo_sqlite :: sqlite where
  "demo_sqlite =
     \<lparr>q_packages = (\<lambda>dsn. Rows [Some \<lparr>col_name = ''zip'', col_version = ''3'', col_pkgsize = 3,
          col_cksum = demo_hash (if dsn = readOnlyDSN ''/r/jmj/db'' then CHR ''a'' else CHR ''b'')\<rparr>] False),
      q_source = (\<lambda>dsn. SourceRow (if dsn = readOnlyDSN ''/r/jmj/db'' then ''http://127.0.0.1:9001/x'' else ''https://a.org/x''))\<rparr>"

definition demo_repo_root :: node where
  "demo_repo_root = Directory True [(''r'', Directory True
     [(''a'', Directory True [(''db'', Regular [])]), (''jmj'', Directory True [(''db'', Regular [])])])]"

definition demo_repo :: Repositories where
  "demo_repo = \<lparr>repo_dir = ''/r'', rows = Map.empty, sources = Map.empty\<rparr>"

lemma demo_loaded: "loaded_rows demo_sqlite p =
   [''zip-3'' \<mapsto> \<lparr>row_hash = demo_hash (if readOnlyDSN p = readOnlyDSN ''/r/jmj/db'' then CHR ''a'' else CHR ''b''), row_size = 3\<rparr>]"
proof -
  have "isHexSHA256 (demo_hash (CHR ''a''))" "isHexSHA256 (demo_hash (CHR ''b''))"
    by (simp_all add: sound_row_hash demo_hash_def lower_hex_def list_all_iff)
  then show ?thesis by (simp add: loaded_rows_def loadRepositoryDatabase_def demo_sqlite_def)
qed

lemma demo_databases: "repositoryDatabases demo_repo_root ''/r'' = Some [''/r/a/db'', ''/r/jmj/db'']"
  by (simp add: repositoryDatabases_def os_Stat_def rooted_segs_def demo_repo_root_def IsDir_def
      Join2_def Clean_def repoDBFile_def)

lemma demo_read_sources: "read_sources demo_sqlite [''/r/a/db'', ''/r/jmj/db''] =
    [''/r/a/db'' \<mapsto> ''https://a.org/x'', ''/r/jmj/db'' \<mapsto> ''http://127.0.0.1:9001/x'']"
  by (simp add: read_sources_def loadRepositorySource_def demo_sqlite_def readOnlyDSN_rooted_inj)

lemma demo_ours: "is_ours (read_sources demo_sqlite [''/r/a/db'', ''/r/jmj/db'']) ''/r/jmj/db''"
  "\<not> is_ours (read_sources demo_sqlite [''/r/a/db'', ''/r/jmj/db'']) ''/r/a/db''"
proof -
  have "normaliseRepoURL ''https://a.org/x'' = Some ''https://a.org/x''"
    "normaliseRepoURL ''http://127.0.0.1:9001/x'' = Some ''http://127.0.0.1:9001/x''"
    by (simp_all add: repo_url_eval)
  moreover have "isLoopbackURL ''http://127.0.0.1:9001/x''" "\<not> isLoopbackURL ''https://a.org/x''"
    by (simp_all add: isLoopbackURL_def url_eval ParseIP_def parseIPv4_def v4_field_def dec_value_def
        IsLoopback_def To4_def)
  ultimately show "is_ours (read_sources demo_sqlite [''/r/a/db'', ''/r/jmj/db'']) ''/r/jmj/db''"
    "\<not> is_ours (read_sources demo_sqlite [''/r/a/db'', ''/r/jmj/db'']) ''/r/a/db''"
    by (simp_all add: is_ours_def demo_read_sources)
qed

lemma demo_order: "range_order [''zip-3''] (dom (loaded_rows demo_sqlite p))"
  by (simp add: demo_loaded range_order_def)

lemma demo_load_ok: "\<exists>x. loadRepositoryDatabase demo_sqlite p = Inr x"
  using fun_cong [OF demo_loaded [of p], of "''zip-3''"]
  by (cases "loadRepositoryDatabase demo_sqlite p") (auto simp: loaded_rows_def)

theorem reload_spec_witness:
  "fst (Reload demo_repo_root demo_sqlite (\<lambda>_. [''zip-3'']) demo_repo) = None \<and>
   rows (snd (Reload demo_repo_root demo_sqlite (\<lambda>_. [''zip-3'']) demo_repo)) ''zip-3'' =
     Some \<lparr>row_hash = demo_hash (CHR ''a''), row_size = 3\<rparr>"
proof -
  obtain err r' where r: "Reload demo_repo_root demo_sqlite (\<lambda>_. [''zip-3'']) demo_repo = (err, r')" by fastforce
  have "\<not> (\<exists>p \<in> set [''/r/a/db'', ''/r/jmj/db'']. \<exists>e. loadRepositoryDatabase demo_sqlite p = Inl e)"
    using demo_load_ok by (metis sum.distinct(1))
  with reload_spec [OF r demo_order] demo_databases demo_ours have "err = None \<and>
      rows r' ''zip-3'' = Some \<lparr>row_hash = demo_hash (CHR ''a''), row_size = 3\<rparr>"
    by (auto simp: demo_repo_def demo_loaded)
  then show ?thesis by (simp add: r)
qed

lemma demo_reload_ok:
  "\<exists>r'. Reload demo_repo_root demo_sqlite (\<lambda>_. [''zip-3'']) demo_repo = (None, r')"
proof -
  have "\<forall>p \<in> set (ownCatalogueFirst [''/r/a/db'', ''/r/jmj/db'']
      (read_sources demo_sqlite [''/r/a/db'', ''/r/jmj/db''])). \<exists>x. loadRepositoryDatabase demo_sqlite p = Inr x"
    using demo_load_ok by blast
  then obtain acc where "merge_catalogues demo_sqlite (\<lambda>_. [''zip-3'']) (ownCatalogueFirst [''/r/a/db'', ''/r/jmj/db'']
      (read_sources demo_sqlite [''/r/a/db'', ''/r/jmj/db''])) (Map.empty, []) = Inr acc"
    using merge_catalogues_ok by blast
  with demo_databases show ?thesis by (cases acc) (simp add: Reload_def demo_repo_def Let_def)
qed

theorem reload_rows_sound_witness:
  "length (demo_hash (CHR ''a'')) = 64 \<and>
   (ExpectedHash (snd (Reload demo_repo_root demo_sqlite (\<lambda>_. [''zip-3'']) demo_repo)) ''zip-3'' = None \<longleftrightarrow>
    ExpectedFileSizeBytes (snd (Reload demo_repo_root demo_sqlite (\<lambda>_. [''zip-3'']) demo_repo)) ''zip-3'' = None)"
proof -
  obtain r' where r: "Reload demo_repo_root demo_sqlite (\<lambda>_. [''zip-3'']) demo_repo = (None, r')"
    using demo_reload_ok by blast
  from reload_rows_sound [OF r demo_order] show ?thesis by (simp add: r demo_hash_def)
qed

end
