(* ===== verification/Go_Header.thy ===== *)
theory Go_Header
  imports Go_Http Go_URL
begin

text \<open>\<open>net/http.Header\<close>: a map from canonical names to lists of values, as an association list.\<close>

definition token_char :: "char \<Rightarrow> bool" where
  "token_char c \<longleftrightarrow> alnum c \<or> c \<in> set ''!#$%&*+-.^_`|~'' \<or> c = CHR 0x27"

definition ascii_upper :: "char \<Rightarrow> char" where
  "ascii_upper c = (let n = (of_char c :: nat) in if 97 \<le> n \<and> n \<le> 122 then char_of (n - 32) else c)"

fun canonical :: "bool \<Rightarrow> string \<Rightarrow> string" where
  "canonical up [] = []"
| "canonical up (c # s) = (if up then ascii_upper c else ascii_lower c) # canonical (c = CHR ''-'') s"

definition CanonicalHeaderKey :: "string \<Rightarrow> string" where
  "CanonicalHeaderKey s = (if list_all token_char s then canonical True s else s)"

definition header_values :: "headers \<Rightarrow> string \<Rightarrow> string list" where
  "header_values h k = (case map_of h (CanonicalHeaderKey k) of None \<Rightarrow> [] | Some vs \<Rightarrow> vs)"

definition header_get :: "headers \<Rightarrow> string \<Rightarrow> string" where
  "header_get h k = (case header_values h k of [] \<Rightarrow> [] | v # _ \<Rightarrow> v)"

text \<open>\<open>Header.Add\<close> appends to the values of a name, creating it when it is new.\<close>

fun header_append :: "headers \<Rightarrow> string \<Rightarrow> string \<Rightarrow> headers" where
  "header_append [] k v = [(k, [v])]"
| "header_append ((k', vs) # h) k v = (if k' = k then (k', vs @ [v]) # h else (k', vs) # header_append h k v)"

definition header_add :: "headers \<Rightarrow> string \<Rightarrow> string \<Rightarrow> headers" where
  "header_add h name v = header_append h (CanonicalHeaderKey name) v"

lemma map_of_header_append:
  "map_of (header_append h k v) =
     (map_of h)(k \<mapsto> (case map_of h k of None \<Rightarrow> [v] | Some vs \<Rightarrow> vs @ [v]))"
  by (induction h) (auto simp: fun_eq_iff)

end
