(* ===== verification/Facade.thy ===== *)
theory Facade
  imports Seed_Server Watcher Repo_DB Go_Header
begin

text \<open>
  The mirror facade (\<open>src/internal/daemon/facade.go\<close>): what pkg talks to.  A package request is
  answered from a verified peer copy when there is one and from the upstream mirror otherwise;
  everything else is relayed from the upstream mirror.

  One request is a function of the facade, the request and what the world does while it runs
  (\<open>facade_env\<close>): the snapshot the second of the two repository lookups sees (a reload may come
  between them), the environments of the peer attempts, and the upstream mirror as a function of
  the URL and the request headers.  The answer comes with the state of the temporary directory
  and of the blacklist afterwards.

  The lemmas give the status table, show that peer bytes reach pkg only when they match the
  repository row, that no peer failure is visible to pkg, that nothing stays in the temporary
  directory, that a request path cannot leave the configured upstream, and which headers cross.
\<close>

subsection \<open>Classification of paths\<close>

definition packageDir :: string where "packageDir = ''All''"

definition hashedDir :: string where "hashedDir = ''Hashed''"

text \<open>\<open>None\<close>: not a package path; \<open>Some ''''\<close>: shaped like one, but the file name is malformed.\<close>

definition packageRequest :: "string \<Rightarrow> string option" where
  "packageRequest urlPath =
     (let cleaned = Clean (CHR ''/'' # TrimPrefix urlPath ''/'');
          segments = Split (TrimPrefix cleaned ''/'') (CHR ''/'');
          allAt = fold (\<lambda>(i, seg) a. if seg = packageDir then Some i else a) (enumerate 0 segments) None
      in case allAt of
           None \<Rightarrow> None
         | Some i \<Rightarrow>
             let rest0 = drop (Suc i) segments;
                 rest = (if length rest0 = 2 \<and> rest0 ! 0 = hashedDir then drop 1 rest0 else rest0)
             in if length rest \<noteq> 1 then None
                else
                  let file = rest ! 0
                  in if \<not> HasSuffix file packageFileExtension then None
                     else
                       let (name, version) = parsePackageName file
                       in if name = '''' \<or> version = '''' then Some ''''
                          else Some (name @ ''-'' @ version))"

subsection \<open>The upstream mirror\<close>

datatype upstream_error =
    ErrUpstreamUnset
  | ErrUpstreamParse
  | ErrUpstreamScheme
  | ErrUpstreamHost
  | ErrUpstreamRequest
  | ErrUpstreamDo

definition upstreamURL :: "string \<Rightarrow> string \<Rightarrow> string \<Rightarrow> upstream_error + string" where
  "upstreamURL base reqPath rawQuery =
     (if base = '''' then Inl ErrUpstreamUnset
      else case Parse base of
        None \<Rightarrow> Inl ErrUpstreamParse
      | Some b \<Rightarrow>
          if Scheme b \<noteq> ''http'' \<and> Scheme b \<noteq> ''https'' then Inl ErrUpstreamScheme
          else if Host b = '''' then Inl ErrUpstreamHost
          else
            let basePath = TrimSuffix (Clean (CHR ''/'' # TrimPrefix (URLPath b) ''/'')) ''/'';
                u = b\<lparr>URLPath := basePath @ Clean (CHR ''/'' # TrimPrefix reqPath ''/''),
                      RawQuery := rawQuery\<rparr>
            in Inr (URL_String u))"

record facade_request =
  fr_Method :: string
  fr_Path :: string
  fr_RawQuery :: string
  fr_Header :: headers

record Facade =
  f_Peers :: "(string \<Rightarrow> string list option) option"
  f_Repo :: "Repositories option"
  f_Blacklist :: Blacklist
  f_TempDir :: string
  f_UpstreamURL :: string

record facade_env =
  repo_later :: Repositories                          \<comment> \<open>the snapshot at the second lookup\<close>
  fetch_envs :: "nat \<Rightarrow> fetch_env"
  upstream :: "string \<Rightarrow> headers \<Rightarrow> peer_reply"       \<comment> \<open>by URL and request headers\<close>
  write_cut :: nat                                    \<comment> \<open>bytes accepted before an oversized write is refused\<close>
  discard_ok :: bool

definition upstream_headers :: "facade_request \<Rightarrow> bool \<Rightarrow> headers" where
  "upstream_headers r conditional =
     (let ims = header_get (fr_Header r) ''If-Modified-Since''; ua = header_get (fr_Header r) ''User-Agent''
      in (if conditional \<and> ims \<noteq> '''' then [(''If-Modified-Since'', [ims])] else []) @
         [(''User-Agent'', if ua \<noteq> '''' then [ua] else [])])"

definition fetchUpstream ::
  "facade_env \<Rightarrow> Facade \<Rightarrow> facade_request \<Rightarrow> string \<Rightarrow> string \<Rightarrow> bool \<Rightarrow> upstream_error + http_resp" where
  "fetchUpstream e f r reqPath rawQuery conditional =
     (case upstreamURL (f_UpstreamURL f) reqPath rawQuery of
        Inl err \<Rightarrow> Inl err
      | Inr target \<Rightarrow>
          (case upstream e target (upstream_headers r conditional) of
             NoRequest \<Rightarrow> Inl ErrUpstreamRequest
           | NoReply \<Rightarrow> Inl ErrUpstreamDo
           | Reply resp \<Rightarrow> Inr resp))"

subsection \<open>Answers\<close>

definition httpError :: "nat \<Rightarrow> string \<Rightarrow> http_resp" where
  "httpError code msg =
     (let body = bytes_of (msg @ [CHR 0x0A])
      in \<lparr>StatusCode = code, ContentLength = int (length body),
          Header = [(''Content-Type'', [''text/plain; charset=utf-8''])], Body = Finite body False\<rparr>)"

definition package_answer :: "int \<Rightarrow> reader \<Rightarrow> http_resp" where
  "package_answer n body =
     \<lparr>StatusCode = 200, ContentLength = n,
      Header = [(''Content-Type'', [''application/octet-stream'']), (''Content-Length'', [Itoa n])],
      Body = body\<rparr>"

text \<open>
  What the client sees of a body copied under a promised length: a short body ends in an error,
  and the write that would exceed the promise is refused as a whole, wherever the copy buffer
  happened to end.
\<close>

definition promised :: "nat \<Rightarrow> int \<Rightarrow> reader \<Rightarrow> reader" where
  "promised accepted n body =
     (case body of
        Finite bs failed \<Rightarrow>
          if int (length bs) \<le> n then Finite bs (int (length bs) < n)
          else Finite (take (min accepted (nat n)) bs) (int accepted < n)
      | Endless g \<Rightarrow> Finite (map g [0..<min accepted (nat n)]) (int accepted < n))"

definition hopByHopHeaders :: "string list" where
  "hopByHopHeaders =
     [''Connection'', ''Keep-Alive'', ''Proxy-Authenticate'', ''Proxy-Authorization'',
      ''Proxy-Connection'', ''Te'', ''Trailer'', ''Transfer-Encoding'', ''Upgrade'']"

definition dropped_headers :: "headers \<Rightarrow> string set" where
  "dropped_headers src =
     set (map CanonicalHeaderKey hopByHopHeaders) \<union>
     set (map CanonicalHeaderKey
       (filter (\<lambda>n. n \<noteq> '''')
         (map TrimSpace (concat (map (\<lambda>v. Split v (CHR '','')) (header_values src ''Connection''))))))"

definition relayHeaders :: "headers \<Rightarrow> headers \<Rightarrow> headers" where
  "relayHeaders dst src =
     fold (\<lambda>(name, values) d.
             if CanonicalHeaderKey name \<in> dropped_headers src then d
             else fold (\<lambda>v d'. header_add d' name v) values d)
       src dst"

definition relayUpstream :: "facade_env \<Rightarrow> Facade \<Rightarrow> facade_request \<Rightarrow> http_resp" where
  "relayUpstream e f r =
     (case fetchUpstream e f r (fr_Path r) (fr_RawQuery r) True of
        Inl err \<Rightarrow> httpError 502 ''upstream mirror could not be reached''
      | Inr resp \<Rightarrow>
          \<lparr>StatusCode = StatusCode resp, ContentLength = ContentLength resp,
           Header = relayHeaders [] (Header resp),
           Body = (if StatusCode resp = 304 then Finite [] False else Body resp)\<rparr>)"

subsection \<open>Package requests\<close>

definition expected :: "Facade \<Rightarrow> facade_env \<Rightarrow> string \<Rightarrow> Want option" where
  "expected f e nameVersion =
     (case f_Repo f of
        None \<Rightarrow> None
      | Some repo \<Rightarrow>
          (case (ExpectedHash repo nameVersion, ExpectedFileSizeBytes (repo_later e) nameVersion) of
             (Some h, Some n) \<Rightarrow> Some \<lparr>Hash = h, Size = n\<rparr>
           | _ \<Rightarrow> None))"

text \<open>
  What \<open>servePeers\<close> comes to: an answer, the order to try upstream, or the panic of a call on a
  facade built without a peer lister.
\<close>

datatype peers_outcome = Answered http_resp | Try_upstream | Nil_peers

definition servePeers ::
  "facade_env \<Rightarrow> Facade \<Rightarrow> string \<Rightarrow> Want \<Rightarrow> tmpfs \<Rightarrow> peers_outcome \<times> Facade \<times> tmpfs" where
  "servePeers e f nameVersion want fs =
     (case f_Peers f of
        None \<Rightarrow> (Nil_peers, f, fs)
      | Some peers \<Rightarrow>
          (case peers nameVersion of
             None \<Rightarrow> (Try_upstream, f, fs)
           | Some addrs \<Rightarrow>
               if length addrs = 0 then (Try_upstream, f, fs)
               else
                 (case FetchFirst (fetch_envs e) addrs nameVersion want (f_TempDir f) (Some (f_Blacklist f)) fs of
                    (Inl err, bl, is, fs') \<Rightarrow> (Try_upstream, f\<lparr>f_Blacklist := the bl\<rparr>, fs')
                  | (Inr spool, bl, is, fs') \<Rightarrow>
                      (Answered (package_answer (Size want)
                               (Finite (case fs' spool of None \<Rightarrow> [] | Some bs \<Rightarrow> bs) False)),
                       f\<lparr>f_Blacklist := the bl\<rparr>,
                       Discard (discard_ok e) (Some spool) fs'))))"

definition serveUpstreamPackage :: "facade_env \<Rightarrow> Facade \<Rightarrow> facade_request \<Rightarrow> Want \<Rightarrow> http_resp" where
  "serveUpstreamPackage e f r want =
     (case fetchUpstream e f r (fr_Path r) '''' False of
        Inl err \<Rightarrow> httpError 502 ''no peer and no upstream could supply this package''
      | Inr resp \<Rightarrow>
          if StatusCode resp \<noteq> 200 then httpError 502 ''no peer and no upstream could supply this package''
          else package_answer (Size want) (promised (write_cut e) (Size want) (Body resp)))"

text \<open>The answer to a request is \<open>None\<close> when the handler panics.\<close>

definition servePackage ::
  "facade_env \<Rightarrow> Facade \<Rightarrow> facade_request \<Rightarrow> string \<Rightarrow> tmpfs \<Rightarrow> http_resp option \<times> Facade \<times> tmpfs" where
  "servePackage e f r nameVersion fs =
     (case expected f e nameVersion of
        None \<Rightarrow> (Some (httpError 404 ''not in this mirror's repository database''), f, fs)
      | Some want \<Rightarrow>
          (case servePeers e f nameVersion want fs of
             (Answered resp, f', fs') \<Rightarrow> (Some resp, f', fs')
           | (Nil_peers, f', fs') \<Rightarrow> (None, f', fs')
           | (Try_upstream, f', fs') \<Rightarrow> (Some (serveUpstreamPackage e f' r want), f', fs')))"

definition Facade_ServeHTTP ::
  "facade_env \<Rightarrow> Facade \<Rightarrow> facade_request \<Rightarrow> tmpfs \<Rightarrow> http_resp option \<times> Facade \<times> tmpfs" where
  "Facade_ServeHTTP e f r fs =
     (if fr_Method r \<noteq> ''GET'' then (Some (httpError 405 ''only GET is served''), f, fs)
      else case packageRequest (fr_Path r) of
        None \<Rightarrow> (Some (relayUpstream e f r), f, fs)
      | Some nameVersion \<Rightarrow>
          if nameVersion = '''' then (Some (httpError 400 ''malformed package name-version''), f, fs)
          else servePackage e f r nameVersion fs)"

datatype check_error = ErrNoPeerLister | ErrNoRepositoryDatabase | ErrNoUsableUpstream upstream_error

definition Check :: "Facade \<Rightarrow> check_error option" where
  "Check f =
     (if f_Peers f = None then Some ErrNoPeerLister
      else if f_Repo f = None then Some ErrNoRepositoryDatabase
      else case upstreamURL (f_UpstreamURL f) ''/'' '''' of
        Inl err \<Rightarrow> Some (ErrNoUsableUpstream err)
      | Inr _ \<Rightarrow> None)"

text \<open>
  \<open>ListenAndServe\<close>, the stand-alone entry point: the error of the check, or whether requests are served, which
  is the system's answer to the bind.\<close>

definition Facade_ListenAndServe :: "bool \<Rightarrow> Facade \<Rightarrow> check_error + bool" where
  "Facade_ListenAndServe can_bind f = (case Check f of Some err \<Rightarrow> Inl err | None \<Rightarrow> Inr can_bind)"

subsection \<open>Which paths are package requests\<close>

definition last_All :: "string list \<Rightarrow> nat option" where
  "last_All segs = fold (\<lambda>(i, seg) a. if seg = packageDir then Some i else a) (enumerate 0 segs) None"

lemma last_All_append:
  assumes "packageDir \<notin> set rest"
  shows "last_All (pre @ packageDir # rest) = Some (length pre)"
proof -
  have skip: "fold (\<lambda>(i, seg) a. if seg = packageDir then Some i else a) (enumerate k ys) a = a"
    if "packageDir \<notin> set ys" for k ys and a :: "nat option"
    using that by (induction ys arbitrary: k) auto
  show ?thesis
    by (simp add: last_All_def enumerate_append_eq skip [OF assms])
qed

lemma last_All_None: "packageDir \<notin> set segs \<Longrightarrow> last_All segs = None"
proof -
  have "fold (\<lambda>(i, seg) a. if seg = packageDir then Some i else a) (enumerate k ys) a = a"
    if "packageDir \<notin> set ys" for k ys and a :: "nat option"
    using that by (induction ys arbitrary: k) auto
  then show "packageDir \<notin> set segs \<Longrightarrow> last_All segs = None" by (simp add: last_All_def)
qed

text \<open>The elements of the cleaned request path.\<close>

lemma packageRequest_segs:
  "packageRequest p =
     (let segments = (if rooted_segs p = [] then [''''] else rooted_segs p)
      in case last_All segments of
           None \<Rightarrow> None
         | Some i \<Rightarrow>
             let rest0 = drop (Suc i) segments;
                 rest = (if length rest0 = 2 \<and> rest0 ! 0 = hashedDir then drop 1 rest0 else rest0)
             in if length rest \<noteq> 1 \<or> \<not> HasSuffix (rest ! 0) packageFileExtension then None
                else Some (if fst (parsePackageName (rest ! 0)) = '''' \<or> snd (parsePackageName (rest ! 0)) = '''' then ''''
                      else fst (parsePackageName (rest ! 0)) @ ''-'' @ snd (parsePackageName (rest ! 0))))"
proof -
  have trim: "rooted_segs (TrimPrefix p ''/'') = rooted_segs p"
    by (cases "HasPrefix p ''/''") (auto simp: HasPrefix_iff rooted_segs_Cons TrimPrefix_def)
  have "Split (TrimPrefix (Clean (CHR ''/'' # TrimPrefix p ''/'')) ''/'') (CHR ''/'') =
      (if rooted_segs p = [] then [''''] else rooted_segs p)"
    using Split_Join_rooted [of p]
    unfolding Clean_rooted trim TrimPrefix_append [of "''/''", simplified] by simp
  then show ?thesis
    unfolding packageRequest_def Let_def last_All_def [symmetric]
    by (auto simp: case_prod_beta Let_def split: option.splits)
qed


lemma last_All_Some: "last_All segs = Some i \<Longrightarrow> \<exists>pre rest. segs = pre @ packageDir # rest \<and> packageDir \<notin> set rest \<and> length pre = i"
proof (cases "packageDir \<in> set segs")
  case True
  then obtain pre rest where s: "segs = pre @ packageDir # rest" "packageDir \<notin> set rest"
    using split_list_last by metis
  moreover assume "last_All segs = Some i"
  ultimately show ?thesis using last_All_append [of rest pre] by auto
qed (simp add: last_All_None)

definition package_path :: "string \<Rightarrow> string \<Rightarrow> bool" where
  "package_path p file \<longleftrightarrow>
     HasSuffix file ''.pkg'' \<and>
     (\<exists>pre. rooted_segs p = pre @ [''All'', file] \<or> rooted_segs p = pre @ [''All'', ''Hashed'', file])"

lemma not_All: "HasSuffix file ''.pkg'' \<Longrightarrow> file \<noteq> ''All''"
  by (auto simp: HasSuffix_def)

lemma packageRequest_path:
  assumes "package_path p file"
  shows "packageRequest p =
    Some (if fst (parsePackageName file) = '''' \<or> snd (parsePackageName file) = '''' then ''''
          else fst (parsePackageName file) @ ''-'' @ snd (parsePackageName file))"
proof -
  have f: "file \<noteq> ''All''" "HasSuffix file ''.pkg''" using assms not_All by (auto simp: package_path_def)
  obtain pre mid where segs: "rooted_segs p = pre @ ''All'' # mid @ [file]" "mid = [] \<or> mid = [''Hashed'']"
    using assms unfolding package_path_def by (metis append_Cons append_Nil)
  have l: "last_All (pre @ ''All'' # mid @ [file]) = Some (length pre)"
    using segs(2) f last_All_append [of "mid @ [file]" pre] by (auto simp: packageDir_def)
  from segs(2) show ?thesis
    unfolding packageRequest_segs segs(1)
    by (elim disjE) (use l f in \<open>simp_all add: hashedDir_def packageFileExtension_def\<close>)
qed

lemma packageRequest_other: "(\<And>file. \<not> package_path p file) \<Longrightarrow> packageRequest p = None"
proof -
  assume no: "\<And>file. \<not> package_path p file"
  show ?thesis
  proof (rule ccontr)
    assume "packageRequest p \<noteq> None"
    then obtain i where i: "last_All (if rooted_segs p = [] then [''''] else rooted_segs p) = Some i"
      unfolding packageRequest_segs Let_def by (auto split: option.splits)
    have ne: "rooted_segs p \<noteq> []" using i last_All_None [of "['''']"] by (auto simp: packageDir_def)
    with i last_All_Some obtain pre rest where s: "rooted_segs p = pre @ packageDir # rest"
      "packageDir \<notin> set rest" "length pre = i" by metis
    have "last_All (pre @ packageDir # rest) = Some (length pre)" using s(2) by (rule last_All_append)
    with \<open>packageRequest p \<noteq> None\<close> have
      "length (if length rest = 2 \<and> rest ! 0 = hashedDir then drop 1 rest else rest) = 1 \<and>
       HasSuffix ((if length rest = 2 \<and> rest ! 0 = hashedDir then drop 1 rest else rest) ! 0) ''.pkg''"
      unfolding packageRequest_segs s(1) Let_def by (auto simp: packageFileExtension_def split: if_splits)
    then obtain fl where "(rest = [fl] \<or> rest = [''Hashed'', fl]) \<and> HasSuffix fl ''.pkg''"
      by (auto simp: hashedDir_def length_Suc_conv numeral_2_eq_2 split: if_splits)
    with no [of fl] s(1) show False by (auto simp: package_path_def packageDir_def)
  qed
qed

text \<open>
  Which requests are package requests.  After cleaning, the path is a file with the package
  extension directly under the last \<open>All\<close> directory or under \<open>Hashed\<close> in it, whatever stands
  before; then the name-version is that of the file name, or empty when the file name has none.
  Every other path is not a package request.\<close>

theorem package_request_spec:
  "(\<forall>file. package_path p file \<longrightarrow> packageRequest p =
      Some (if fst (parsePackageName file) = '''' \<or> snd (parsePackageName file) = '''' then ''''
            else fst (parsePackageName file) @ ''-'' @ snd (parsePackageName file))) \<and>
   ((\<nexists>file. package_path p file) \<longrightarrow> packageRequest p = None)"
  using packageRequest_path packageRequest_other by blast

theorem package_request_spec_witness:
  "packageRequest ''/FreeBSD:15:amd64/x/../latest/All/Hashed/zip-3~00112233aa.pkg'' = Some ''zip-3''"
proof -
  have "package_path ''/FreeBSD:15:amd64/x/../latest/All/Hashed/zip-3~00112233aa.pkg'' ''zip-3~00112233aa.pkg''"
    by (simp add: package_path_def HasSuffix_def rooted_segs_def)
  moreover have "parsePackageName ''zip-3~00112233aa.pkg'' = (''zip'', ''3'')"
    by (rule parse_base) (simp_all add: startsWithDigit_def decode_rune_ascii IsDigit_ascii TrimSuffix_def
         packageFileExtension_def HasSuffix_def strip_cksum_def cksumSuffix_def lower_hex_def)
  ultimately show ?thesis
    using package_request_spec [of "''/FreeBSD:15:amd64/x/../latest/All/Hashed/zip-3~00112233aa.pkg''"] by force
qed

subsection \<open>The upstream URL\<close>

lemma rooted_segs_TrimPrefix: "rooted_segs (TrimPrefix p ''/'') = rooted_segs p"
  by (cases "HasPrefix p ''/''") (auto simp: HasPrefix_iff rooted_segs_Cons TrimPrefix_def)

lemma HasSuffix_single: "HasSuffix s [c] \<longleftrightarrow> s \<noteq> [] \<and> last s = c"
  by (cases s rule: rev_cases) (auto simp: HasSuffix_iff)

definition base_prefix :: "string list \<Rightarrow> string" where
  "base_prefix segs = concat (map ((#) (CHR ''/'')) segs)"

lemma base_prefix_Join: "segs \<noteq> [] \<Longrightarrow> CHR ''/'' # Join segs ''/'' = base_prefix segs"
  by (induction segs rule: induct_list012) (auto simp: base_prefix_def)

lemma base_path:
  "TrimSuffix (CHR ''/'' # Join (rooted_segs p) ''/'') ''/'' = base_prefix (rooted_segs p)"
proof (cases "rooted_segs p = []")
  case True
  then show ?thesis by (simp add: TrimSuffix_def HasSuffix_def base_prefix_def)
next
  case False
  then obtain xs x where x: "rooted_segs p = xs @ [x]" by (cases "rooted_segs p" rule: rev_cases) auto
  then have "plain_seg x" using clean_segs_rooted [of p] by simp
  then have xx: "x \<noteq> []" "last x \<noteq> CHR ''/''" by (metis last_in_set plain_seg_def)+
  then have "\<not> HasSuffix (base_prefix (rooted_segs p)) ''/''"
    by (simp add: x base_prefix_def HasSuffix_single)
  then show ?thesis
    using False by (simp add: base_prefix_Join TrimSuffix_other)
qed

text \<open>
  C9: A request cannot leave the configured upstream.  Whatever path and query the client sends,
  the URL that is fetched has the scheme, the userinfo and the host of the configured base, and a
  path that consists of the elements of the base followed by elements none of which is empty, a
  dot segment or contains a separator.\<close>

theorem upstream_url_contained:
  assumes "upstreamURL base p q = Inr target"
  shows "\<exists>b segs. Parse base = Some b \<and> (Scheme b = ''http'' \<or> Scheme b = ''https'') \<and> Host b \<noteq> '''' \<and>
    list_all plain_seg segs \<and> segs = rooted_segs p \<and>
    target = URL_String (b\<lparr>URLPath := base_prefix (rooted_segs (URLPath b)) @ CHR ''/'' # Join segs ''/'',
                           RawQuery := q\<rparr>) \<and>
    HasPrefix target (Scheme b @ ''://'' @ userinfo_str (User b) @ escape encodeHost (Host b) @
      escape encodePath (base_prefix (rooted_segs (URLPath b)) @ ''/''))"
proof -
  obtain b where b: "Parse base = Some b" "Scheme b = ''http'' \<or> Scheme b = ''https''" "Host b \<noteq> ''''"
    and t: "target = URL_String (b\<lparr>URLPath := base_prefix (rooted_segs (URLPath b)) @
        CHR ''/'' # Join (rooted_segs p) ''/'', RawQuery := q\<rparr>)"
    using assms
    by (auto simp: upstreamURL_def base_path Let_def Clean_rooted rooted_segs_TrimPrefix
        split: if_splits option.splits)
  have slash: "escape encodePath ''/'' = ''/''" by (simp add: escape_def escape1_def shouldEscape_def)
  let ?bp = "base_prefix (rooted_segs (URLPath b))"
  have hd: "hd (escape encodePath (?bp @ CHR ''/'' # x)) = CHR ''/''" for x
  proof (cases "rooted_segs (URLPath b)")
    case Nil
    then show ?thesis by (simp add: base_prefix_def escape_def escape1_def shouldEscape_def)
  next
    case (Cons a as)
    then show ?thesis by (simp add: base_prefix_def escape_def escape1_def shouldEscape_def)
  qed
  have e: "escape encodePath (?bp @ CHR ''/'' # Join (rooted_segs p) ''/'') =
      escape encodePath (?bp @ ''/'') @ escape encodePath (Join (rooted_segs p) ''/'')"
    by (simp add: escape_def)
  have star: "?bp @ CHR ''/'' # Join (rooted_segs p) ''/'' \<noteq> ''*''" by (simp add: append_eq_Cons_conv)
  have ne: "escape encodePath (?bp @ CHR ''/'' # Join (rooted_segs p) ''/'') \<noteq> []"
    by (simp add: escape_def escape1_def)
  have "target = (Scheme b @ ''://'' @ userinfo_str (User b) @ escape encodeHost (Host b) @
      escape encodePath (?bp @ ''/'')) @ escape encodePath (Join (rooted_segs p) ''/'') @
      (if ForceQuery b \<or> q \<noteq> [] then CHR ''?'' # q else [])"
    using hd [of "Join (rooted_segs p) ''/''"] ne b(3) star unfolding t URL_String_def EscapedPath_def Let_def by (simp add: e)
  then have "HasPrefix target (Scheme b @ ''://'' @ userinfo_str (User b) @ escape encodeHost (Host b) @
      escape encodePath (?bp @ ''/''))"
    unfolding HasPrefix_iff by blast
  with b t clean_segs_rooted [of p] show ?thesis by blast
qed

subsection \<open>Headers of a relayed answer\<close>

lemma map_of_fold_add:
  "map_of (fold (\<lambda>v d'. header_add d' k v) vs d) =
     (if vs = [] then map_of d
      else (map_of d)(CanonicalHeaderKey k \<mapsto>
        (case map_of d (CanonicalHeaderKey k) of None \<Rightarrow> vs | Some old \<Rightarrow> old @ vs)))"
proof (induction vs arbitrary: d)
  case (Cons v vs)
  then show ?case by (auto simp: header_add_def map_of_header_append fun_eq_iff split: option.splits)
qed simp

lemma relay_fold:
  assumes "distinct (map fst src)" "\<forall>k \<in> fst ` set src. CanonicalHeaderKey k = k"
    "\<forall>k \<in> fst ` set src. map_of d k = None"
  shows "map_of (fold (\<lambda>(name, values) d. if CanonicalHeaderKey name \<in> D then d
             else fold (\<lambda>v d'. header_add d' name v) values d) src d) k =
    (case map_of src k of
       Some vs \<Rightarrow> if k \<in> D \<or> vs = [] then map_of d k else Some vs
     | None \<Rightarrow> map_of d k)"
  using assms
proof (induction src arbitrary: d)
  case (Cons a src)
  obtain n vs where a: "a = (n, vs)" by fastforce
  have n: "CanonicalHeaderKey n = n" "map_of d n = None" "n \<notin> fst ` set src" using Cons.prems a by auto
  let ?d = "if n \<in> D then d else fold (\<lambda>v d'. header_add d' n v) vs d"
  have d: "map_of ?d = (if n \<in> D \<or> vs = [] then map_of d else (map_of d)(n \<mapsto> vs))"
    using n by (simp add: map_of_fold_add)
  have "map_of (fold (\<lambda>(name, values) d. if CanonicalHeaderKey name \<in> D then d
             else fold (\<lambda>v d'. header_add d' name v) values d) src ?d) k =
    (case map_of src k of
       Some vs \<Rightarrow> if k \<in> D \<or> vs = [] then map_of ?d k else Some vs
     | None \<Rightarrow> map_of ?d k)"
    using Cons.prems n d a by (intro Cons.IH) auto
  moreover have "map_of src n = None" using n(3) by (simp add: map_of_eq_None_iff)
  ultimately show ?case using a n(1) d by (auto split: option.splits)
qed (simp split: option.splits)

text \<open>The headers that end at the facade, spelled out.\<close>

lemma dropped_headers_iff:
  assumes "map_of src ''Connection'' = Some vs \<or> map_of src ''Connection'' = None \<and> vs = []"
  shows "k \<in> dropped_headers src \<longleftrightarrow>
    k \<in> {''Connection'', ''Keep-Alive'', ''Proxy-Authenticate'', ''Proxy-Authorization'', ''Proxy-Connection'',
      ''Te'', ''Trailer'', ''Transfer-Encoding'', ''Upgrade''} \<or>
    (\<exists>v \<in> set vs. \<exists>name \<in> set (Split v (CHR '','')). TrimSpace name \<noteq> [] \<and> k = CanonicalHeaderKey (TrimSpace name))"
proof -
  have "map CanonicalHeaderKey [''Connection'', ''Keep-Alive'', ''Proxy-Authenticate'', ''Proxy-Authorization'',
      ''Proxy-Connection'', ''Te'', ''Trailer'', ''Transfer-Encoding'', ''Upgrade''] =
    [''Connection'', ''Keep-Alive'', ''Proxy-Authenticate'', ''Proxy-Authorization'',
      ''Proxy-Connection'', ''Te'', ''Trailer'', ''Transfer-Encoding'', ''Upgrade'']" by code_simp
  moreover have "CanonicalHeaderKey ''Connection'' = ''Connection''" by code_simp
  then have "header_values src ''Connection'' = vs" using assms by (auto simp: header_values_def)
  ultimately show ?thesis unfolding dropped_headers_def hopByHopHeaders_def by auto
qed

text \<open>
  C38: A relayed answer is upstream's own.  When the upstream mirror answers, a non-package request
  gets upstream's status and, for every status but 304, whose answers have no body, upstream's body.  Every response header
  with a value crosses unchanged unless it is one of the nine hop-by-hop headers (\<open>Connection\<close>, \<open>Keep-Alive\<close>,
  \<open>Proxy-Authenticate\<close>, \<open>Proxy-Authorization\<close>, \<open>Proxy-Connection\<close>, \<open>TE\<close>, \<open>Trailer\<close>, \<open>Transfer-Encoding\<close>,
  \<open>Upgrade\<close>) or is named in a value of upstream's \<open>Connection\<close> header, and none of those crosses.
  When the fetch itself fails the answer is 502.\<close>

theorem relay_is_transparent:
  assumes "fr_Method r = ''GET''" "packageRequest (fr_Path r) = None"
    and "distinct (map fst (Header resp))" "\<forall>k \<in> fst ` set (Header resp). CanonicalHeaderKey k = k"
    and "map_of (Header resp) ''Connection'' = Some named \<or> map_of (Header resp) ''Connection'' = None \<and> named = []"
  shows "(fetchUpstream e f r (fr_Path r) (fr_RawQuery r) True = Inr resp \<longrightarrow>
      (\<exists>ans. Facade_ServeHTTP e f r fs = (Some ans, f, fs) \<and> StatusCode ans = StatusCode resp \<and>
         (StatusCode resp \<noteq> 304 \<longrightarrow> Body ans = Body resp) \<and>
         (\<forall>k. map_of (Header ans) k =
            (if k \<in> {''Connection'', ''Keep-Alive'', ''Proxy-Authenticate'', ''Proxy-Authorization'',
                ''Proxy-Connection'', ''Te'', ''Trailer'', ''Transfer-Encoding'', ''Upgrade''} \<or>
               (\<exists>v \<in> set named. \<exists>name \<in> set (Split v (CHR '','')).
                  TrimSpace name \<noteq> [] \<and> k = CanonicalHeaderKey (TrimSpace name)) \<or>
               map_of (Header resp) k = Some []
             then None else map_of (Header resp) k)))) \<and>
    (fetchUpstream e f r (fr_Path r) (fr_RawQuery r) True = Inl err \<longrightarrow>
      (\<exists>ans. Facade_ServeHTTP e f r fs = (Some ans, f, fs) \<and> StatusCode ans = 502))"
proof -
  have "map_of (relayHeaders [] (Header resp)) k =
      (if k \<in> dropped_headers (Header resp) \<or> map_of (Header resp) k = Some [] then None
       else map_of (Header resp) k)" for k
    unfolding relayHeaders_def
    using relay_fold [OF assms(3,4), of "[]" "dropped_headers (Header resp)" k]
    by (auto split: option.splits)
  note headers = this [unfolded dropped_headers_iff [OF assms(5)] disj_assoc]
  have "Facade_ServeHTTP e f r fs = (Some (relayUpstream e f r), f, fs)"
    using assms(1,2) by (simp add: Facade_ServeHTTP_def)
  then show ?thesis using headers by (simp add: relayUpstream_def httpError_def Let_def)
qed

subsection \<open>The package path\<close>

lemma servePeers_cases:
  assumes "servePeers e f nv want fs = (out, f', fs')" "f_Peers f \<noteq> None"
    and "\<And>j. remove_ok (fetch_envs e j)" "discard_ok e"
  shows "fs' = fs \<and> f' = f\<lparr>f_Blacklist := f_Blacklist f'\<rparr> \<and>
    (out = Try_upstream \<or>
     (\<exists>bs. out = Answered (package_answer (Size want) (Finite bs False)) \<and>
        int (length bs) = Size want \<and> sha256_hex bs = Hash want))"
proof -
  obtain peers where p: "f_Peers f = Some peers" using assms(2) by auto
  show ?thesis
  proof (cases "peers nv = None \<or> peers nv = Some []")
    case True
    with assms(1) p show ?thesis by (auto simp: servePeers_def)
  next
    case False
    then obtain addrs where a: "peers nv = Some addrs" "addrs \<noteq> []" by auto
    obtain r bl "is" fs1 where run: "FetchFirst (fetch_envs e) addrs nv want (f_TempDir f) (Some (f_Blacklist f)) fs = (r, bl, is, fs1)"
      by (metis prod_cases4)
    show ?thesis
    proof (cases r)
      case (Inl err)
      then have "fs1 = fs"
        using run assms(3) fetch_loop_Inl [of "fetch_envs e" 0 addrs nv want "f_TempDir f" "Some (f_Blacklist f)" fs err bl "is" fs1]
        by (auto simp: FetchFirst_def split: if_splits)
      with assms(1) p a run Inl show ?thesis by (auto simp: servePeers_def)
    next
      case (Inr spool)
      then have "fetch_loop (fetch_envs e) 0 addrs nv want (f_TempDir f) (Some (f_Blacklist f)) fs = (Inr spool, bl, is, fs1)"
        using FetchFirst_loop [OF run] by simp
      from fetch_loop_Inr [OF this] assms(3) obtain bs where bs: "fs spool = None" "fs1 = fs(spool \<mapsto> bs)"
        "int (length bs) = Size want" "sha256_hex bs = Hash want" by auto
      then have "Discard True (Some spool) fs1 = fs" by (auto simp: Discard_def Remove_def fun_upd_idem)
      with assms(1,4) p a run Inr bs show ?thesis by (auto simp: servePeers_def)
    qed
  qed
qed

lemma serveUpstreamPackage_blacklist: "serveUpstreamPackage e (f\<lparr>f_Blacklist := b\<rparr>) r want = serveUpstreamPackage e f r want"
  by (simp add: serveUpstreamPackage_def fetchUpstream_def)


definition upstream_serves :: "facade_env \<Rightarrow> Facade \<Rightarrow> facade_request \<Rightarrow> bool" where
  "upstream_serves e f r \<longleftrightarrow>
     (\<exists>resp. fetchUpstream e f r (fr_Path r) '''' False = Inr resp \<and> StatusCode resp = 200)"

definition peers_serve :: "facade_env \<Rightarrow> Facade \<Rightarrow> string \<Rightarrow> Want \<Rightarrow> tmpfs \<Rightarrow> bool" where
  "peers_serve e f nv want fs \<longleftrightarrow> (\<exists>resp. fst (servePeers e f nv want fs) = Answered resp)"

lemma serveUpstreamPackage_status:
  "StatusCode (serveUpstreamPackage e f r want) = (if upstream_serves e f r then 200 else 502)"
  by (auto simp: serveUpstreamPackage_def upstream_serves_def package_answer_def httpError_def Let_def
      split: sum.splits)

text \<open>
  C17: The status table of the facade, which is exhaustive: 405 for anything but GET, upstream's
  answer for a path that is not a package request, 400 for a malformed package name, 404 exactly
  when the repository database does not list the package, and for a listed package 200, or 502
  exactly when neither a peer nor the upstream mirror could supply it.\<close>

theorem facade_status_table:
  assumes "f_Peers f \<noteq> None" "\<And>j. remove_ok (fetch_envs e j)" "discard_ok e"
  shows "\<exists>ans. fst (Facade_ServeHTTP e f r fs) = Some ans \<and>
    (if fr_Method r \<noteq> ''GET'' then StatusCode ans = 405
     else case packageRequest (fr_Path r) of
       None \<Rightarrow> ans = relayUpstream e f r
     | Some nv \<Rightarrow>
         if nv = '''' then StatusCode ans = 400
         else (case expected f e nv of
           None \<Rightarrow> StatusCode ans = 404
         | Some want \<Rightarrow>
             StatusCode ans = (if peers_serve e f nv want fs \<or> upstream_serves e f r then 200 else 502)))"
proof (cases "\<exists>nv want. fr_Method r = ''GET'' \<and> packageRequest (fr_Path r) = Some nv \<and> nv \<noteq> '''' \<and> expected f e nv = Some want")
  case True
  then obtain nv want where c: "fr_Method r = ''GET''" "packageRequest (fr_Path r) = Some nv" "nv \<noteq> ''''"
    "expected f e nv = Some want" by blast
  obtain out f' fs' where s: "servePeers e f nv want fs = (out, f', fs')" by (metis prod_cases3)
  from servePeers_cases [OF s assms] have "f' = f\<lparr>f_Blacklist := f_Blacklist f'\<rparr>"
    and o: "out = Try_upstream \<or> (\<exists>bs. out = Answered (package_answer (Size want) (Finite bs False)))" by auto
  then have u: "serveUpstreamPackage e f' r want = serveUpstreamPackage e f r want"
    using serveUpstreamPackage_blacklist by metis
  from o c s show ?thesis
    by (elim disjE exE)
       (simp_all add: Facade_ServeHTTP_def servePackage_def peers_serve_def u serveUpstreamPackage_status package_answer_def)
next
  case False
  then show ?thesis
    by (cases "packageRequest (fr_Path r)")
       (auto simp: Facade_ServeHTTP_def servePackage_def httpError_def Let_def split: option.splits)
qed

text \<open>
  C1: What pkg gets for a listed package.  If the peers supply it, the body has exactly the size
  and the SHA-256 of the repository row.  If they do not, for whatever reason (tracker
  unreachable, nobody holds it, every holder failed, lied or is blacklisted, the temporary
  directory is broken), the answer is the one upstream alone would give.  Either way nothing is
  left in the temporary directory and only the blacklist of the facade may have changed.\<close>

theorem facade_package_answer:
  assumes "fr_Method r = ''GET''" "packageRequest (fr_Path r) = Some nv" "nv \<noteq> ''''" "expected f e nv = Some want"
    and "f_Peers f \<noteq> None" "\<And>j. remove_ok (fetch_envs e j)" "discard_ok e"
    and "Facade_ServeHTTP e f r fs = (Some ans, f', fs')"
  shows "fs' = fs \<and> f' = f\<lparr>f_Blacklist := f_Blacklist f'\<rparr> \<and>
    (if peers_serve e f nv want fs
     then StatusCode ans = 200 \<and> ContentLength ans = Size want \<and>
       (\<exists>bs. Body ans = Finite bs False \<and> int (length bs) = Size want \<and> sha256_hex bs = Hash want)
     else ans = serveUpstreamPackage e f r want)"
proof -
  obtain out f1 fs1 where s: "servePeers e f nv want fs = (out, f1, fs1)" by (metis prod_cases3)
  from servePeers_cases [OF s assms(5-7)] have c: "fs1 = fs" "f1 = f\<lparr>f_Blacklist := f_Blacklist f1\<rparr>"
    "out = Try_upstream \<or>
     (\<exists>bs. out = Answered (package_answer (Size want) (Finite bs False)) \<and>
        int (length bs) = Size want \<and> sha256_hex bs = Hash want)" by auto
  have run: "servePackage e f r nv fs = (Some ans, f', fs')"
    using assms(1,2,3,8) by (simp add: Facade_ServeHTTP_def)
  have u: "serveUpstreamPackage e f1 r want = serveUpstreamPackage e f r want"
    using c(2) serveUpstreamPackage_blacklist by metis
  from c(3) show ?thesis
  proof
    assume "out = Try_upstream"
    with run s c(1,2) u assms(4) show ?thesis by (auto simp: servePackage_def peers_serve_def)
  next
    assume "\<exists>bs. out = Answered (package_answer (Size want) (Finite bs False)) \<and>
        int (length bs) = Size want \<and> sha256_hex bs = Hash want"
    with run s c(1,2) assms(4) show ?thesis by (auto simp: servePackage_def peers_serve_def package_answer_def)
  qed
qed

text \<open>
  C40: The two lookups of a request are two critical sections.  When the snapshot changes between
  them, the expectation can pair the hash of the old row with the size of the new one: a pair
  that is in neither snapshot, and against which an honest holder of the new file is corrupt.\<close>

theorem expected_mixes_snapshots:
  assumes "f_Repo f = Some old" "rows old nv = Some \<lparr>row_hash = h1, row_size = n1\<rparr>"
    and "rows (repo_later e) nv = Some \<lparr>row_hash = h2, row_size = n2\<rparr>" "h1 \<noteq> h2"
    and "int (length bs) = n2" "sha256_hex bs = h2" "n2 < 2 ^ 63 - 1" "disk_room env = None"
    and "offer env a nv \<lparr>Hash = h2, Size = n2\<rparr> = Some (Finite bs False)"
  shows "expected f e nv = Some \<lparr>Hash = h1, Size = n2\<rparr> \<and>
    honest env a nv \<lparr>Hash = h2, Size = n2\<rparr> \<and> corrupt env a nv \<lparr>Hash = h1, Size = n2\<rparr>"
proof -
  have "wrap64 (n2 + 1) = n2 + 1" using assms(5,7) by (intro wrap64_id) linarith+
  moreover have "offer env a nv \<lparr>Hash = h1, Size = n2\<rparr> = offer env a nv \<lparr>Hash = h2, Size = n2\<rparr>"
    by (simp add: offer_def split: peer_reply.splits)
  ultimately have "corrupt env a nv \<lparr>Hash = h1, Size = n2\<rparr>"
    using assms(4-9) by (simp add: corrupt_def limit_copy_Finite)
  then show ?thesis
    using assms by (simp add: expected_def ExpectedHash_def ExpectedFileSizeBytes_def honest_def)
qed

text \<open>
  With one snapshot for both lookups the expectation is a row of it, complete or absent.\<close>

theorem expected_is_one_row:
  assumes "f_Repo f = Some repo" "repo_later e = repo"
  shows "expected f e nv = map_option (\<lambda>row. \<lparr>Hash = row_hash row, Size = row_size row\<rparr>) (rows repo nv)"
  using assms
  by (cases "rows repo nv") (simp_all add: expected_def snapshot.hash_of_row snapshot.size_of_row)

text \<open>
  A facade built without a peer lister has no guard for it: a request for a listed package ends in
  a panic of the handler.
\<close>

lemma facade_without_lister_panics:
  assumes "f_Peers f = None" "fr_Method r = ''GET''" "packageRequest (fr_Path r) = Some nv" "nv \<noteq> ''''"
    "expected f e nv = Some want"
  shows "fst (Facade_ServeHTTP e f r fs) = None"
  using assms by (simp add: Facade_ServeHTTP_def servePackage_def servePeers_def)

text \<open>A facade that serves is never the one that panics, and its mirror URL is usable for every path.\<close>

lemma serving_facade_is_wired:
  assumes "Facade_ListenAndServe can_bind f = Inr True"
  shows "f_Peers f \<noteq> None" "f_Repo f \<noteq> None" "\<exists>target. upstreamURL (f_UpstreamURL f) p q = Inr target"
  using assms
  by (auto simp: Facade_ListenAndServe_def Check_def upstreamURL_def Let_def split: if_splits option.splits sum.splits)

subsection \<open>Witnesses\<close>

definition demo_snapshot :: Repositories where
  "demo_snapshot = \<lparr>repo_dir = ''/r'', rows = [''zip-3'' \<mapsto> \<lparr>row_hash = sha256_hex demo_body, row_size = 3\<rparr>],
     sources = Map.empty\<rparr>"

definition demo_facade :: Facade where
  "demo_facade = \<lparr>f_Peers = Some (\<lambda>nv. Some [''down'', ''good'']), f_Repo = Some demo_snapshot,
     f_Blacklist = \<lparr>blocked = None\<rparr>, f_TempDir = ''/t'', f_UpstreamURL = ''http://a.org/x/''\<rparr>"

definition demo_facade_env :: facade_env where
  "demo_facade_env = \<lparr>repo_later = demo_snapshot, fetch_envs = (\<lambda>_. demo_fetch_env None),
     upstream = (\<lambda>u h. Reply \<lparr>StatusCode = 200, ContentLength = -1,
       Header = [(''Connection'', [''close'']), (''Last-Modified'', [''now''])], Body = Finite [7] False\<rparr>),
     write_cut = 0, discard_ok = True\<rparr>"

definition demo_pkg_get :: "string \<Rightarrow> facade_request" where
  "demo_pkg_get p = \<lparr>fr_Method = ''GET'', fr_Path = p, fr_RawQuery = '''', fr_Header = []\<rparr>"

lemma demo_parse: "parsePackageName ''zip-3.pkg'' = (''zip'', ''3'')"
  by (rule parse_base) (simp_all add: startsWithDigit_def decode_rune_ascii IsDigit_ascii TrimSuffix_def
       packageFileExtension_def HasSuffix_def strip_cksum_def cksumSuffix_def lower_hex_def)

lemma demo_package_request: "packageRequest ''/All/zip-3.pkg'' = Some ''zip-3''"
proof -
  have "package_path ''/All/zip-3.pkg'' ''zip-3.pkg''"
    by (simp add: package_path_def HasSuffix_def rooted_segs_def)
  from packageRequest_path [OF this] show ?thesis by (simp add: demo_parse)
qed

lemma demo_expected: "expected demo_facade demo_facade_env ''zip-3'' = Some demo_want"
  by (simp add: expected_def demo_facade_def demo_facade_env_def demo_snapshot_def ExpectedHash_def
      ExpectedFileSizeBytes_def demo_want_def)

lemma demo_facade_simps [simp]:
  "f_Peers demo_facade = Some (\<lambda>nv. Some [''down'', ''good''])" "discard_ok demo_facade_env"
  "fetch_envs demo_facade_env j = demo_fetch_env None" "fr_Method (demo_pkg_get p) = ''GET''"
  "fr_Path (demo_pkg_get p) = p"
  by (simp_all add: demo_facade_def demo_facade_env_def demo_pkg_get_def)

lemma demo_upstream_url: "upstreamURL ''http://a.org/x/'' ''/../meta.conf'' '''' = Inr ''http://a.org/x/meta.conf''"
proof -
  have "Parse ''http://a.org/x/'' = Some (empty_url\<lparr>Scheme := ''http'', Host := ''a.org'', URLPath := ''/x/''\<rparr>)"
    by (simp add: url_eval)
  then show ?thesis
    by (simp add: upstreamURL_def Clean_def TrimPrefix_def TrimSuffix_def HasPrefix_def HasSuffix_def
        URL_String_def EscapedPath_def userinfo_str_def escape_def escape1_def shouldEscape_def alnum_def empty_url_def)
qed

theorem upstream_url_contained_witness:
  "\<exists>b segs. Parse ''http://a.org/x/'' = Some b \<and> list_all plain_seg segs \<and>
     ''http://a.org/x/meta.conf'' = URL_String (b\<lparr>URLPath :=
        base_prefix (rooted_segs (URLPath b)) @ CHR ''/'' # Join segs ''/'', RawQuery := ''''\<rparr>)"
  using upstream_url_contained [OF demo_upstream_url] by blast

theorem relay_is_transparent_witness:
  "\<exists>ans. Facade_ServeHTTP demo_facade_env demo_facade (demo_pkg_get ''/../meta.conf'') Map.empty
       = (Some ans, demo_facade, Map.empty) \<and>
     StatusCode ans = 200 \<and> map_of (Header ans) ''Last-Modified'' = Some [''now''] \<and> map_of (Header ans) ''Connection'' = None"
proof -
  let ?r = "demo_pkg_get ''/../meta.conf''"
  let ?resp = "\<lparr>StatusCode = 200, ContentLength = -1,
       Header = [(''Connection'', [''close'']), (''Last-Modified'', [''now''])], Body = Finite [7] False\<rparr> :: http_resp"
  have "\<not> package_path ''/../meta.conf'' fl" for fl
    by (auto simp: package_path_def rooted_segs_def HasSuffix_def)
  then have pr: "packageRequest (fr_Path ?r) = None" using packageRequest_other by simp
  have up: "fetchUpstream demo_facade_env demo_facade ?r (fr_Path ?r) (fr_RawQuery ?r) True = Inr ?resp"
    using demo_upstream_url
    by (simp add: fetchUpstream_def demo_facade_def demo_facade_env_def demo_pkg_get_def)
  have canon: "CanonicalHeaderKey ''Connection'' = ''Connection''" "CanonicalHeaderKey ''Last-Modified'' = ''Last-Modified''"
    "CanonicalHeaderKey ''close'' = ''Close''"
    by code_simp+
  have close: "Split ''close'' (CHR '','') = [''close'']" "TrimSpace ''close'' = ''close''" by code_simp+
  show ?thesis
    using relay_is_transparent [of ?r ?resp "[''close'']" demo_facade_env demo_facade Map.empty] pr up canon close
    by auto
qed

theorem facade_status_table_witness:
  "\<exists>ans. fst (Facade_ServeHTTP demo_facade_env demo_facade (demo_pkg_get ''/All/zip-3.pkg'') Map.empty) = Some ans
     \<and> StatusCode ans \<in> {200, 502}"
  using facade_status_table [of demo_facade demo_facade_env "demo_pkg_get ''/All/zip-3.pkg''" Map.empty]
  by (auto simp: demo_package_request demo_expected split: if_splits)

lemma demo_fetch_blacklist:
  "FetchFirst (\<lambda>_. demo_fetch_env None) [''down'', ''good''] ''zip-3'' demo_want ''/t'' (Some \<lparr>blocked = None\<rparr>) Map.empty
     = (Inr demo_tmp, Some \<lparr>blocked = None\<rparr>, [0, 1], [demo_tmp \<mapsto> demo_body])"
  by (simp add: FetchFirst_def demo_validName FetchFromPeer_def Blocked_def demo_CreateTemp
      demo_resp_def demo_spool)

theorem facade_package_answer_witness:
  "\<exists>ans f' fs'. Facade_ServeHTTP demo_facade_env demo_facade (demo_pkg_get ''/All/zip-3.pkg'') Map.empty = (Some ans, f', fs')
     \<and> fs' = Map.empty \<and> StatusCode ans = 200 \<and>
     (\<exists>bs. Body ans = Finite bs False \<and> sha256_hex bs = Hash demo_want)"
proof -
  have p: "peers_serve demo_facade_env demo_facade ''zip-3'' demo_want Map.empty"
    using demo_fetch_blacklist
    by (simp add: peers_serve_def servePeers_def demo_facade_def demo_facade_env_def)
  then obtain ans f' fs' where "servePeers demo_facade_env demo_facade ''zip-3'' demo_want Map.empty = (Answered ans, f', fs')"
    by (metis peers_serve_def prod.collapse)
  then have run: "Facade_ServeHTTP demo_facade_env demo_facade (demo_pkg_get ''/All/zip-3.pkg'') Map.empty = (Some ans, f', fs')"
    by (simp add: Facade_ServeHTTP_def demo_package_request servePackage_def demo_expected)
  from facade_package_answer [OF _ _ _ demo_expected _ _ _ run] p demo_package_request run show ?thesis by auto
qed


definition demo_rebuilt :: Repositories where
  "demo_rebuilt = demo_snapshot\<lparr>rows := [''zip-3'' \<mapsto> \<lparr>row_hash = ''00'', row_size = 9\<rparr>]\<rparr>"

theorem expected_mixes_snapshots_witness:
  "expected (demo_facade\<lparr>f_Repo := Some demo_rebuilt\<rparr>) demo_facade_env ''zip-3'' = Some \<lparr>Hash = ''00'', Size = 3\<rparr> \<and>
   corrupt (demo_fetch_env None) ''good'' ''zip-3'' \<lparr>Hash = ''00'', Size = 3\<rparr>"
  using expected_mixes_snapshots [of "demo_facade\<lparr>f_Repo := Some demo_rebuilt\<rparr>" demo_rebuilt "''zip-3''" "''00''" 9
    demo_facade_env "sha256_hex demo_body" 3 demo_body "demo_fetch_env None" "''good''"] demo_wrong_hash [of demo_body]
  by (simp add: demo_rebuilt_def demo_snapshot_def demo_facade_env_def demo_offer) (simp add: demo_body_def)

theorem expected_is_one_row_witness:
  "expected demo_facade demo_facade_env ''zip-3'' = Some \<lparr>Hash = sha256_hex demo_body, Size = 3\<rparr>"
  using expected_is_one_row [of demo_facade demo_snapshot demo_facade_env "''zip-3''"]
  by (simp add: demo_facade_def demo_facade_env_def) (simp add: demo_snapshot_def)

end
