(* ===== verification/Go_JSON.thy ===== *)
theory Go_JSON
  imports Go_Unicode Go_Net
begin

text \<open>
  The part of \<open>encoding/json\<close> the wire contract uses: the text of a string (\<open>appendString\<close> with
  HTML escaping, \<open>unquote\<close>), the syntax of one JSON value as \<open>json.Decoder\<close> reads it from the front
  of its input, and \<open>Decoder.More\<close>.

  The parser is recursive descent over the input bytes and returns the rest of the input.  It runs
  on fuel, and running out is an error of its own, \<open>JFuel\<close>; the lemmas \<open>parse_no_fuel\<close> and
  \<open>parse_fuel_mono\<close> show that one unit more than the length of the input is always enough and that
  more changes nothing.  A number is kept as its literal text, as the decoder does.
\<close>

datatype json =
    JNull
  | JBool bool
  | JNum string
  | JStr string
  | JArr "json list"
  | JObj "(string \<times> json) list"

datatype json_error = JSyntax | JFuel

subsection \<open>UTF-8\<close>

definition replacement :: string where
  "replacement = [char_of (0xEF::nat), char_of (0xBF::nat), char_of (0xBD::nat)]"

text \<open>The number of bytes \<open>utf8.DecodeRune\<close> consumes: one for an invalid sequence.\<close>

definition rune_size :: "string \<Rightarrow> nat" where
  "rune_size s =
     (let r = decode_rune s in
      if r < 0x80 then 1
      else if r = rune_error \<and> take 3 s \<noteq> replacement then 1
      else if r < 0x800 then 2
      else if r < 0x10000 then 3
      else 4)"

text \<open>The first rune is a well-formed one.\<close>

definition rune_ok :: "string \<Rightarrow> bool" where
  "rune_ok s \<longleftrightarrow> decode_rune s \<noteq> rune_error \<or> take 3 s = replacement"

text \<open>\<open>utf8.EncodeRune\<close>; surrogates and values past U+10FFFF become U+FFFD.\<close>

definition encode_rune :: "nat \<Rightarrow> string" where
  "encode_rune r =
     (if r < 0x80 then [char_of r]
      else if r < 0x800 then [char_of (0xC0 + r div 0x40), char_of (0x80 + r mod 0x40)]
      else if (0xD800 \<le> r \<and> r \<le> 0xDFFF) \<or> 0x110000 \<le> r then replacement
      else if r < 0x10000 then
        [char_of (0xE0 + r div 0x1000), char_of (0x80 + r div 0x40 mod 0x40), char_of (0x80 + r mod 0x40)]
      else
        [char_of (0xF0 + r div 0x40000), char_of (0x80 + r div 0x1000 mod 0x40),
         char_of (0x80 + r div 0x40 mod 0x40), char_of (0x80 + r mod 0x40)])"

lemma rune_size_pos [simp]: "0 < rune_size s"
  by (simp add: rune_size_def Let_def)

function valid_utf8 :: "string \<Rightarrow> bool" where
  "valid_utf8 s \<longleftrightarrow> (if s = [] then True else rune_ok s \<and> valid_utf8 (drop (rune_size s) s))"
  by auto
termination by (relation "measure length") auto

declare valid_utf8.simps [simp del]

subsection \<open>Strings\<close>

definition lower_hex :: "nat \<Rightarrow> char" where
  "lower_hex d = (if d < 10 then char_of (48 + d) else char_of (87 + d))"

text \<open>One byte below 0x80 in \<open>appendString\<close>.\<close>

definition quote_ascii :: "char \<Rightarrow> string" where
  "quote_ascii c =
     (let b = (of_char c :: nat) in
      if c = CHR 0x5C \<or> c = CHR 0x22 then [CHR 0x5C, c]
      else if c = CHR 8 then [CHR 0x5C, CHR ''b'']
      else if c = CHR 12 then [CHR 0x5C, CHR ''f'']
      else if c = CHR 10 then [CHR 0x5C, CHR ''n'']
      else if c = CHR 13 then [CHR 0x5C, CHR ''r'']
      else if c = CHR 9 then [CHR 0x5C, CHR ''t'']
      else if b < 32 \<or> c = CHR ''<'' \<or> c = CHR ''>'' \<or> c = CHR ''&''
        then [CHR 0x5C, CHR ''u'', CHR ''0'', CHR ''0'', lower_hex (b div 16), lower_hex (b mod 16)]
      else [c])"

function quote_body :: "string \<Rightarrow> string" where
  "quote_body s =
     (if s = [] then []
      else if (of_char (hd s) :: nat) < 0x80 then quote_ascii (hd s) @ quote_body (tl s)
      else
        (if \<not> rune_ok s then CHR 0x5C # ''ufffd''
         else if decode_rune s = 0x2028 then CHR 0x5C # ''u2028''
         else if decode_rune s = 0x2029 then CHR 0x5C # ''u2029''
         else take (rune_size s) s) @ quote_body (drop (rune_size s) s))"
  by auto
termination by (relation "measure length") auto

declare quote_body.simps [simp del]

definition quote :: "string \<Rightarrow> string" where
  "quote s = CHR 0x22 # quote_body s @ [CHR 0x22]"

text \<open>
  The scanner's view of a string: the raw text up to the closing quote and what follows it.
  Control bytes and unknown escapes are syntax errors.
\<close>

definition simple_escape :: "char \<Rightarrow> bool" where
  "simple_escape e \<longleftrightarrow> e \<in> {CHR ''b'', CHR ''f'', CHR ''n'', CHR ''r'', CHR ''t'', CHR 0x5C, CHR ''/'', CHR 0x22}"

definition four_hex :: "string \<Rightarrow> bool" where
  "four_hex s \<longleftrightarrow> 4 \<le> length s \<and> list_all is_hex (take 4 s)"

fun scan_string :: "string \<Rightarrow> (string \<times> string) option" where
  "scan_string [] = None"
| "scan_string (c # r) =
     (if c = CHR 0x22 then Some ([], r)
      else if c = CHR 0x5C then
        (case r of
           [] \<Rightarrow> None
         | e # r' \<Rightarrow>
             if simple_escape e then map_option (map_prod (\<lambda>raw. c # e # raw) id) (scan_string r')
             else if e = CHR ''u'' \<and> four_hex r'
               then map_option (map_prod (\<lambda>raw. c # e # take 4 r' @ raw) id) (scan_string (drop 4 r'))
             else None)
      else if (of_char c :: nat) < 32 then None
      else map_option (map_prod (\<lambda>raw. c # raw) id) (scan_string r))"

text \<open>\<open>getu4\<close>: the value of \<open>\uXXXX\<close> at the front.\<close>

definition getu4 :: "string \<Rightarrow> nat option" where
  "getu4 s =
     (if 6 \<le> length s \<and> s ! 0 = CHR 0x5C \<and> s ! 1 = CHR ''u'' \<and> list_all is_hex (take 4 (drop 2 s))
      then Some (hex_value (take 4 (drop 2 s))) else None)"

text \<open>\<open>utf16.DecodeRune\<close>.\<close>

definition utf16_pair :: "nat \<Rightarrow> nat \<Rightarrow> nat option" where
  "utf16_pair r1 r2 =
     (if 0xD800 \<le> r1 \<and> r1 < 0xDC00 \<and> 0xDC00 \<le> r2 \<and> r2 < 0xE000
      then Some ((r1 - 0xD800) * 0x400 + (r2 - 0xDC00) + 0x10000) else None)"

definition escape_value :: "char \<Rightarrow> char" where
  "escape_value e =
     (if e = CHR ''b'' then CHR 8 else if e = CHR ''f'' then CHR 12 else if e = CHR ''n'' then CHR 10
      else if e = CHR ''r'' then CHR 13 else if e = CHR ''t'' then CHR 9 else e)"

function unquote :: "string \<Rightarrow> string option" where
  "unquote s =
     (if s = [] then Some []
      else if hd s = CHR 0x5C then
        (case tl s of
           [] \<Rightarrow> None
         | e # r \<Rightarrow>
             if e = CHR ''u'' then
               (case getu4 s of
                  None \<Rightarrow> None
                | Some rr \<Rightarrow>
                    if 0xD800 \<le> rr \<and> rr < 0xE000 then
                      (case Option.bind (getu4 (drop 6 s)) (utf16_pair rr) of
                         Some d \<Rightarrow> map_option (append (encode_rune d)) (unquote (drop 12 s))
                       | None \<Rightarrow> map_option (append replacement) (unquote (drop 6 s)))
                    else map_option (append (encode_rune rr)) (unquote (drop 6 s)))
             else if simple_escape e then map_option (Cons (escape_value e)) (unquote r)
             else None)
      else if hd s = CHR 0x22 \<or> (of_char (hd s) :: nat) < 32 then None
      else if (of_char (hd s) :: nat) < 0x80 then map_option (Cons (hd s)) (unquote (tl s))
      else map_option (append (if rune_ok s then take (rune_size s) s else replacement))
             (unquote (drop (rune_size s) s)))"
  by auto
termination by (relation "measure length") (auto simp: getu4_def neq_Nil_conv split: if_splits)

declare unquote.simps [simp del]

subsection \<open>The text of a string reads back\<close>

lemma byte_Cons [simp]:
  "byte_at (c # s) 0 = of_char c" "byte_at (c # s) (Suc n) = byte_at s n" "byte_at [] n = 0"
  by (simp_all add: byte_at_def)

lemmas decode_eval = decode_rune_def Let_def cont_def rune_error_def numeral_2_eq_2 numeral_3_eq_3

text \<open>The well-formed sequences of two, three and four bytes.\<close>

definition two_bytes :: "string \<Rightarrow> nat \<Rightarrow> nat \<Rightarrow> string \<Rightarrow> bool" where
  "two_bytes s a b r \<longleftrightarrow> s = char_of (0xC0 + a) # char_of (0x80 + b) # r \<and> 2 \<le> a \<and> a < 0x20 \<and> b < 0x40"

definition three_bytes :: "string \<Rightarrow> nat \<Rightarrow> nat \<Rightarrow> nat \<Rightarrow> string \<Rightarrow> bool" where
  "three_bytes s a b c r \<longleftrightarrow>
     s = char_of (0xE0 + a) # char_of (0x80 + b) # char_of (0x80 + c) # r \<and>
     a < 0x10 \<and> b < 0x40 \<and> c < 0x40 \<and> (a = 0 \<longrightarrow> 0x20 \<le> b) \<and> (a = 0xD \<longrightarrow> b < 0x20)"

definition four_bytes :: "string \<Rightarrow> nat \<Rightarrow> nat \<Rightarrow> nat \<Rightarrow> nat \<Rightarrow> string \<Rightarrow> bool" where
  "four_bytes s a b c d r \<longleftrightarrow>
     s = char_of (0xF0 + a) # char_of (0x80 + b) # char_of (0x80 + c) # char_of (0x80 + d) # r \<and>
     a < 5 \<and> b < 0x40 \<and> c < 0x40 \<and> d < 0x40 \<and> (a = 0 \<longrightarrow> 0x10 \<le> b) \<and> (a = 4 \<longrightarrow> b < 0x10)"

lemma two_bytes_decode: "two_bytes s a b r \<Longrightarrow> decode_rune s = a * 0x40 + b"
  by (auto simp: two_bytes_def decode_eval)

lemma three_bytes_decode: "three_bytes s a b c r \<Longrightarrow> decode_rune s = a * 0x1000 + b * 0x40 + c"
  by (auto simp: three_bytes_def decode_eval)

lemma four_bytes_decode: "four_bytes s a b c d r \<Longrightarrow> decode_rune s = a * 0x40000 + b * 0x1000 + c * 0x40 + d"
  by (auto simp: four_bytes_def decode_eval)

lemma char_off: "k \<le> (of_char c :: nat) \<Longrightarrow> char_of (k + (of_char c - k)) = c"
  by simp

lemma rune_forms:
  assumes "s \<noteq> []" "rune_ok s" "\<not> (of_char (hd s) :: nat) < 0x80"
  obtains a b r where "two_bytes s a b r" | a b c r where "three_bytes s a b c r"
  | a b c d r where "four_bytes s a b c d r"
proof -
  obtain c0 t where s0: "s = c0 # t" and c0: "0x80 \<le> (of_char c0 :: nat)" using assms(1,3) by (cases s) auto
  show thesis
  proof (cases "decode_rune s = rune_error")
    case True
    then have "take 3 s = replacement" using assms(2) by (simp add: rune_ok_def)
    then have "s = replacement @ drop 3 s" by (metis append_take_drop_id)
    then have "three_bytes s 0xF 0x3F 0x3D (drop 3 s)" by (simp add: three_bytes_def replacement_def)
    then show thesis by (rule that(2))
  next
    case ok: False
    consider "0xC2 \<le> (of_char c0 :: nat) \<and> (of_char c0 :: nat) \<le> 0xDF"
      | "0xE0 \<le> (of_char c0 :: nat) \<and> (of_char c0 :: nat) \<le> 0xEF"
      | "0xF0 \<le> (of_char c0 :: nat) \<and> (of_char c0 :: nat) \<le> 0xF4"
      using ok c0 s0 by (auto simp: decode_eval split: if_splits)
    then show thesis
    proof cases
      case 1
      obtain c1 t1 where "t = c1 # t1" using ok s0 1 by (cases t) (auto simp: decode_eval split: if_splits)
      with ok s0 1 have "two_bytes s (of_char c0 - 0xC0) (of_char c1 - 0x80) t1"
        by (auto simp: two_bytes_def char_off decode_eval split: if_splits)
      then show thesis by (rule that(1))
    next
      case 2
      obtain c1 t1 where s1: "t = c1 # t1" using ok s0 2 by (cases t) (auto simp: decode_eval split: if_splits)
      obtain c2 t2 where "t1 = c2 # t2" using ok s0 s1 2 by (cases t1) (auto simp: decode_eval split: if_splits)
      with ok s0 s1 2 have "three_bytes s (of_char c0 - 0xE0) (of_char c1 - 0x80) (of_char c2 - 0x80) t2"
        by (auto simp: three_bytes_def char_off decode_eval split: if_splits)
      then show thesis by (rule that(2))
    next
      case 3
      obtain c1 t1 where s1: "t = c1 # t1" using ok s0 3 by (cases t) (auto simp: decode_eval split: if_splits)
      obtain c2 t2 where s2: "t1 = c2 # t2" using ok s0 s1 3 by (cases t1) (auto simp: decode_eval split: if_splits)
      obtain c3 t3 where "t2 = c3 # t3" using ok s0 s1 s2 3 by (cases t2) (auto simp: decode_eval split: if_splits)
      with ok s0 s1 s2 3
      have "four_bytes s (of_char c0 - 0xF0) (of_char c1 - 0x80) (of_char c2 - 0x80) (of_char c3 - 0x80) t3"
        by (auto simp: four_bytes_def char_off decode_eval split: if_splits)
      then show thesis by (rule that(3))
    qed
  qed
qed

lemma two_bytes_size: "two_bytes s a b r \<Longrightarrow> rune_size s = 2 \<and> rune_ok s"
  using two_bytes_decode [of s a b r] by (auto simp: two_bytes_def rune_size_def rune_ok_def rune_error_def Let_def)

lemma base64_digits:
  fixes a b c d :: nat
  assumes "b < 64" "c < 64" "d < 64"
  shows "(a * 64 + d) div 64 = a" "(a * 64 + d) mod 64 = d"
    "(a * 0x1000 + b * 64 + d) div 0x1000 = a" "(a * 0x1000 + b * 64 + d) div 64 mod 64 = b"
    "(a * 0x1000 + b * 64 + d) mod 64 = d"
    "(a * 0x40000 + b * 0x1000 + c * 64 + d) div 0x40000 = a"
    "(a * 0x40000 + b * 0x1000 + c * 64 + d) div 0x1000 mod 64 = b"
    "(a * 0x40000 + b * 0x1000 + c * 64 + d) div 64 mod 64 = c"
    "(a * 0x40000 + b * 0x1000 + c * 64 + d) mod 64 = d"
proof -
  have d: "\<And>x. (64 * x + d) div 64 = x" "\<And>x. (64 * x + d) mod 64 = d" using assms by simp_all
  have c: "\<And>x. (64 * x + c) div 64 = x" "\<And>x. (64 * x + c) mod 64 = c" using assms by simp_all
  have b: "\<And>x. (64 * x + b) div 64 = x" "\<And>x. (64 * x + b) mod 64 = b" using assms by simp_all
  have two: "a * 64 + d = 64 * a + d" by simp
  have three: "a * 0x1000 + b * 64 + d = 64 * (64 * a + b) + d" by simp
  have four: "a * 0x40000 + b * 0x1000 + c * 64 + d = 64 * (64 * (64 * a + b) + c) + d" by simp
  have k: "\<And>x::nat. x div 0x1000 = x div 64 div 64" "\<And>x::nat. x div 0x40000 = x div 64 div 64 div 64"
    by (simp_all add: div_mult2_eq [symmetric])
  show "(a * 64 + d) div 64 = a" "(a * 64 + d) mod 64 = d" unfolding two by (rule d)+
  show "(a * 0x1000 + b * 64 + d) div 0x1000 = a" "(a * 0x1000 + b * 64 + d) div 64 mod 64 = b"
    "(a * 0x1000 + b * 64 + d) mod 64 = d" unfolding three k d b by (rule refl)+
  show "(a * 0x40000 + b * 0x1000 + c * 64 + d) div 0x40000 = a"
    "(a * 0x40000 + b * 0x1000 + c * 64 + d) div 0x1000 mod 64 = b"
    "(a * 0x40000 + b * 0x1000 + c * 64 + d) div 64 mod 64 = c"
    "(a * 0x40000 + b * 0x1000 + c * 64 + d) mod 64 = d" unfolding four k d c b by (rule refl)+
qed

lemma three_bytes_range:
  assumes "three_bytes s a b c r"
  shows "0x800 \<le> decode_rune s" "decode_rune s < 0x10000" "decode_rune s < 0xD800 \<or> 0xDFFF < decode_rune s"
proof -
  have ab: "b < 64" "c < 64" "a < 16" "a = 0 \<Longrightarrow> 32 \<le> b" "a = 13 \<Longrightarrow> b < 32" using assms by (auto simp: three_bytes_def)
  show "decode_rune s < 0x10000" unfolding three_bytes_decode [OF assms] using ab by simp
  show "0x800 \<le> decode_rune s" unfolding three_bytes_decode [OF assms] using ab by (cases "a = 0") auto
  consider "a < 13" | "a = 13" | "13 < a" by linarith
  then show "decode_rune s < 0xD800 \<or> 0xDFFF < decode_rune s"
    unfolding three_bytes_decode [OF assms] using ab by cases auto
qed

lemma four_bytes_range:
  assumes "four_bytes s a b c d r"
  shows "0x10000 \<le> decode_rune s" "decode_rune s < 0x110000"
proof -
  have ab: "b < 64" "c < 64" "d < 64" "a < 5" "a = 0 \<Longrightarrow> 16 \<le> b" "a = 4 \<Longrightarrow> b < 16"
    using assms by (auto simp: four_bytes_def)
  show "0x10000 \<le> decode_rune s" unfolding four_bytes_decode [OF assms] using ab by (cases "a = 0") auto
  show "decode_rune s < 0x110000" unfolding four_bytes_decode [OF assms] using ab by (cases "a = 4") auto
qed

lemma three_bytes_size:
  assumes s: "three_bytes s a b c r"
  shows "rune_size s = 3 \<and> rune_ok s"
proof -
  have bc: "b < 64" "c < 64" using s by (auto simp: three_bytes_def)
  have "take 3 s = replacement" if "decode_rune s = rune_error"
  proof -
    have e: "a * 0x1000 + b * 0x40 + c = 0xFFFD"
      using that three_bytes_decode [OF s] by (simp add: rune_error_def)
    have "a = 0xF" "b = 0x3F" "c = 0x3D"
      using base64_digits(3-5) [OF bc(1) bc, of a] unfolding e by simp_all
    then show ?thesis using s by (simp add: three_bytes_def replacement_def)
  qed
  then show ?thesis using three_bytes_range [OF s] by (auto simp: rune_size_def rune_ok_def Let_def)
qed

lemma four_bytes_size:
  assumes s: "four_bytes s a b c d r"
  shows "rune_size s = 4 \<and> rune_ok s"
  using four_bytes_range [OF s] by (auto simp: rune_size_def rune_ok_def rune_error_def Let_def)

definition high :: "char \<Rightarrow> bool" where
  "high c \<longleftrightarrow> 0x80 \<le> (of_char c :: nat)"

text \<open>A multi-byte rune is made of high bytes, is what its code point encodes to, and is read
  the same way whatever follows it.\<close>

lemma multibyte_rune:
  assumes "s \<noteq> []" "rune_ok s" "\<not> (of_char (hd s) :: nat) < 0x80"
  shows "list_all high (take (rune_size s) s) \<and> length (take (rune_size s) s) = rune_size s \<and>
    take (rune_size s) s = encode_rune (decode_rune s) \<and> take (rune_size s) s \<noteq> [] \<and>
    (\<forall>t. rune_ok (take (rune_size s) s @ t) \<and> rune_size (take (rune_size s) s @ t) = rune_size s)"
  using assms
proof (cases rule: rune_forms)
  case (1 a b r)
  have "\<forall>t. two_bytes (take 2 s @ t) a b t" using 1 by (simp add: two_bytes_def)
  then have t: "\<forall>t. rune_ok (take 2 s @ t) \<and> rune_size (take 2 s @ t) = 2" using two_bytes_size by blast
  have bd: "b < 64" "2 \<le> a" "a < 32" using 1 by (auto simp: two_bytes_def)
  then have "decode_rune s div 64 = a" "decode_rune s mod 64 = b" "0x80 \<le> decode_rune s" "decode_rune s < 0x800"
    unfolding two_bytes_decode [OF 1] using base64_digits(1,2) [OF bd(1,1,1), of a] by simp_all
  then show ?thesis using 1 two_bytes_size [OF 1] t
    by (simp add: two_bytes_def high_def encode_rune_def)
next
  case (2 a b c r)
  have "\<forall>t. three_bytes (take 3 s @ t) a b c t" using 2 by (simp add: three_bytes_def)
  then have t: "\<forall>t. rune_ok (take 3 s @ t) \<and> rune_size (take 3 s @ t) = 3" using three_bytes_size by blast
  have bd: "b < 64" "c < 64" "a < 16" using 2 by (auto simp: three_bytes_def)
  then have "decode_rune s div 0x1000 = a" "decode_rune s div 64 mod 64 = b" "decode_rune s mod 64 = c"
    unfolding three_bytes_decode [OF 2] using base64_digits(3-5) [OF bd(1,1,2), of a] by simp_all
  then have "encode_rune (decode_rune s) = [char_of (0xE0 + a), char_of (0x80 + b), char_of (0x80 + c)]"
    using three_bytes_range [OF 2] unfolding encode_rune_def by auto
  then show ?thesis using 2 three_bytes_size [OF 2] t by (simp add: three_bytes_def high_def)
next
  case (3 a b c d r)
  have "\<forall>t. four_bytes (take 4 s @ t) a b c d t" using 3 by (simp add: four_bytes_def)
  then have t: "\<forall>t. rune_ok (take 4 s @ t) \<and> rune_size (take 4 s @ t) = 4" using four_bytes_size by blast
  have bd: "b < 64" "c < 64" "d < 64" using 3 by (auto simp: four_bytes_def)
  then have "decode_rune s div 0x40000 = a" "decode_rune s div 0x1000 mod 64 = b"
    "decode_rune s div 64 mod 64 = c" "decode_rune s mod 64 = d"
    unfolding four_bytes_decode [OF 3] using base64_digits(6-9) [OF bd, of a] by simp_all
  then have "encode_rune (decode_rune s) =
      [char_of (0xF0 + a), char_of (0x80 + b), char_of (0x80 + c), char_of (0x80 + d)]"
    using four_bytes_range [OF 3] unfolding encode_rune_def by auto
  then show ?thesis using 3 four_bytes_size [OF 3] t by (simp add: four_bytes_def high_def)
qed

text \<open>A piece of quoted text: the scanner passes over it and \<open>unquote\<close> reads it as \<open>v\<close>,
  whatever follows.\<close>

definition piece :: "string \<Rightarrow> string \<Rightarrow> bool" where
  "piece p v \<longleftrightarrow>
     (\<forall>t. scan_string (p @ t) = map_option (map_prod (append p) id) (scan_string t) \<and>
          unquote (p @ t) = map_option (append v) (unquote t))"

lemma pieceI:
  assumes "\<And>t. scan_string (p @ t) = map_option (map_prod (append p) id) (scan_string t)"
    "\<And>t. unquote (p @ t) = map_option (append v) (unquote t)"
  shows "piece p v"
  using assms by (simp add: piece_def)

lemma hex_digit_lower: "d < 16 \<Longrightarrow> hex_digit (lower_hex d) = Some d"
  by (auto simp: hex_digit_def lower_hex_def)

lemma is_hex_lower: "d < 16 \<Longrightarrow> is_hex (lower_hex d)"
  by (simp add: is_hex_def hex_digit_lower)

lemma scan_high: "list_all high p \<Longrightarrow> scan_string (p @ t) = map_option (map_prod (append p) id) (scan_string t)"
proof (induction p)
  case Nil
  then show ?case by (cases "scan_string t") auto
next
  case (Cons c p)
  then have "c \<noteq> CHR 0x22" "c \<noteq> CHR 0x5C" "\<not> (of_char c :: nat) < 32" by (auto simp: high_def)
  with Cons show ?case by (cases "scan_string t") auto
qed

lemma unquote_high:
  assumes "high c" "rune_ok ((c # q) @ t)" "rune_size ((c # q) @ t) = length (c # q)"
  shows "unquote ((c # q) @ t) = map_option (append (c # q)) (unquote t)"
proof -
  have "c \<noteq> CHR 0x22" "c \<noteq> CHR 0x5C" "\<not> (of_char c :: nat) < 32" "\<not> (of_char c :: nat) < 128"
    using assms(1) by (auto simp: high_def)
  then show ?thesis using assms(2,3) by (subst unquote.simps) simp
qed

lemma piece_multibyte:
  assumes "s \<noteq> []" "rune_ok s" "\<not> (of_char (hd s) :: nat) < 0x80"
  shows "piece (take (rune_size s) s) (take (rune_size s) s)"
proof (rule pieceI)
  let ?p = "take (rune_size s) s"
  have m: "list_all high ?p" "length ?p = rune_size s" "?p \<noteq> []"
      "\<And>t. rune_ok (?p @ t)" "\<And>t. rune_size (?p @ t) = rune_size s"
    using multibyte_rune [OF assms] by blast+
  fix t
  show "scan_string (?p @ t) = map_option (map_prod (append ?p) id) (scan_string t)"
    by (rule scan_high [OF m(1)])
  obtain c q where p: "?p = c # q" "high c" using m(1,3) by (cases ?p) auto
  then show "unquote (?p @ t) = map_option (append ?p) (unquote t)"
    using m(2) m(4,5) [of t] unfolding p by (intro unquote_high) auto
qed

lemma piece_simple:
  assumes "simple_escape e"
  shows "piece [CHR 0x5C, e] [escape_value e]"
proof (rule pieceI)
  fix t
  have e: "e \<noteq> CHR ''u''" using assms by (auto simp: simple_escape_def)
  show "scan_string ([CHR 0x5C, e] @ t) = map_option (map_prod (append [CHR 0x5C, e]) id) (scan_string t)"
    using assms by (cases "scan_string t") auto
  show "unquote ([CHR 0x5C, e] @ t) = map_option (append [escape_value e]) (unquote t)"
    using assms e by (subst unquote.simps) (auto intro: option.map_cong)
qed

lemma piece_plain:
  assumes "c \<noteq> CHR 0x22" "c \<noteq> CHR 0x5C" "32 \<le> (of_char c :: nat)" "(of_char c :: nat) < 128"
  shows "piece [c] [c]"
proof (rule pieceI)
  fix t
  show "scan_string ([c] @ t) = map_option (map_prod (append [c]) id) (scan_string t)"
    using assms by (cases "scan_string t") auto
  show "unquote ([c] @ t) = map_option (append [c]) (unquote t)"
    using assms by (subst unquote.simps) (auto intro: option.map_cong)
qed

lemma piece_u4:
  assumes "list_all is_hex [a, b, c, d]" "\<not> (0xD800 \<le> hex_value [a, b, c, d] \<and> hex_value [a, b, c, d] < 0xE000)"
  shows "piece [CHR 0x5C, CHR ''u'', a, b, c, d] (encode_rune (hex_value [a, b, c, d]))"
proof (rule pieceI)
  fix t
  have "\<not> simple_escape CHR ''u''" by (simp add: simple_escape_def)
  then show "scan_string ([CHR 0x5C, CHR ''u'', a, b, c, d] @ t) =
      map_option (map_prod (append [CHR 0x5C, CHR ''u'', a, b, c, d]) id) (scan_string t)"
    using assms(1) by (cases "scan_string t") (auto simp: four_hex_def)
  show "unquote ([CHR 0x5C, CHR ''u'', a, b, c, d] @ t) =
      map_option (append (encode_rune (hex_value [a, b, c, d]))) (unquote t)"
    using assms by (subst unquote.simps) (auto simp: getu4_def)
qed

lemmas esc_simps = quote_ascii_def simple_escape_def escape_value_def Let_def

lemma piece_quote_ascii:
  assumes "(of_char c :: nat) < 128"
  shows "piece (quote_ascii c) [c]"
proof -
  let ?b = "of_char c :: nat"
  have esc: "quote_ascii c = [CHR 0x5C, e] \<Longrightarrow> simple_escape e \<Longrightarrow> escape_value e = c \<Longrightarrow> ?thesis" for e
    using piece_simple [of e] by simp
  consider (self) "c = CHR 0x5C \<or> c = CHR 0x22" | (ctl) "c \<in> {CHR 8, CHR 12, CHR 10, CHR 13, CHR 9}"
    | (hex) "c \<noteq> CHR 0x5C" "c \<noteq> CHR 0x22" "c \<notin> {CHR 8, CHR 12, CHR 10, CHR 13, CHR 9}"
        "?b < 32 \<or> c = CHR ''<'' \<or> c = CHR ''>'' \<or> c = CHR ''&''"
    | (plain) "c \<noteq> CHR 0x5C" "c \<noteq> CHR 0x22" "c \<notin> {CHR 8, CHR 12, CHR 10, CHR 13, CHR 9}"
        "\<not> (?b < 32 \<or> c = CHR ''<'' \<or> c = CHR ''>'' \<or> c = CHR ''&'')"
    by blast
  then show ?thesis
  proof cases
    case self
    then show ?thesis by (intro esc [of c]) (auto simp: esc_simps)
  next
    case ctl
    then consider "c = CHR 8" | "c = CHR 12" | "c = CHR 10" | "c = CHR 13" | "c = CHR 9" by blast
    then show ?thesis
    proof cases
      case 1
      then show ?thesis by (intro esc [of "CHR ''b''"]) (simp_all add: esc_simps)
    next
      case 2
      then show ?thesis by (intro esc [of "CHR ''f''"]) (simp_all add: esc_simps)
    next
      case 3
      then show ?thesis by (intro esc [of "CHR ''n''"]) (simp_all add: esc_simps)
    next
      case 4
      then show ?thesis by (intro esc [of "CHR ''r''"]) (simp_all add: esc_simps)
    next
      case 5
      then show ?thesis by (intro esc [of "CHR ''t''"]) (simp_all add: esc_simps)
    qed
  next
    case hex
    let ?h = "[CHR ''0'', CHR ''0'', lower_hex (?b div 16), lower_hex (?b mod 16)]"
    have d: "?b div 16 < 16" "?b mod 16 < 16" using assms by auto
    have z: "hex_digit CHR ''0'' = Some 0" by (simp add: hex_digit_def)
    have v: "hex_value ?h = ?b" using d by (simp add: hex_value_def hex_digit_lower z)
    have "is_hex CHR ''0''" by (simp add: is_hex_def hex_digit_def)
    then have "list_all is_hex ?h" using d by (simp add: is_hex_lower)
    moreover have "quote_ascii c = CHR 0x5C # CHR ''u'' # ?h"
      using hex by (simp add: quote_ascii_def Let_def)
    moreover have "encode_rune ?b = [c]" using assms by (simp add: encode_rune_def)
    ultimately show ?thesis
      using piece_u4 [of "CHR ''0''" "CHR ''0''" "lower_hex (?b div 16)" "lower_hex (?b mod 16)"] assms
      unfolding v by simp
  next
    case plain
    then show ?thesis using assms piece_plain [of c] by (simp add: quote_ascii_def Let_def)
  qed
qed

lemma piece_append:
  assumes "piece p v"
  shows "scan_string (p @ t) = map_option (map_prod (append p) id) (scan_string t)"
    "unquote (p @ t) = map_option (append v) (unquote t)"
  using assms by (auto simp: piece_def)

text \<open>What one rune of a string is quoted to, and what it reads back as.\<close>

definition rune_text :: "string \<Rightarrow> string" where
  "rune_text s =
     (if \<not> rune_ok s then CHR 0x5C # ''ufffd''
      else if decode_rune s = 0x2028 then CHR 0x5C # ''u2028''
      else if decode_rune s = 0x2029 then CHR 0x5C # ''u2029''
      else take (rune_size s) s)"

lemma piece_rune:
  assumes "s \<noteq> []" "\<not> (of_char (hd s) :: nat) < 0x80"
  shows "piece (rune_text s) (if rune_ok s then take (rune_size s) s else replacement)"
proof -
  have u: "list_all is_hex ''fffd''" "list_all is_hex ''2028''" "list_all is_hex ''2029''"
    "hex_value ''fffd'' = 0xFFFD" "hex_value ''2028'' = 0x2028" "hex_value ''2029'' = 0x2029"
    by (simp_all add: is_hex_def hex_digit_def hex_value_def)
  have e: "encode_rune 0xFFFD = replacement" by (simp add: encode_rune_def replacement_def)
  show ?thesis
    using piece_multibyte [OF assms(1) _ assms(2)] multibyte_rune [OF assms(1) _ assms(2)]
      piece_u4 [OF u(1)] piece_u4 [OF u(2)] piece_u4 [OF u(3)]
    by (auto simp: rune_text_def u e)
qed


lemma quote_body_step:
  assumes "s \<noteq> []"
  shows "quote_body s =
    (if (of_char (hd s) :: nat) < 0x80 then quote_ascii (hd s) @ quote_body (tl s)
     else rune_text s @ quote_body (drop (rune_size s) s))"
  using assms by (subst quote_body.simps) (simp add: rune_text_def)

lemma scan_quote_body: "scan_string (quote_body s @ CHR 0x22 # r) = Some (quote_body s, r)"
proof (induction s rule: quote_body.induct)
  case (1 s)
  show ?case
  proof (cases "s = []")
    case False
    then show ?thesis
      using 1 piece_append(1) [OF piece_quote_ascii [of "hd s"]] piece_append(1) [OF piece_rune [OF False]]
      by (simp add: quote_body_step)
  qed (simp add: quote_body.simps)
qed

lemma ascii_rune: "s \<noteq> [] \<Longrightarrow> (of_char (hd s) :: nat) < 0x80 \<Longrightarrow> rune_size s = 1 \<and> rune_ok s"
  by (cases s) (auto simp: rune_size_def rune_ok_def decode_rune_ascii rune_error_def)

text \<open>What becomes of a text on the way through JSON: every byte that is not part of well-formed UTF-8 turns
  into U+FFFD.\<close>

function utf8_text :: "string \<Rightarrow> string" where
  "utf8_text s =
     (if s = [] then []
      else (if rune_ok s then take (rune_size s) s else replacement) @ utf8_text (drop (rune_size s) s))"
  by auto
termination by (relation "measure length") auto

declare utf8_text.simps [simp del]

lemma utf8_text_id: "utf8_text s = s \<longleftrightarrow> valid_utf8 s"
proof (induction s rule: utf8_text.induct)
  case (1 s)
  show ?case
  proof (cases "s = []")
    case ne: False
    show ?thesis
    proof (cases "rune_ok s")
      case True
      have "utf8_text s = take (rune_size s) s @ utf8_text (drop (rune_size s) s)"
        using ne True by (subst utf8_text.simps) simp
      then have "utf8_text s = s \<longleftrightarrow> utf8_text (drop (rune_size s) s) = drop (rune_size s) s"
        by (metis append_take_drop_id same_append_eq)
      then show ?thesis using 1 [OF ne] ne True by (subst valid_utf8.simps) simp
    next
      case False
      have "utf8_text s \<noteq> s"
      proof
        assume "utf8_text s = s"
        then have "replacement @ utf8_text (drop (rune_size s) s) = s" using ne False by (subst (asm) utf8_text.simps) simp
        then have "take 3 s = take 3 (replacement @ utf8_text (drop (rune_size s) s))" by simp
        then have "take 3 s = replacement" by (simp add: replacement_def)
        with False show False by (simp add: rune_ok_def)
      qed
      then show ?thesis using ne False by (subst valid_utf8.simps) simp
    qed
  qed (simp add: utf8_text.simps valid_utf8.simps)
qed

lemma unquote_quote_text: "unquote (quote_body s) = Some (utf8_text s)"
proof (induction s rule: quote_body.induct)
  case (1 s)
  show ?case
  proof (cases "s = []")
    case ne: False
    show ?thesis
    proof (cases "(of_char (hd s) :: nat) < 0x80")
      case True
      moreover have "take 1 s = [hd s]" using ne by (cases s) simp_all
      ultimately show ?thesis
        using 1(1) [OF ne True] ne ascii_rune [OF ne True] piece_append(2) [OF piece_quote_ascii [OF True]]
        by (subst utf8_text.simps) (simp add: quote_body_step drop_Suc)
    next
      case False
      then show ?thesis
        using 1(2) [OF ne False] ne piece_append(2) [OF piece_rune [OF ne False]]
        by (subst utf8_text.simps) (simp add: quote_body_step)
    qed
  qed (simp add: quote_body.simps unquote.simps utf8_text.simps)
qed

lemma unquote_quote_body: "valid_utf8 s \<Longrightarrow> unquote (quote_body s) = Some s"
  using utf8_text_id [of s] by (simp add: unquote_quote_text)

lemma valid_utf8_ascii: "list_all (\<lambda>c. (of_char c :: nat) < 0x80) s \<Longrightarrow> valid_utf8 s"
proof (induction s)
  case (Cons c s)
  then show ?case using ascii_rune [of "c # s"] by (subst valid_utf8.simps) simp
qed (simp add: valid_utf8.simps)

subsection \<open>Values\<close>

definition maxNestingDepth :: nat where "maxNestingDepth = 10000"

definition is_space :: "char \<Rightarrow> bool" where
  "is_space c \<longleftrightarrow> c = CHR '' '' \<or> c = CHR 9 \<or> c = CHR 13 \<or> c = CHR 10"

definition skip :: "string \<Rightarrow> string" where
  "skip s = dropWhile is_space s"

text \<open>A number: an optional sign, an integer part without leading zeros, and an optional fraction
  and exponent, each with at least one digit.\<close>

definition scan_frac :: "string \<Rightarrow> (string \<times> string) option" where
  "scan_frac s =
     (if s = [] \<or> hd s \<noteq> CHR ''.'' then Some ([], s)
      else let ds = takeWhile is_digit (tl s) in
        if ds = [] then None else Some (CHR ''.'' # ds, dropWhile is_digit (tl s)))"

definition scan_exp :: "string \<Rightarrow> (string \<times> string) option" where
  "scan_exp s =
     (if s = [] \<or> (hd s \<noteq> CHR ''e'' \<and> hd s \<noteq> CHR ''E'') then Some ([], s)
      else let sgn = (if tl s \<noteq> [] \<and> (hd (tl s) = CHR ''+'' \<or> hd (tl s) = CHR ''-'') then [hd (tl s)] else []);
               t = drop (length sgn) (tl s); ds = takeWhile is_digit t
        in if ds = [] then None else Some (hd s # sgn @ ds, dropWhile is_digit t))"

definition scan_number :: "string \<Rightarrow> (string \<times> string) option" where
  "scan_number s =
     (let sgn = (if s \<noteq> [] \<and> hd s = CHR ''-'' then [CHR ''-''] else []);
          t = drop (length sgn) s;
          ds = (if t \<noteq> [] \<and> hd t = CHR ''0'' then [CHR ''0''] else takeWhile is_digit t)
      in if ds = [] then None
         else case scan_frac (drop (length ds) t) of
           None \<Rightarrow> None
         | Some (f, r) \<Rightarrow>
             (case scan_exp r of None \<Rightarrow> None | Some (e, r') \<Rightarrow> Some (sgn @ ds @ f @ e, r')))"

definition parse_string :: "string \<Rightarrow> json_error + (string \<times> string)" where
  "parse_string r =
     (case scan_string r of
        None \<Rightarrow> Inl JSyntax
      | Some (raw, r') \<Rightarrow> (case unquote raw of None \<Rightarrow> Inl JSyntax | Some v \<Rightarrow> Inr (v, r')))"

definition parse_scalar :: "string \<Rightarrow> json_error + (json \<times> string)" where
  "parse_scalar s =
     (if HasPrefix s ''true'' then Inr (JBool True, drop 4 s)
      else if HasPrefix s ''false'' then Inr (JBool False, drop 5 s)
      else if HasPrefix s ''null'' then Inr (JNull, drop 4 s)
      else case scan_number s of None \<Rightarrow> Inl JSyntax | Some (l, r) \<Rightarrow> Inr (JNum l, r))"

text \<open>\<open>d\<close> is the number of levels that may still be opened.\<close>

fun parse_value :: "nat \<Rightarrow> nat \<Rightarrow> string \<Rightarrow> json_error + (json \<times> string)"
  and parse_elems :: "nat \<Rightarrow> nat \<Rightarrow> string \<Rightarrow> json_error + (json list \<times> string)"
  and parse_members :: "nat \<Rightarrow> nat \<Rightarrow> string \<Rightarrow> json_error + ((string \<times> json) list \<times> string)" where
  "parse_value 0 d s = Inl JFuel"
| "parse_value (Suc n) d s =
     (case skip s of
        [] \<Rightarrow> Inl JSyntax
      | c # r \<Rightarrow>
          if c = CHR ''{'' then
            (if d = 0 then Inl JSyntax
             else if skip r \<noteq> [] \<and> hd (skip r) = CHR ''}'' then Inr (JObj [], tl (skip r))
             else map_sum id (map_prod JObj id) (parse_members n (d - 1) r))
          else if c = CHR ''['' then
            (if d = 0 then Inl JSyntax
             else if skip r \<noteq> [] \<and> hd (skip r) = CHR '']'' then Inr (JArr [], tl (skip r))
             else map_sum id (map_prod JArr id) (parse_elems n (d - 1) r))
          else if c = CHR 0x22 then map_sum id (map_prod JStr id) (parse_string r)
          else parse_scalar (c # r))"
| "parse_elems 0 d s = Inl JFuel"
| "parse_elems (Suc n) d s =
     (case parse_value n d s of
        Inl e \<Rightarrow> Inl e
      | Inr (v, r) \<Rightarrow>
          (case skip r of
             [] \<Rightarrow> Inl JSyntax
           | c # r' \<Rightarrow>
               if c = CHR '','' then map_sum id (map_prod (Cons v) id) (parse_elems n d r')
               else if c = CHR '']'' then Inr ([v], r')
               else Inl JSyntax))"
| "parse_members 0 d s = Inl JFuel"
| "parse_members (Suc n) d s =
     (case skip s of
        [] \<Rightarrow> Inl JSyntax
      | q # r \<Rightarrow>
          if q \<noteq> CHR 0x22 then Inl JSyntax
          else case parse_string r of
            Inl e \<Rightarrow> Inl e
          | Inr (k, r1) \<Rightarrow>
              (case skip r1 of
                 [] \<Rightarrow> Inl JSyntax
               | col # r2 \<Rightarrow>
                   if col \<noteq> CHR '':'' then Inl JSyntax
                   else case parse_value n d r2 of
                     Inl e \<Rightarrow> Inl e
                   | Inr (v, r3) \<Rightarrow>
                       (case skip r3 of
                          [] \<Rightarrow> Inl JSyntax
                        | c # r' \<Rightarrow>
                            if c = CHR '','' then map_sum id (map_prod (Cons (k, v)) id) (parse_members n d r')
                            else if c = CHR ''}'' then Inr ([(k, v)], r')
                            else Inl JSyntax)))"

text \<open>One value from the front of the input, as \<open>Decoder.Decode\<close> reads it.\<close>

definition parse_fuel :: "string \<Rightarrow> nat" where
  "parse_fuel s = 2 * length s + 2"

definition parse_json :: "string \<Rightarrow> json_error + (json \<times> string)" where
  "parse_json s = parse_value (parse_fuel s) maxNestingDepth s"

text \<open>\<open>Decoder.More\<close>: false at the end of the input, and before a closing bracket or brace.\<close>

definition More :: "string \<Rightarrow> bool" where
  "More r \<longleftrightarrow> skip r \<noteq> [] \<and> hd (skip r) \<noteq> CHR '']'' \<and> hd (skip r) \<noteq> CHR ''}''"

subsection \<open>The fuel is enough\<close>

lemma skip_length: "length (skip s) \<le> length s"
  by (simp add: skip_def length_dropWhile_le)

lemma skip_Cons: "skip s = c # r \<Longrightarrow> length r < length s"
  using skip_length [of s] by simp

lemma skip_tl: "skip s \<noteq> [] \<Longrightarrow> length (tl (skip s)) < length s"
  by (cases "skip s") (auto dest: skip_Cons)

lemma scan_string_length: "scan_string s = Some (raw, r) \<Longrightarrow> length r < length s"
proof (induction s arbitrary: raw r rule: scan_string.induct)
  case (2 c t)
  then show ?case by (fastforce split: if_splits list.splits option.splits)
qed simp

lemma parse_string_length: "parse_string s = Inr (v, r) \<Longrightarrow> length r < length s"
  by (auto simp: parse_string_def dest: scan_string_length split: option.splits)

lemma scan_frac_length: "scan_frac s = Some (f, r) \<Longrightarrow> length r \<le> length s"
  using length_dropWhile_le [of is_digit "tl s"]
  by (auto simp: scan_frac_def Let_def split: if_splits)

lemma scan_exp_length: "scan_exp s = Some (f, r) \<Longrightarrow> length r \<le> length s"
  by (auto simp: scan_exp_def Let_def intro: order_trans [OF length_dropWhile_le] split: if_splits)

lemma scan_number_length:
  assumes "scan_number s = Some (l, r)"
  shows "length r < length s"
proof -
  define t where "t = drop (length (if s \<noteq> [] \<and> hd s = CHR ''-'' then [CHR ''-''] else [])) s"
  define ds where "ds = (if t \<noteq> [] \<and> hd t = CHR ''0'' then [CHR ''0''] else takeWhile is_digit t)"
  have ds: "length ds \<le> length t" unfolding ds_def by (auto simp: length_takeWhile_le Suc_le_eq)
  from assms obtain f r1 e where "ds \<noteq> []" "scan_frac (drop (length ds) t) = Some (f, r1)" "scan_exp r1 = Some (e, r)"
    unfolding scan_number_def Let_def t_def [symmetric] ds_def [symmetric] by (auto split: if_splits option.splits)
  then have "length r < length t" using scan_frac_length [of "drop (length ds) t"] scan_exp_length [of r1 e r] ds
    by (cases ds) fastforce+
  moreover have "length t \<le> length s" by (simp add: t_def)
  ultimately show ?thesis by simp
qed

lemma parse_scalar_length: "parse_scalar s = Inr (v, r) \<Longrightarrow> s \<noteq> [] \<Longrightarrow> length r < length s"
  by (auto simp: parse_scalar_def dest: scan_number_length split: if_splits option.splits)


lemma map_sum_Inr [simp]: "map_sum id f x = Inr y \<longleftrightarrow> (\<exists>z. x = Inr z \<and> f z = y)"
  by (cases x) auto

lemma map_sum_Inl [simp]: "map_sum id f x = Inl e \<longleftrightarrow> x = Inl e"
  by (cases x) auto

lemma parse_length:
  "parse_value n d s = Inr (v, r) \<Longrightarrow> length r < length s"
  "parse_elems n d s = Inr (vs, r) \<Longrightarrow> length r < length s"
  "parse_members n d s = Inr (kvs, r) \<Longrightarrow> length r < length s"
proof (induction n d s and n d s and n d s arbitrary: v r and vs r and kvs r
    rule: parse_value_parse_elems_parse_members.induct)
  case (2 n d s)
  show ?case
  proof (cases "skip s")
    case (Cons c t)
    note l = skip_Cons [OF Cons]
    have t: "skip t \<noteq> [] \<Longrightarrow> length (tl (skip t)) < length t" by (rule skip_tl)
    show ?thesis using 2(3) l t Cons 2(1,2) [OF Cons]
      by (fastforce split: if_splits sum.splits dest: parse_string_length parse_scalar_length simp: map_sum_Inr)
  qed (use 2 in simp)
next
  case (4 n d s)
  show ?case using 4 by (fastforce dest!: skip_Cons split: sum.splits list.splits if_splits)
next
  case (6 n d s)
  show ?case using 6 by (fastforce dest!: skip_Cons parse_string_length split: sum.splits list.splits if_splits)
qed simp_all

lemma parse_string_no_fuel [simp]: "parse_string s \<noteq> Inl JFuel"
  by (auto simp: parse_string_def split: option.splits)

lemma parse_scalar_no_fuel [simp]: "parse_scalar s \<noteq> Inl JFuel"
  by (auto simp: parse_scalar_def split: option.splits)

lemma parse_no_fuel:
  "2 * length s < n \<Longrightarrow> parse_value n d s \<noteq> Inl JFuel"
  "2 * length s + 1 < n \<Longrightarrow> parse_elems n d s \<noteq> Inl JFuel"
  "2 * length s + 1 < n \<Longrightarrow> parse_members n d s \<noteq> Inl JFuel"
proof (induction n d s and n d s and n d s rule: parse_value_parse_elems_parse_members.induct)
  case (2 n d s)
  show ?case
  proof (cases "skip s")
    case (Cons c t)
    note l = skip_Cons [OF Cons]
    show ?thesis using 2(3) l Cons 2(1,2) [OF Cons] by auto
  qed (use 2 in simp)
next
  case (4 n d s)
  show ?case using 4 by (fastforce dest!: skip_Cons parse_length(1) split: sum.splits list.splits if_splits)
next
  case (6 n d s)
  show ?case using 6
    by (fastforce dest!: skip_Cons parse_length(1) parse_string_length split: sum.splits list.splits if_splits)
qed simp_all

lemma parse_fuel_Suc:
  "parse_value n d s \<noteq> Inl JFuel \<Longrightarrow> parse_value (Suc n) d s = parse_value n d s"
  "parse_elems n d s \<noteq> Inl JFuel \<Longrightarrow> parse_elems (Suc n) d s = parse_elems n d s"
  "parse_members n d s \<noteq> Inl JFuel \<Longrightarrow> parse_members (Suc n) d s = parse_members n d s"
proof (induction n d s and n d s and n d s rule: parse_value_parse_elems_parse_members.induct)
  case (2 n d s)
  show ?case
  proof (cases "skip s")
    case (Cons c t)
    show ?thesis
      using 2(3) 2(1,2) [OF Cons] Cons
      unfolding parse_value.simps(2) [of "Suc n" d s] parse_value.simps(2) [of n d s]
      by (auto simp del: parse_value.simps parse_elems.simps parse_members.simps)
  qed (use 2 in simp)
next
  case (4 n d s)
  then have v: "parse_value (Suc n) d s = parse_value n d s" by (cases "parse_value n d s") auto
  show ?case
    using 4(2,3) unfolding parse_elems.simps(2) [of "Suc n" d s] parse_elems.simps(2) [of n d s] v
    by (auto simp del: parse_value.simps parse_elems.simps parse_members.simps split: sum.splits list.splits)
next
  case (6 n d s)
  show ?case
  proof (cases "skip s")
    case (Cons q t)
    show ?thesis
      using 6(3) 6(1,2) [OF Cons] Cons
      unfolding parse_members.simps(2) [of "Suc n" d s] parse_members.simps(2) [of n d s]
      by (auto simp del: parse_value.simps parse_elems.simps parse_members.simps split: sum.splits list.splits)
  qed (use 6 in simp)
qed simp_all

lemma parse_fuel_mono: "parse_value n d s \<noteq> Inl JFuel \<Longrightarrow> n \<le> m \<Longrightarrow> parse_value m d s = parse_value n d s"
proof (induction m)
  case (Suc m)
  then show ?case using parse_fuel_Suc(1) [of m d s] by (cases "n = Suc m") auto
qed simp

lemma parse_json_any_fuel: "parse_fuel s \<le> m \<Longrightarrow> parse_value m maxNestingDepth s = parse_json s"
  unfolding parse_json_def by (intro parse_fuel_mono parse_no_fuel) (auto simp: parse_fuel_def)

lemma parse_json_eqI:
  assumes "parse_value m maxNestingDepth s = x" "x \<noteq> Inl JFuel"
  shows "parse_json s = x"
proof -
  have "parse_value (max m (parse_fuel s)) maxNestingDepth s = x"
    using assms parse_fuel_mono [of m] by auto
  then show ?thesis using parse_json_any_fuel [of s] by (metis max.cobounded2)
qed

subsection \<open>Printing\<close>

text \<open>\<open>json.Marshal\<close> of the values the program sends: integers, strings, arrays and structs.\<close>

fun print_json :: "json \<Rightarrow> string" where
  "print_json JNull = ''null''"
| "print_json (JBool b) = (if b then ''true'' else ''false'')"
| "print_json (JNum l) = l"
| "print_json (JStr s) = quote s"
| "print_json (JArr vs) = CHR ''['' # Join (map print_json vs) '','' @ '']''"
| "print_json (JObj kvs) =
     CHR ''{'' # Join (map (\<lambda>kv. quote (fst kv) @ CHR '':'' # print_json (snd kv)) kvs) '','' @ ''}''"

text \<open>The values that print to something that reads back: integer literals, valid UTF-8, and at
  most \<open>d\<close> levels.\<close>

fun printable :: "nat \<Rightarrow> json \<Rightarrow> bool" where
  "printable d JNull = True"
| "printable d (JBool b) = True"
| "printable d (JNum l) = (\<exists>i. l = Itoa i)"
| "printable d (JStr s) = valid_utf8 s"
| "printable d (JArr vs) = (0 < d \<and> (\<forall>v \<in> set vs. printable (d - 1) v))"
| "printable d (JObj kvs) = (0 < d \<and> (\<forall>kv \<in> set kvs. valid_utf8 (fst kv) \<and> printable (d - 1) (snd kv)))"

text \<open>What may follow a value.\<close>

definition delim :: "string \<Rightarrow> bool" where
  "delim r \<longleftrightarrow> r = [] \<or> hd r \<in> {CHR '','', CHR '']'', CHR ''}'', CHR 10}"

lemma skip_id: "s \<noteq> [] \<Longrightarrow> \<not> is_space (hd s) \<Longrightarrow> skip s = s"
  by (cases s) (auto simp: skip_def)

lemma skip_Cons_id [simp]: "\<not> is_space c \<Longrightarrow> skip (c # s) = c # s"
  by (simp add: skip_def)

lemma parse_string_quote_text: "parse_string (quote_body s @ CHR 0x22 # r) = Inr (utf8_text s, r)"
  by (simp add: parse_string_def scan_quote_body unquote_quote_text)

lemma parse_string_quote: "valid_utf8 s \<Longrightarrow> parse_string (quote_body s @ CHR 0x22 # r) = Inr (s, r)"
  by (simp add: parse_string_def scan_quote_body unquote_quote_body)

lemma is_digit_not_delim: "delim r \<Longrightarrow> takeWhile is_digit r = []"
  by (cases r) (auto simp: delim_def is_digit_def)

lemma scan_tail: "delim r \<Longrightarrow> scan_frac r = Some ([], r) \<and> scan_exp r = Some ([], r)"
  by (auto simp: scan_frac_def scan_exp_def delim_def)

lemma nat_dec_zero: "hd (nat_dec n) = CHR ''0'' \<Longrightarrow> nat_dec n = ''0''"
proof (induction n rule: nat_dec.induct)
  case (1 n)
  show ?case
  proof (cases "n < 10")
    case True
    with 1(2) show ?thesis by (simp add: nat_dec.simps [of n])
  next
    case False
    then have "hd (nat_dec (n div 10)) = CHR ''0''" using 1(2) by (subst (asm) nat_dec.simps) simp
    with 1(1) [OF False] have "dec_value (nat_dec (n div 10)) = dec_value ''0''" by simp
    then have "n div 10 = 0" unfolding dec_value_nat_dec by (simp add: dec_value_def)
    with False show ?thesis by simp
  qed
qed

lemma scan_number_nat:
  assumes "delim r"
  shows "scan_number (nat_dec n @ r) = Some (nat_dec n, r)"
    "scan_number (CHR ''-'' # nat_dec n @ r) = Some (CHR ''-'' # nat_dec n, r)"
proof -
  have tw: "takeWhile is_digit (nat_dec n @ r) = nat_dec n"
    using nat_dec_digits [of n] is_digit_not_delim [OF assms] by (simp add: list_all_iff)
  have m: "hd (nat_dec n) \<noteq> CHR ''-''" using nat_dec_hd is_digit_not_sign by blast
  have z: "nat_dec n = ''0'' \<or> hd (nat_dec n) \<noteq> CHR ''0''" using nat_dec_zero by blast
  show "scan_number (nat_dec n @ r) = Some (nat_dec n, r)"
    using tw m z scan_tail [OF assms] unfolding scan_number_def by (auto simp: Let_def)
  show "scan_number (CHR ''-'' # nat_dec n @ r) = Some (CHR ''-'' # nat_dec n, r)"
    using tw z scan_tail [OF assms] unfolding scan_number_def by (auto simp: Let_def)
qed

lemma scan_number_Itoa: "delim r \<Longrightarrow> scan_number (Itoa i @ r) = Some (Itoa i, r)"
  by (simp add: Itoa_def scan_number_nat)

lemma Itoa_hd: "is_digit (hd (Itoa i)) \<or> hd (Itoa i) = CHR ''-''" "Itoa i \<noteq> []"
  by (auto simp: Itoa_def nat_dec_hd)

lemma parse_scalar_Itoa: "delim r \<Longrightarrow> parse_scalar (Itoa i @ r) = Inr (JNum (Itoa i), r)"
proof -
  assume r: "delim r"
  obtain c s where c: "Itoa i = c # s" using Itoa_hd(2) by (cases "Itoa i") auto
  then have "is_digit c \<or> c = CHR ''-''" using Itoa_hd(1) [of i] by simp
  then have "c \<noteq> CHR ''t''" "c \<noteq> CHR ''f''" "c \<noteq> CHR ''n''" by (auto simp: is_digit_def)
  then show ?thesis using scan_number_Itoa [OF r, of i] c by (simp add: parse_scalar_def HasPrefix_iff)
qed

text \<open>Reading from some amount of fuel on.\<close>

definition reads :: "nat \<Rightarrow> string \<Rightarrow> json \<Rightarrow> string \<Rightarrow> bool" where
  "reads d s v r \<longleftrightarrow> (\<exists>m. \<forall>n \<ge> m. parse_value n d s = Inr (v, r))"

lemma readsI: "(\<And>n. parse_value (Suc n) d s = Inr (v, r)) \<Longrightarrow> reads d s v r"
  unfolding reads_def by (metis Suc_le_D)

lemma reads_scalar:
  assumes "\<not> is_space (hd s)" "s \<noteq> []" "hd s \<noteq> CHR ''{''" "hd s \<noteq> CHR ''[''" "hd s \<noteq> CHR 0x22"
    "parse_scalar s = Inr (v, r)"
  shows "reads d s v r"
  using assms by (cases s) (auto intro!: readsI)

lemma reads_num: "delim r \<Longrightarrow> reads d (Itoa i @ r) (JNum (Itoa i)) r"
  using Itoa_hd [of i] by (intro reads_scalar parse_scalar_Itoa) (auto simp: is_space_def is_digit_def)

lemma reads_str_text: "reads d (quote s @ r) (JStr (utf8_text s)) r"
  by (intro readsI) (simp add: quote_def parse_string_quote_text is_space_def)

lemma reads_str: "valid_utf8 s \<Longrightarrow> reads d (quote s @ r) (JStr s) r"
  by (intro readsI) (simp add: quote_def parse_string_quote is_space_def)

lemma reads_lit: "reads d (''null'' @ r) JNull r" "reads d (''true'' @ r) (JBool True) r"
    "reads d (''false'' @ r) (JBool False) r"
  by (intro reads_scalar; simp add: is_space_def parse_scalar_def HasPrefix_def)+

lemma Itoa_hd_token: "\<not> is_space (hd (Itoa i)) \<and> hd (Itoa i) \<noteq> CHR '']'' \<and> hd (Itoa i) \<noteq> CHR ''}''"
  using Itoa_hd(1) [of i] by (auto simp: is_space_def is_digit_def)

lemma print_json_hd:
  "printable d v \<Longrightarrow> print_json v \<noteq> [] \<and> \<not> is_space (hd (print_json v)) \<and>
    hd (print_json v) \<noteq> CHR '']'' \<and> hd (print_json v) \<noteq> CHR ''}''"
  using Itoa_hd(2) Itoa_hd_token by (cases v) (auto simp: is_space_def quote_def)

lemma delim_Cons [simp]: "delim (c # r) \<longleftrightarrow> c \<in> {CHR '','', CHR '']'', CHR ''}'', CHR 10}"
  by (simp add: delim_def)

lemma token_not_space [simp]: "\<not> is_space CHR '',''" "\<not> is_space CHR '']''" "\<not> is_space CHR ''}''"
    "\<not> is_space CHR '':''" "\<not> is_space CHR 0x22" "\<not> is_space CHR ''[''" "\<not> is_space CHR ''{''"
  by (simp_all add: is_space_def)

lemma reads_elems:
  assumes "\<And>v r. v \<in> set vs \<Longrightarrow> delim r \<Longrightarrow> reads d (print_json v @ r) v r" "vs \<noteq> []"
  shows "\<exists>m. \<forall>n \<ge> m. parse_elems n d (Join (map print_json vs) '','' @ CHR '']'' # r) = Inr (vs, r)"
  using assms
proof (induction vs)
  case (Cons v vs)
  show ?case
  proof (cases "vs = []")
    case True
    obtain m where "\<forall>n \<ge> m. parse_value n d (print_json v @ CHR '']'' # r) = Inr (v, CHR '']'' # r)"
      using Cons(2) [of v "CHR '']'' # r"] by (auto simp: reads_def)
    then have "parse_elems n d (print_json v @ CHR '']'' # r) = Inr ([v], r)" if "Suc m \<le> n" for n
      using that by (cases n) auto
    then show ?thesis using True by auto
  next
    case False
    let ?t = "Join (map print_json vs) '','' @ CHR '']'' # r"
    obtain m where m: "\<forall>n \<ge> m. parse_value n d (print_json v @ CHR '','' # ?t) = Inr (v, CHR '','' # ?t)"
      using Cons(2) [of v "CHR '','' # ?t"] by (auto simp: reads_def)
    obtain k where k: "\<forall>n \<ge> k. parse_elems n d ?t = Inr (vs, r)" using Cons False by auto
    have "parse_elems n d (print_json v @ CHR '','' # ?t) = Inr (v # vs, r)" if "Suc (max m k) \<le> n" for n
      using that m k by (cases n) auto
    then show ?thesis using False by (auto simp: Join_Cons)
  qed
qed simp

lemma reads_members:
  assumes "\<And>k v r. (k, v) \<in> set kvs \<Longrightarrow> delim r \<Longrightarrow> reads d (print_json v @ r) v r"
    "\<forall>kv \<in> set kvs. valid_utf8 (fst kv)" "kvs \<noteq> []"
  shows "\<exists>m. \<forall>n \<ge> m. parse_members n d
      (Join (map (\<lambda>kv. quote (fst kv) @ CHR '':'' # print_json (snd kv)) kvs) '','' @ CHR ''}'' # r) = Inr (kvs, r)"
  using assms
proof (induction kvs)
  case (Cons kv kvs)
  obtain k v where kv: "kv = (k, v)" by (cases kv)
  have k: "valid_utf8 k" using Cons(3) kv by auto
  let ?pr = "map (\<lambda>kv. quote (fst kv) @ CHR '':'' # print_json (snd kv))"
  show ?case
  proof (cases "kvs = []")
    case True
    obtain m where "\<forall>n \<ge> m. parse_value n d (print_json v @ CHR ''}'' # r) = Inr (v, CHR ''}'' # r)"
      using Cons(2) [of k v "CHR ''}'' # r"] kv by (auto simp: reads_def)
    then have "parse_members n d (quote k @ CHR '':'' # print_json v @ CHR ''}'' # r) = Inr ([(k, v)], r)"
      if "Suc m \<le> n" for n
      using that k by (cases n) (auto simp: quote_def parse_string_quote)
    then show ?thesis using True kv by auto
  next
    case False
    let ?t = "Join (?pr kvs) '','' @ CHR ''}'' # r"
    obtain m where m: "\<forall>n \<ge> m. parse_value n d (print_json v @ CHR '','' # ?t) = Inr (v, CHR '','' # ?t)"
      using Cons(2) [of k v "CHR '','' # ?t"] kv by (auto simp: reads_def)
    have "\<exists>m. \<forall>n \<ge> m. parse_members n d ?t = Inr (kvs, r)"
      by (rule Cons.IH) (use Cons.prems False in auto)
    then obtain l where l: "\<forall>n \<ge> l. parse_members n d ?t = Inr (kvs, r)" ..
    have "parse_members n d (quote k @ CHR '':'' # print_json v @ CHR '','' # ?t) = Inr ((k, v) # kvs, r)"
      if "Suc (max m l) \<le> n" for n
      using that m l k by (cases n) (auto simp: quote_def parse_string_quote)
    then show ?thesis using False kv by (auto simp: Join_Cons)
  qed
qed simp

lemma skip_print:
  assumes "printable d v"
  shows "skip (print_json v @ t) = print_json v @ t" "hd (print_json v @ t) = hd (print_json v)"
  using print_json_hd [OF assms] by (auto intro!: skip_id)

lemma Join_hd: "vs \<noteq> [] \<Longrightarrow> hd vs \<noteq> [] \<Longrightarrow> \<exists>t. Join vs sep = hd vs @ t"
  by (cases vs rule: list.exhaust; cases "tl vs") (auto simp: Join_Cons)

lemma parse_print: "printable d v \<Longrightarrow> delim r \<Longrightarrow> reads d (print_json v @ r) v r"
proof (induction v arbitrary: d r)
  case (JArr vs)
  show ?case
  proof (cases vs)
    case Nil
    then show ?thesis using JArr(2) by (auto intro!: readsI)
  next
    case (Cons w ws)
    have IH: "reads (d - 1) (print_json v @ q) v q" if "v \<in> set vs" "delim q" for v q using that JArr by auto
    obtain m where m: "\<forall>n \<ge> m. parse_elems n (d - 1) (Join (map print_json vs) '','' @ CHR '']'' # r) = Inr (vs, r)"
      using reads_elems [of vs "d - 1" r, OF IH] Cons by auto
    obtain t where t: "Join (map print_json vs) '','' = print_json w @ t"
      using Join_hd [of "map print_json vs" "'',''"] Cons JArr(2) print_json_hd by auto
    have "printable (d - 1) w" using Cons JArr(2) by simp
    note w = skip_print [OF this] print_json_hd [OF this]
    have "parse_value n d (print_json (JArr vs) @ r) = Inr (JArr vs, r)" if "Suc m \<le> n" for n
      using that m JArr(2) w by (cases n) (auto simp: t)
    then show ?thesis by (auto simp: reads_def)
  qed
next
  case (JObj kvs)
  show ?case
  proof (cases kvs)
    case Nil
    then show ?thesis using JObj(2) by (auto intro!: readsI)
  next
    case (Cons w ws)
    let ?pr = "map (\<lambda>kv. quote (fst kv) @ CHR '':'' # print_json (snd kv))"
    have IH: "reads (d - 1) (print_json v @ q) v q" if "(k, v) \<in> set kvs" "delim q" for k v q
      using that JObj by fastforce
    obtain m where m: "\<forall>n \<ge> m. parse_members n (d - 1) (Join (?pr kvs) '','' @ CHR ''}'' # r) = Inr (kvs, r)"
      using reads_members [of kvs "d - 1" r, OF IH] JObj(2) Cons by fastforce
    obtain t where t: "Join (?pr kvs) '','' = CHR 0x22 # t"
      using Join_hd [of "?pr kvs" "'',''"] Cons by (auto simp: quote_def)
    have "parse_value n d (print_json (JObj kvs) @ r) = Inr (JObj kvs, r)" if "Suc m \<le> n" for n
      using that m JObj(2) by (cases n) (auto simp: t)
    then show ?thesis by (auto simp: reads_def)
  qed
qed (auto simp: reads_num reads_str reads_lit [simplified])

lemma parse_json_print:
  "printable maxNestingDepth v \<Longrightarrow> delim r \<Longrightarrow> parse_json (print_json v @ r) = Inr (v, r)"
  using parse_print [of maxNestingDepth v r] by (auto simp: reads_def intro: parse_json_eqI)

end
