(* ===== verification/Proto_Codec.thy ===== *)
theory Proto_Codec
  imports Proto Go_JSON
begin

text \<open>
  The JSON codec of the wire contract (\<open>src/internal/proto/codec.go\<close>): \<open>Decode\<close> into the message
  structs of \<open>types.go\<close> with unknown fields refused, and \<open>Encode\<close>.

  Decoding into a struct follows \<open>encoding/json\<close>: keys match a field name up to case folding, the
  last of several equal keys wins, \<open>null\<close> leaves a number, string or struct as it is and empties a
  slice, an integer field takes only integer literals that fit in 64 bits, and an array is decoded
  into the elements the slice already has, so that a slice that is decoded twice shows its
  earlier contents where the second array has \<open>null\<close>.  A slice therefore carries its backing
  elements and its length.
\<close>

subsection \<open>Structs from JSON\<close>

text \<open>\<open>foldName\<close>, on the keys that can equal an ASCII name: the long s and the Kelvin sign are the
  only other characters that fold to an ASCII letter.\<close>

definition to_upper :: "char \<Rightarrow> char" where
  "to_upper c = (if 97 \<le> (of_char c :: nat) \<and> (of_char c :: nat) \<le> 122 then char_of ((of_char c :: nat) - 32) else c)"

definition long_s :: string where "long_s = [char_of (0xC5::nat), char_of (0xBF::nat)]"

definition kelvin :: string where
  "kelvin = [char_of (0xE2::nat), char_of (0x84::nat), char_of (0xAA::nat)]"

function fold_name :: "string \<Rightarrow> string" where
  "fold_name s =
     (if s = [] then []
      else if take 2 s = long_s then CHR ''S'' # fold_name (drop 2 s)
      else if take 3 s = kelvin then CHR ''K'' # fold_name (drop 3 s)
      else to_upper (hd s) # fold_name (tl s))"
  by auto
termination by (relation "measure length") auto

declare fold_name.simps [simp del]

record 'a slice =
  sl_elems :: "'a list"
  sl_len :: nat

definition nil_slice :: "'a slice" where
  "nil_slice = \<lparr>sl_elems = [], sl_len = 0\<rparr>"

definition slice_list :: "'a slice \<Rightarrow> 'a list" where
  "slice_list s = take (sl_len s) (sl_elems s)"

definition decode_int :: "int \<Rightarrow> json \<Rightarrow> int option" where
  "decode_int old j = (case j of JNull \<Rightarrow> Some old | JNum l \<Rightarrow> Atoi l | _ \<Rightarrow> None)"

definition decode_str :: "string \<Rightarrow> json \<Rightarrow> string option" where
  "decode_str old j = (case j of JNull \<Rightarrow> Some old | JStr s \<Rightarrow> Some s | _ \<Rightarrow> None)"

fun decode_elems :: "('a \<Rightarrow> json \<Rightarrow> 'a option) \<Rightarrow> 'a \<Rightarrow> 'a list \<Rightarrow> json list \<Rightarrow> 'a list option" where
  "decode_elems dec z back [] = Some back"
| "decode_elems dec z back (j # js) =
     (case dec (if back = [] then z else hd back) j of
        None \<Rightarrow> None
      | Some x \<Rightarrow> map_option (Cons x) (decode_elems dec z (tl back) js))"

definition decode_slice :: "('a \<Rightarrow> json \<Rightarrow> 'a option) \<Rightarrow> 'a \<Rightarrow> 'a slice \<Rightarrow> json \<Rightarrow> 'a slice option" where
  "decode_slice dec z old j =
     (case j of
        JNull \<Rightarrow> Some nil_slice
      | JArr js \<Rightarrow>
          if js = [] then Some nil_slice
          else map_option (\<lambda>xs. \<lparr>sl_elems = xs, sl_len = length js\<rparr>) (decode_elems dec z (sl_elems old) js)
      | _ \<Rightarrow> None)"

type_synonym 's struct = "(string \<times> ('s \<Rightarrow> json \<Rightarrow> 's option)) list"

definition find_field :: "'s struct \<Rightarrow> string \<Rightarrow> ('s \<Rightarrow> json \<Rightarrow> 's option) option" where
  "find_field fs k = map_option snd (find (\<lambda>f. fold_name (fst f) = fold_name k) fs)"

fun decode_members :: "'s struct \<Rightarrow> 's \<Rightarrow> (string \<times> json) list \<Rightarrow> 's option" where
  "decode_members fs s [] = Some s"
| "decode_members fs s ((k, v) # kvs) =
     (case find_field fs k of
        None \<Rightarrow> None
      | Some f \<Rightarrow> (case f s v of None \<Rightarrow> None | Some s' \<Rightarrow> decode_members fs s' kvs))"

definition decode_struct :: "'s struct \<Rightarrow> 's \<Rightarrow> json \<Rightarrow> 's option" where
  "decode_struct fs s j = (case j of JNull \<Rightarrow> Some s | JObj kvs \<Rightarrow> decode_members fs s kvs | _ \<Rightarrow> None)"

subsection \<open>The message structs and their tags (types.go)\<close>

type_synonym announce_dst = "int \<times> string slice"

definition announce_fields :: "announce_dst struct" where
  "announce_fields =
     [(''servingPort'', \<lambda>s j. map_option (\<lambda>p. (p, snd s)) (decode_int (fst s) j)),
      (''packages'', \<lambda>s j. map_option (\<lambda>ps. (fst s, ps)) (decode_slice decode_str [] (snd s) j))]"

definition peer_fields :: "PeerInfo struct" where
  "peer_fields =
     [(''ip'', \<lambda>p j. map_option (\<lambda>i. p\<lparr>IP := i\<rparr>) (decode_str (IP p) j)),
      (''port'', \<lambda>p j. map_option (\<lambda>n. p\<lparr>Port := n\<rparr>) (decode_int (Port p) j))]"

definition zero_peer :: PeerInfo where "zero_peer = \<lparr>IP = [], Port = 0\<rparr>"

definition peer_list_fields :: "PeerInfo slice struct" where
  "peer_list_fields = [(''peers'', \<lambda>s j. decode_slice (decode_struct peer_fields) zero_peer s j)]"

subsection \<open>Decode and Encode (codec.go)\<close>

datatype codec_error = ErrTooLarge | ErrDecode | ErrTrailing

definition Decode :: "'s struct \<Rightarrow> 's \<Rightarrow> string \<Rightarrow> codec_error + 's" where
  "Decode fs dst data =
     (if length data > MaxBodyBytes then Inl ErrTooLarge
      else case parse_json data of
        Inl e \<Rightarrow> Inl ErrDecode
      | Inr (v, rest) \<Rightarrow>
          (case decode_struct fs dst v of
             None \<Rightarrow> Inl ErrDecode
           | Some d \<Rightarrow> if More rest then Inl ErrTrailing else Inr d))"

text \<open>\<open>var req proto.AnnounceRequest; proto.Decode(body, &req)\<close> and its sibling for peer lists.\<close>

definition Decode_AnnounceRequest :: "string \<Rightarrow> codec_error + AnnounceRequest" where
  "Decode_AnnounceRequest data =
     map_sum id (\<lambda>d. \<lparr>ServingPort = fst d, Packages = slice_list (snd d)\<rparr>)
       (Decode announce_fields (0, nil_slice) data)"

definition Decode_PeerListResponse :: "string \<Rightarrow> codec_error + PeerListResponse" where
  "Decode_PeerListResponse data =
     map_sum id (\<lambda>d. \<lparr>resp_Peers = slice_list d\<rparr>) (Decode peer_list_fields nil_slice data)"

text \<open>A nil slice is encoded as \<open>null\<close>, an empty one as \<open>[]\<close>; \<open>isnil\<close> says which of the two an
  empty list is.\<close>

definition slice_json :: "bool \<Rightarrow> json list \<Rightarrow> json" where
  "slice_json isnil js = (if js = [] \<and> isnil then JNull else JArr js)"

definition announce_json :: "bool \<Rightarrow> AnnounceRequest \<Rightarrow> json" where
  "announce_json isnil r =
     JObj [(''servingPort'', JNum (Itoa (ServingPort r))),
           (''packages'', slice_json isnil (map JStr (Packages r)))]"

definition peer_json :: "PeerInfo \<Rightarrow> json" where
  "peer_json p = JObj [(''ip'', JStr (IP p)), (''port'', JNum (Itoa (Port p)))]"

definition peer_list_json :: "bool \<Rightarrow> PeerListResponse \<Rightarrow> json" where
  "peer_list_json isnil r = JObj [(''peers'', slice_json isnil (map peer_json (resp_Peers r)))]"

definition status_json :: "StatusResponse \<Rightarrow> json" where
  "status_json r = JObj [(''status'', JStr (resp_Status r))]"

definition Encode :: "json \<Rightarrow> string" where
  "Encode v = print_json v"

subsection \<open>Round trips\<close>

lemma fold_name_ascii: "list_all (\<lambda>c. (of_char c :: nat) < 0x80) s \<Longrightarrow> fold_name s = map to_upper s"
proof (induction s)
  case (Cons c s)
  then have "take 2 (c # s) \<noteq> long_s" "take 3 (c # s) \<noteq> kelvin" by (auto simp: long_s_def kelvin_def)
  then show ?case using Cons by (subst fold_name.simps) simp
qed (simp add: fold_name.simps)

lemma announce_field_names [simp]:
  "find_field announce_fields ''servingPort'' =
     Some (\<lambda>s j. map_option (\<lambda>p. (p, snd s)) (decode_int (fst s) j))"
  "find_field announce_fields ''packages'' =
     Some (\<lambda>s j. map_option (\<lambda>ps. (fst s, ps)) (decode_slice decode_str [] (snd s) j))"
  by (simp_all add: find_field_def announce_fields_def fold_name_ascii to_upper_def)

lemma peer_field_names [simp]:
  "find_field peer_fields ''ip'' = Some (\<lambda>p j. map_option (\<lambda>i. p\<lparr>IP := i\<rparr>) (decode_str (IP p) j))"
  "find_field peer_fields ''port'' = Some (\<lambda>p j. map_option (\<lambda>n. p\<lparr>Port := n\<rparr>) (decode_int (Port p) j))"
  "find_field peer_list_fields ''peers'' =
     Some (\<lambda>s j. decode_slice (decode_struct peer_fields) zero_peer s j)"
  by (simp_all add: find_field_def peer_fields_def peer_list_fields_def fold_name_ascii to_upper_def)

lemma decode_elems_fresh:
  "(\<And>x. x \<in> set xs \<Longrightarrow> dec z (f x) = Some x) \<Longrightarrow> decode_elems dec z [] (map f xs) = Some xs"
  by (induction xs) auto

lemma decode_slice_fresh:
  assumes "\<And>x. x \<in> set xs \<Longrightarrow> dec z (f x) = Some x"
  shows "map_option slice_list (decode_slice dec z nil_slice (slice_json isnil (map f xs))) = Some xs"
  using decode_elems_fresh [of xs dec z f, OF assms]
  by (auto simp: decode_slice_def slice_json_def nil_slice_def slice_list_def)

definition int64 :: "int \<Rightarrow> bool" where
  "int64 i \<longleftrightarrow> - (2 ^ 63) \<le> i \<and> i < 2 ^ 63"

lemma decode_int_Itoa: "int64 i \<Longrightarrow> decode_int old (JNum (Itoa i)) = Some i"
  by (simp add: decode_int_def Atoi_Itoa int64_def)

lemma decode_announce_json:
  "int64 (ServingPort r) \<Longrightarrow> \<exists>ps. decode_struct announce_fields (0, nil_slice) (announce_json isnil r) =
     Some (ServingPort r, ps) \<and> slice_list ps = Packages r"
  using decode_slice_fresh [of "Packages r" decode_str "[]" JStr isnil]
  by (auto simp: decode_struct_def announce_json_def decode_int_Itoa decode_str_def)

lemma decode_peer_json: "int64 (Port p) \<Longrightarrow> decode_struct peer_fields zero_peer (peer_json p) = Some p"
  by (simp add: decode_struct_def peer_json_def decode_int_Itoa decode_str_def zero_peer_def)

lemma decode_peer_list_json:
  "\<forall>p \<in> set (resp_Peers r). int64 (Port p) \<Longrightarrow>
   \<exists>ps. decode_struct peer_list_fields nil_slice (peer_list_json isnil r) = Some ps \<and> slice_list ps = resp_Peers r"
  using decode_slice_fresh [of "resp_Peers r" "decode_struct peer_fields" zero_peer peer_json isnil]
  by (auto simp: decode_struct_def [of peer_list_fields] peer_list_json_def decode_peer_json split: option.splits)

lemma names_utf8 [simp]: "valid_utf8 ''servingPort''" "valid_utf8 ''packages''" "valid_utf8 ''ip''"
    "valid_utf8 ''port''" "valid_utf8 ''peers''" "valid_utf8 ''status''"
  by (simp_all add: valid_utf8_ascii)

lemma printable_slice: "0 < d \<Longrightarrow> list_all (printable (d - 1)) js \<Longrightarrow> printable d (slice_json isnil js)"
  by (auto simp: slice_json_def list_all_iff)

lemma printable_announce: "list_all valid_utf8 (Packages r) \<Longrightarrow> 1 < d \<Longrightarrow> printable d (announce_json isnil r)"
  by (auto simp: announce_json_def list_all_iff intro!: printable_slice)

lemma printable_peer_list:
  "list_all (\<lambda>p. valid_utf8 (IP p)) (resp_Peers r) \<Longrightarrow> 2 < d \<Longrightarrow> printable d (peer_list_json isnil r)"
  by (auto simp: peer_list_json_def peer_json_def list_all_iff intro!: printable_slice)

lemma Decode_Encode:
  assumes "printable maxNestingDepth v" "delim r" "\<not> More r" "length (Encode v @ r) \<le> MaxBodyBytes"
    "decode_struct fs dst v = Some d"
  shows "Decode fs dst (Encode v @ r) = Inr d"
  using assms parse_json_print [OF assms(1,2)] by (simp add: Decode_def Encode_def)

subsection \<open>Decoded strings are valid UTF-8\<close>

definition rune_word :: "string \<Rightarrow> bool" where
  "rune_word p \<longleftrightarrow> p \<noteq> [] \<and> (\<forall>t. rune_ok (p @ t) \<and> rune_size (p @ t) = length p)"

lemma valid_utf8_word: "rune_word p \<Longrightarrow> valid_utf8 (p @ t) \<longleftrightarrow> valid_utf8 t"
  by (subst valid_utf8.simps) (simp add: rune_word_def)

lemma rune_word_ascii: "(of_char c :: nat) < 0x80 \<Longrightarrow> rune_word [c]"
  using ascii_rune by (auto simp: rune_word_def)

lemma rune_word_multibyte:
  "s \<noteq> [] \<Longrightarrow> rune_ok s \<Longrightarrow> \<not> (of_char (hd s) :: nat) < 0x80 \<Longrightarrow> rune_word (take (rune_size s) s)"
  using multibyte_rune [of s] unfolding rune_word_def by metis

lemma rune_word_forms:
  "two_bytes (p @ []) a b [] \<Longrightarrow> rune_word p"
  "three_bytes (p @ []) a b c [] \<Longrightarrow> rune_word p"
  "four_bytes (p @ []) a b c d [] \<Longrightarrow> rune_word p"
proof -
  have "two_bytes (p @ t) a b t" if "two_bytes (p @ []) a b []" for t using that by (auto simp: two_bytes_def)
  then show "two_bytes (p @ []) a b [] \<Longrightarrow> rune_word p"
    using two_bytes_size unfolding rune_word_def by (auto simp: two_bytes_def)
  have "three_bytes (p @ t) a b c t" if "three_bytes (p @ []) a b c []" for t using that by (auto simp: three_bytes_def)
  then show "three_bytes (p @ []) a b c [] \<Longrightarrow> rune_word p"
    using three_bytes_size unfolding rune_word_def by (auto simp: three_bytes_def)
  have "four_bytes (p @ t) a b c d t" if "four_bytes (p @ []) a b c d []" for t using that by (auto simp: four_bytes_def)
  then show "four_bytes (p @ []) a b c d [] \<Longrightarrow> rune_word p"
    using four_bytes_size unfolding rune_word_def by (auto simp: four_bytes_def)
qed

lemma rune_word_replacement: "rune_word replacement"
proof -
  have "three_bytes (replacement @ []) 0xF 0x3F 0x3D []" by (simp add: three_bytes_def replacement_def)
  then show ?thesis by (rule rune_word_forms(2))
qed

lemma base64_split:
  fixes r :: nat
  shows "r = (r div 64) * 64 + r mod 64"
    "r = (r div 0x1000) * 0x1000 + (r div 64 mod 64) * 64 + r mod 64"
    "r = (r div 0x40000) * 0x40000 + (r div 0x1000 mod 64) * 0x1000 + (r div 64 mod 64) * 64 + r mod 64"
proof -
  have k: "r div 0x1000 = r div 64 div 64" "r div 0x40000 = r div 64 div 64 div 64"
    by (simp_all add: div_mult2_eq [symmetric])
  have a: "r = (r div 64) * 64 + r mod 64" "r div 64 = (r div 64 div 64) * 64 + r div 64 mod 64"
    "r div 64 div 64 = (r div 64 div 64 div 64) * 64 + r div 64 div 64 mod 64"
    by (simp_all only: div_mult_mod_eq)
  show "r = (r div 64) * 64 + r mod 64" by (rule a(1))
  show "r = (r div 0x1000) * 0x1000 + (r div 64 mod 64) * 64 + r mod 64"
    unfolding k using a by linarith
  show "r = (r div 0x40000) * 0x40000 + (r div 0x1000 mod 64) * 0x1000 + (r div 64 mod 64) * 64 + r mod 64"
    unfolding k using a by linarith
qed

lemma rune_word_encode: "rune_word (encode_rune r)"
proof -
  consider "r < 0x80" | "0x80 \<le> r" "r < 0x800" | "0x800 \<le> r" "(0xD800 \<le> r \<and> r \<le> 0xDFFF) \<or> 0x110000 \<le> r"
    | "0x800 \<le> r" "\<not> (0xD800 \<le> r \<and> r \<le> 0xDFFF)" "r < 0x10000"
    | "0x10000 \<le> r" "r < 0x110000"
    by linarith
  then show ?thesis
  proof cases
    case 1
    then show ?thesis by (auto simp: encode_rune_def intro!: rune_word_ascii)
  next
    case 2
    define a b where "a = r div 64" and "b = r mod 64"
    have "r = a * 64 + b" "b < 64" using base64_split(1) [of r] by (simp_all add: a_def b_def)
    then have "2 \<le> a" "a < 32" "b < 64" using 2 by linarith+
    then show ?thesis using 2
      by (intro rune_word_forms(1) [of _ a b]) (auto simp: encode_rune_def two_bytes_def a_def b_def)
  next
    case 3
    then show ?thesis using rune_word_replacement by (auto simp: encode_rune_def)
  next
    case 4
    define a b c where "a = r div 0x1000" and "b = r div 64 mod 64" and "c = r mod 64"
    have r: "r = a * 0x1000 + b * 64 + c" "b < 64" "c < 64"
      using base64_split(2) [of r] by (simp_all add: a_def b_def c_def)
    have "a < 16" "a = 0 \<Longrightarrow> 32 \<le> b" "a = 13 \<Longrightarrow> b < 32" using 4 r by linarith+
    then have "three_bytes ([char_of (0xE0 + a), char_of (0x80 + b), char_of (0x80 + c)] @ []) a b c []"
      using r by (simp add: three_bytes_def)
    moreover have "encode_rune r = [char_of (0xE0 + a), char_of (0x80 + b), char_of (0x80 + c)]"
      unfolding encode_rune_def a_def b_def c_def using 4 by auto
    ultimately show ?thesis using rune_word_forms(2) by metis
  next
    case 5
    define a b c d where "a = r div 0x40000" and "b = r div 0x1000 mod 64"
      and "c = r div 64 mod 64" and "d = r mod 64"
    have r: "r = a * 0x40000 + b * 0x1000 + c * 64 + d" "b < 64" "c < 64" "d < 64"
      using base64_split(3) [of r] by (simp_all add: a_def b_def c_def d_def)
    have "a < 5" "a = 0 \<Longrightarrow> 16 \<le> b" "a = 4 \<Longrightarrow> b < 16" using 5 r by linarith+
    then have "four_bytes ([char_of (0xF0 + a), char_of (0x80 + b), char_of (0x80 + c), char_of (0x80 + d)] @ []) a b c d []"
      using r by (simp add: four_bytes_def)
    moreover have "encode_rune r = [char_of (0xF0 + a), char_of (0x80 + b), char_of (0x80 + c), char_of (0x80 + d)]"
      unfolding encode_rune_def a_def b_def c_def d_def using 5 by auto
    ultimately show ?thesis using rune_word_forms(3) by metis
  qed
qed

lemma escape_value_ascii: "simple_escape e \<Longrightarrow> (of_char (escape_value e) :: nat) < 0x80"
  unfolding simple_escape_def by (elim insertE emptyE) (simp_all add: escape_value_def)

lemma valid_utf8_ascii_Cons: "(of_char c :: nat) < 0x80 \<Longrightarrow> valid_utf8 (c # v) \<longleftrightarrow> valid_utf8 v"
  using valid_utf8_word [OF rune_word_ascii, of c v] by simp

lemmas valid_utf8_words = valid_utf8_word [OF rune_word_encode] valid_utf8_word [OF rune_word_replacement]
  valid_utf8_word [OF rune_word_multibyte]

lemma unquote_valid: "unquote s = Some v \<Longrightarrow> valid_utf8 v"
proof (induction s arbitrary: v rule: unquote.induct)
  case (1 s)
  have nil: "valid_utf8 []" by (simp add: valid_utf8.simps)
  note u = 1(7) [unfolded unquote.simps [of s]]
  show ?case
  proof (cases "s = [] \<or> hd s \<noteq> CHR 0x5C")
    case True
    then show ?thesis using u 1(5,6) nil
      by (auto simp: valid_utf8_words valid_utf8_ascii_Cons split: if_splits)
  next
    case False
    then obtain e r where e: "tl s = e # r" using u by (auto split: list.splits)
    show ?thesis
    proof (cases "e = CHR ''u''")
      case True
      then obtain rr where rr: "getu4 s = Some rr" using u False e by (auto split: option.splits)
      show ?thesis
        using u False e True rr 1(1-3) [OF _ _ e True rr]
        by (auto simp: valid_utf8_words split: if_splits option.splits)
    next
      case ne: False
      then show ?thesis using u False e 1(4) [OF _ _ e ne]
        by (auto simp: valid_utf8_ascii_Cons escape_value_ascii split: if_splits)
    qed
  qed
qed

fun json_utf8 :: "json \<Rightarrow> bool" where
  "json_utf8 (JStr s) = valid_utf8 s"
| "json_utf8 (JArr vs) = (\<forall>v \<in> set vs. json_utf8 v)"
| "json_utf8 (JObj kvs) = (\<forall>kv \<in> set kvs. json_utf8 (snd kv))"
| "json_utf8 _ = True"

lemma parse_string_valid: "parse_string s = Inr (v, r) \<Longrightarrow> valid_utf8 v"
  by (auto simp: parse_string_def dest: unquote_valid split: option.splits)

lemma parse_scalar_valid: "parse_scalar s = Inr (v, r) \<Longrightarrow> json_utf8 v"
  by (auto simp: parse_scalar_def split: if_splits option.splits)

lemma parse_valid:
  "parse_value n d s = Inr (v, r) \<Longrightarrow> json_utf8 v"
  "parse_elems n d s = Inr (vs, r) \<Longrightarrow> \<forall>v \<in> set vs. json_utf8 v"
  "parse_members n d s = Inr (kvs, r) \<Longrightarrow> \<forall>kv \<in> set kvs. json_utf8 (snd kv)"
proof (induction n d s and n d s and n d s arbitrary: v r and vs r and kvs r
    rule: parse_value_parse_elems_parse_members.induct)
  case (2 n d s)
  then show ?case
    by (auto split: list.splits if_splits dest!: parse_string_valid parse_scalar_valid)
next
  case (4 n d s)
  then show ?case by (fastforce split: sum.splits list.splits if_splits)
next
  case (6 n d s)
  then show ?case by (fastforce split: sum.splits list.splits if_splits)
qed simp_all

text \<open>A field decoder keeps a property of the destination.\<close>

lemma decode_members_inv:
  assumes "decode_members fs s kvs = Some s'" "P s" "\<forall>kv \<in> set kvs. json_utf8 (snd kv)"
    "\<And>k f s j s'. (k, f) \<in> set fs \<Longrightarrow> f s j = Some s' \<Longrightarrow> json_utf8 j \<Longrightarrow> P s \<Longrightarrow> P s'"
  shows "P s'"
  using assms(1-3)
proof (induction kvs arbitrary: s)
  case (Cons kv kvs)
  obtain k j where kv: "kv = (k, j)" by (cases kv)
  with Cons.prems(1) obtain f s1 where f: "find_field fs k = Some f" "f s j = Some s1" "decode_members fs s1 kvs = Some s'"
    by (auto split: option.splits)
  then obtain k' where "(k', f) \<in> set fs" by (auto simp: find_field_def find_Some_iff) (metis nth_mem prod.collapse)
  then have "P s1" using assms(4) f(2) Cons.prems kv by auto
  then show ?case using Cons f by auto
qed simp

lemma decode_struct_inv:
  assumes "decode_struct fs s j = Some s'" "P s" "json_utf8 j"
    "\<And>k f s j s'. (k, f) \<in> set fs \<Longrightarrow> f s j = Some s' \<Longrightarrow> json_utf8 j \<Longrightarrow> P s \<Longrightarrow> P s'"
  shows "P s'"
  using assms decode_members_inv [of fs s _ s' P] by (auto simp: decode_struct_def split: json.splits)

lemma decode_elems_inv:
  assumes "decode_elems dec z bk js = Some xs" "list_all P bk" "P z" "list_all json_utf8 js"
    "\<And>x j x'. dec x j = Some x' \<Longrightarrow> json_utf8 j \<Longrightarrow> P x \<Longrightarrow> P x'"
  shows "list_all P xs"
  using assms(1,2,4)
proof (induction js arbitrary: bk xs)
  case (Cons j js)
  then obtain x ys where x: "dec (if bk = [] then z else hd bk) j = Some x"
      "decode_elems dec z (tl bk) js = Some ys" "xs = x # ys" by (auto split: option.splits)
  have "P (if bk = [] then z else hd bk)" "list_all P (tl bk)" using Cons(3) assms(3) by (cases bk, auto)+
  then show ?case using x Cons assms(5) by auto
qed simp

lemma decode_slice_inv:
  assumes "decode_slice dec z old j = Some s" "list_all P (sl_elems old)" "P z" "json_utf8 j"
    "\<And>x j x'. dec x j = Some x' \<Longrightarrow> json_utf8 j \<Longrightarrow> P x \<Longrightarrow> P x'"
  shows "list_all P (sl_elems s)"
  using assms decode_elems_inv [OF _ assms(2,3) _ assms(5)]
  by (auto simp: decode_slice_def nil_slice_def list_all_iff split: json.splits if_splits)

lemma Atoi_int64: "Atoi l = Some i \<Longrightarrow> int64 i"
  by (auto simp: Atoi_def Let_def int64_def split: if_splits)

lemma decode_int_int64: "decode_int old j = Some i \<Longrightarrow> int64 old \<Longrightarrow> int64 i"
  by (auto simp: decode_int_def dest: Atoi_int64 split: json.splits)

lemma decode_str_valid: "decode_str old j = Some s \<Longrightarrow> json_utf8 j \<Longrightarrow> valid_utf8 old \<Longrightarrow> valid_utf8 s"
  by (auto simp: decode_str_def split: json.splits)

lemma valid_utf8_Nil [simp]: "valid_utf8 []"
  by (simp add: valid_utf8.simps)

lemma int64_0 [simp]: "int64 0"
  by (simp add: int64_def)

lemma Decode_Inr:
  "Decode fs dst data = Inr d \<longleftrightarrow> length data \<le> MaxBodyBytes \<and>
     (\<exists>v rest. parse_json data = Inr (v, rest) \<and> decode_struct fs dst v = Some d \<and> \<not> More rest)"
  by (auto simp: Decode_def split: sum.splits option.splits)

lemma decoded_announce:
  assumes "Decode_AnnounceRequest data = Inr req"
  shows "int64 (ServingPort req) \<and> list_all valid_utf8 (Packages req)"
proof -
  obtain d v rest where d: "req = \<lparr>ServingPort = fst d, Packages = slice_list (snd d)\<rparr>"
    "parse_json data = Inr (v, rest)" "decode_struct announce_fields (0, nil_slice) v = Some d"
    using assms by (auto simp: Decode_AnnounceRequest_def Decode_Inr)
  have "json_utf8 v" using d(2) parse_valid(1) by (simp add: parse_json_def)
  then have "int64 (fst d) \<and> list_all valid_utf8 (sl_elems (snd d))"
    by (rule decode_struct_inv [OF d(3), rotated])
      (auto simp: announce_fields_def nil_slice_def intro: decode_int_int64 decode_slice_inv decode_str_valid)
  then show ?thesis using d(1) by (auto simp: slice_list_def list_all_iff dest: in_set_takeD)
qed

lemma decoded_peer_list:
  assumes "Decode_PeerListResponse data = Inr resp"
  shows "\<forall>p \<in> set (resp_Peers resp). int64 (Port p) \<and> valid_utf8 (IP p)"
proof -
  obtain d v rest where d: "resp = \<lparr>resp_Peers = slice_list d\<rparr>"
    "parse_json data = Inr (v, rest)" "decode_struct peer_list_fields nil_slice v = Some d"
    using assms by (auto simp: Decode_PeerListResponse_def Decode_Inr)
  let ?P = "\<lambda>p. int64 (Port p) \<and> valid_utf8 (IP p)"
  have peer: "?P p'" if "decode_struct peer_fields p j = Some p'" "json_utf8 j" "?P p" for p j p'
    by (rule decode_struct_inv [where P = ?P, OF that(1) that(3) that(2)])
      (auto simp: peer_fields_def intro: decode_int_int64 decode_str_valid)
  have "json_utf8 v" using d(2) parse_valid(1) by (simp add: parse_json_def)
  have field: "list_all ?P (sl_elems s')"
    if "decode_slice (decode_struct peer_fields) zero_peer s j = Some s'" "json_utf8 j" "list_all ?P (sl_elems s)" for s j s'
    by (rule decode_slice_inv [where P = ?P, OF that(1,3) _ that(2) peer]) (simp_all add: zero_peer_def)
  have "list_all ?P (sl_elems d)"
    by (rule decode_struct_inv [where P = "\<lambda>d. list_all ?P (sl_elems d)", OF d(3) _ \<open>json_utf8 v\<close>])
      (auto simp: peer_list_fields_def nil_slice_def intro: field)
  then show ?thesis using d(1) by (auto simp: slice_list_def list_all_iff dest: in_set_takeD)
qed

subsection \<open>Plain text is quoted as it is\<close>

definition plain_char :: "char \<Rightarrow> bool" where
  "plain_char c \<longleftrightarrow> 32 \<le> (of_char c :: nat) \<and> (of_char c :: nat) < 0x80 \<and>
     c \<notin> {CHR 0x22, CHR 0x5C, CHR ''<'', CHR ''>'', CHR ''&''}"

lemma quote_ascii_plain: "plain_char c \<Longrightarrow> quote_ascii c = [c]"
proof -
  assume c: "plain_char c"
  then have "32 \<le> (of_char c :: nat)" by (simp add: plain_char_def)
  then have "c \<noteq> CHR 8" "c \<noteq> CHR 12" "c \<noteq> CHR 10" "c \<noteq> CHR 13" "c \<noteq> CHR 9" by auto
  moreover have "c \<noteq> CHR 0x22" "c \<noteq> CHR 0x5C" "c \<noteq> CHR ''<''" "c \<noteq> CHR ''>''" "c \<noteq> CHR ''&''"
    "\<not> (of_char c :: nat) < 32" using c by (simp_all add: plain_char_def)
  ultimately show ?thesis unfolding quote_ascii_def Let_def by (simp only: if_False simp_thms)
qed

lemma quote_body_plain: "list_all plain_char s \<Longrightarrow> quote_body s = s"
proof (induction s)
  case (Cons c s)
  then show ?case by (subst quote_body.simps) (auto simp: quote_ascii_plain plain_char_def)
qed (simp add: quote_body.simps)

lemma quote_plain: "list_all plain_char s \<Longrightarrow> quote s = CHR 0x22 # s @ [CHR 0x22]"
  by (simp add: quote_def quote_body_plain)

lemma valid_utf8_plain: "list_all plain_char s \<Longrightarrow> valid_utf8 s"
  by (rule valid_utf8_ascii) (auto simp: list_all_iff plain_char_def)

lemma field_text:
  "quote ''servingPort'' = CHR 0x22 # ''servingPort'' @ [CHR 0x22]" "quote ''packages'' = CHR 0x22 # ''packages'' @ [CHR 0x22]"
  "quote ''ip'' = CHR 0x22 # ''ip'' @ [CHR 0x22]" "quote ''port'' = CHR 0x22 # ''port'' @ [CHR 0x22]"
  "quote ''peers'' = CHR 0x22 # ''peers'' @ [CHR 0x22]" "quote ''status'' = CHR 0x22 # ''status'' @ [CHR 0x22]"
  by (rule quote_plain, simp add: plain_char_def)+

lemmas encode_eval = Encode_def announce_json_def peer_list_json_def peer_json_def slice_json_def field_text

lemma More_newline [simp]: "\<not> More []" "\<not> More [CHR 10]"
  by (simp_all add: More_def skip_def is_space_def)

lemma More_bracket [simp]: "\<not> More (CHR ''}'' # r)" "\<not> More (CHR '']'' # r)"
  by (simp_all add: More_def)

lemma maxNestingDepth_gt [simp]: "2 < maxNestingDepth" "Suc 0 < maxNestingDepth"
  by (simp_all add: maxNestingDepth_def)

lemma Decode_announce_text:
  assumes "list_all valid_utf8 (Packages req)" "int64 (ServingPort req)" "delim r" "\<not> More r"
    "length (Encode (announce_json isnil req) @ r) \<le> MaxBodyBytes"
  shows "Decode_AnnounceRequest (Encode (announce_json isnil req) @ r) = Inr req"
proof -
  obtain ps where ps: "decode_struct announce_fields (0, nil_slice) (announce_json isnil req) = Some (ServingPort req, ps)"
    "slice_list ps = Packages req" using decode_announce_json [OF assms(2)] by blast
  have "Decode announce_fields (0, nil_slice) (Encode (announce_json isnil req) @ r) = Inr (ServingPort req, ps)"
    using assms by (intro Decode_Encode ps(1) printable_announce) auto
  then show ?thesis using ps(2) by (simp add: Decode_AnnounceRequest_def)
qed

lemma Decode_peer_list_text:
  assumes "\<forall>p \<in> set (resp_Peers resp). valid_utf8 (IP p) \<and> int64 (Port p)" "delim r" "\<not> More r"
    "length (Encode (peer_list_json isnil resp) @ r) \<le> MaxBodyBytes"
  shows "Decode_PeerListResponse (Encode (peer_list_json isnil resp) @ r) = Inr resp"
proof -
  obtain ps where ps: "decode_struct peer_list_fields nil_slice (peer_list_json isnil resp) = Some ps"
    "slice_list ps = resp_Peers resp" using decode_peer_list_json [of resp isnil] assms(1) by blast
  have "Decode peer_list_fields nil_slice (Encode (peer_list_json isnil resp) @ r) = Inr ps"
    using assms by (intro Decode_Encode ps(1) printable_peer_list) (auto simp: list_all_iff)
  then show ?thesis using ps(2) by (simp add: Decode_PeerListResponse_def)
qed

subsection \<open>Properties\<close>

text \<open>
  C13: the codec is lossless.  Whatever bytes \<open>Decode\<close> accepts as an announce, the request it
  returns has a 64-bit port and valid UTF-8 names, and encoding that request, with its empty list
  as \<open>null\<close> or as \<open>[]\<close>, gives text that decodes to the very same request when the text keeps
  within the body limit, and is refused as too large when it does not: an accepted request can be
  encoded to a longer text than it came in, for \<open>Encode\<close> writes some characters as escapes.
\<close>
theorem announce_codec_roundtrip:
  assumes "Decode_AnnounceRequest data = Inr req"
  shows "int64 (ServingPort req) \<and> list_all valid_utf8 (Packages req) \<and>
    Decode_AnnounceRequest (Encode (announce_json isnil req)) =
      (if length (Encode (announce_json isnil req)) \<le> 1048576 then Inr req else Inl ErrTooLarge)"
proof (cases "length (Encode (announce_json isnil req)) \<le> 1048576")
  case True
  then show ?thesis
    using decoded_announce [OF assms] Decode_announce_text [of req "[]" isnil] by (auto simp: delim_def MaxBodyBytes_def)
next
  case False
  then show ?thesis
    using decoded_announce [OF assms] by (simp add: Decode_AnnounceRequest_def Decode_def MaxBodyBytes_def)
qed

definition demo_message :: AnnounceRequest where
  "demo_message = \<lparr>ServingPort = 4711, Packages = [''curl-8.6.0'']\<rparr>"

lemma demo_message_text:
  "Encode (announce_json isnil demo_message) =
     (CHR ''{'' # CHR 0x22 # ''servingPort'') @ (CHR 0x22 # '':4711,'') @ (CHR 0x22 # ''packages'') @
     (CHR 0x22 # '':['') @ (CHR 0x22 # ''curl-8.6.0'') @ (CHR 0x22 # '']}'')"
proof -
  have q: "quote ''curl-8.6.0'' = CHR 0x22 # ''curl-8.6.0'' @ [CHR 0x22]" by (rule quote_plain) (simp add: plain_char_def)
  have i: "Itoa 4711 = ''4711''" by (simp add: Itoa_def nat_dec.simps digit_char_def char_of_def bit_iff_odd)
  show ?thesis by (simp add: demo_message_def encode_eval q i)
qed

lemma demo_message_decodes: "delim r \<Longrightarrow> \<not> More r \<Longrightarrow> length r < 1000 \<Longrightarrow>
   Decode_AnnounceRequest (Encode (announce_json isnil demo_message) @ r) = Inr demo_message"
  by (rule Decode_announce_text)
    (simp_all add: demo_message_text MaxBodyBytes_def, simp_all add: demo_message_def int64_def valid_utf8_plain plain_char_def)

theorem announce_codec_roundtrip_witness:
  "Decode_AnnounceRequest (Encode (announce_json True demo_message) @ ''}'') = Inr demo_message \<and>
   int64 (ServingPort demo_message) \<and> list_all valid_utf8 (Packages demo_message) \<and>
   Decode_AnnounceRequest (Encode (announce_json False demo_message)) = Inr demo_message"
  using announce_codec_roundtrip [of "Encode (announce_json True demo_message) @ ''}''" demo_message False]
    demo_message_decodes [of "''}''" True] 
  by (simp add: demo_message_text MaxBodyBytes_def)

subsection \<open>What an announce may look like\<close>

text \<open>
  The announces the contract allows, as JSON values: \<open>null\<close>, or an object whose every key is one of the two
  field names in whatever case, with a 64-bit integer literal for the port, an array of strings for the
  packages, and \<open>null\<close> for either of them or for a name.
\<close>

fun name_value :: "json \<Rightarrow> bool" where
  "name_value JNull = True"
| "name_value (JStr s) = True"
| "name_value j = False"

fun announce_member :: "string \<times> json \<Rightarrow> bool" where
  "announce_member (k, JNull) = (fold_name k = ''SERVINGPORT'' \<or> fold_name k = ''PACKAGES'')"
| "announce_member (k, JNum l) = (fold_name k = ''SERVINGPORT'' \<and> Atoi l \<noteq> None)"
| "announce_member (k, JArr js) = (fold_name k = ''PACKAGES'' \<and> list_all name_value js)"
| "announce_member (k, j) = False"

fun announce_value :: "json \<Rightarrow> bool" where
  "announce_value JNull = True"
| "announce_value (JObj kvs) = list_all announce_member kvs"
| "announce_value j = False"

text \<open>The values an object gives for a field, in the order of the text.\<close>

definition values_given :: "string \<Rightarrow> (string \<times> json) list \<Rightarrow> json list" where
  "values_given name kvs = map snd (filter (\<lambda>kv. fold_name (fst kv) = name) kvs)"

lemma values_given_simps [simp]:
  "values_given name [] = []"
  "values_given name (kv # kvs) = (if fold_name (fst kv) = name then [snd kv] else []) @ values_given name kvs"
  by (simp_all add: values_given_def)

fun port_given :: "int \<Rightarrow> json list \<Rightarrow> int" where
  "port_given p [] = p"
| "port_given p (JNum l # js) = port_given (the (Atoi l)) js"
| "port_given p (j # js) = port_given p js"

lemma announce_field:
  "find_field announce_fields k =
     (if fold_name k = ''SERVINGPORT'' then Some (\<lambda>s j. map_option (\<lambda>p. (p, snd s)) (decode_int (fst s) j))
      else if fold_name k = ''PACKAGES''
      then Some (\<lambda>s j. map_option (\<lambda>ps. (fst s, ps)) (decode_slice decode_str [] (snd s) j))
      else None)"
proof -
  have "fold_name ''servingPort'' = ''SERVINGPORT''" "fold_name ''packages'' = ''PACKAGES''"
    by (simp_all add: fold_name_ascii to_upper_def char_of_def bit_iff_odd)
  then show ?thesis by (simp add: find_field_def announce_fields_def eq_commute [of _ "fold_name k"])
qed

lemma decode_str_None: "decode_str old j = None \<longleftrightarrow> \<not> name_value j"
  by (cases j) (simp_all add: decode_str_def)

lemma decode_elems_None: "decode_elems decode_str z bk js = None \<longleftrightarrow> \<not> list_all name_value js"
proof (induction js arbitrary: bk)
  case (Cons j js)
  let ?old = "if bk = [] then z else hd bk"
  show ?case
  proof (cases "name_value j")
    case True
    then obtain x where "decode_str ?old j = Some x" using decode_str_None [of ?old j] by blast
    then show ?thesis using True Cons.IH by simp
  next
    case False
    then show ?thesis using decode_str_None [of ?old j] by simp
  qed
qed simp

lemma decode_elems_Some: "decode_elems decode_str z bk js = Some xs \<Longrightarrow> list_all name_value js"
  using decode_elems_None [of z bk js] by simp

lemma decode_elems_names:
  "decode_elems decode_str z bk (map JStr ss) = Some (ss @ drop (length ss) bk)"
  by (induction ss arbitrary: bk) (simp_all add: decode_str_def drop_Suc)

lemma decode_slice_names:
  "decode_slice decode_str z old (JArr (map JStr ss)) = Some sl \<Longrightarrow> slice_list sl = ss"
  by (auto simp: decode_slice_def decode_elems_names slice_list_def nil_slice_def split: if_splits)

lemma decode_slice_null: "decode_slice dec z old JNull = Some sl \<Longrightarrow> slice_list sl = []"
  by (auto simp: decode_slice_def slice_list_def nil_slice_def)

lemma decode_announce_None:
  "decode_members announce_fields s kvs = None \<longleftrightarrow> \<not> list_all announce_member kvs"
proof (induction kvs arbitrary: s)
  case (Cons kv kvs)
  obtain k j where kv: "kv = (k, j)" by (cases kv)
  show ?case
    by (cases j)
      (auto simp: kv Cons.IH announce_field decode_int_def decode_slice_def decode_elems_None
        dest: decode_elems_Some split: option.splits if_splits)
qed simp

lemma decode_announce_values:
  assumes "decode_members announce_fields s kvs = Some s'"
  shows "fst s' = port_given (fst s) (values_given ''SERVINGPORT'' kvs) \<and>
    (values_given ''PACKAGES'' kvs = [] \<longrightarrow> snd s' = snd s) \<and>
    (values_given ''PACKAGES'' kvs \<noteq> [] \<longrightarrow>
       (last (values_given ''PACKAGES'' kvs) = JNull \<longrightarrow> slice_list (snd s') = []) \<and>
       (\<forall>ss. last (values_given ''PACKAGES'' kvs) = JArr (map JStr ss) \<longrightarrow> slice_list (snd s') = ss))"
  using assms
proof (induction kvs arbitrary: s)
  case (Cons kv kvs)
  obtain k j where kv: "kv = (k, j)" by (cases kv)
  with Cons.prems obtain f s1 where f: "find_field announce_fields k = Some f" "f s j = Some s1"
    "decode_members announce_fields s1 kvs = Some s'" by (auto split: option.splits)
  note IH = Cons.IH [OF f(3)]
  show ?case
  proof (cases "fold_name k = ''SERVINGPORT''")
    case True
    then have "map_option (\<lambda>p. (p, snd s)) (decode_int (fst s) j) = Some s1" using f(1,2) by (auto simp: announce_field)
    then have "snd s1 = snd s" "port_given (fst s) (j # js) = port_given (fst s1) js" for js
      by (auto simp: decode_int_def split: json.splits)
    moreover have "values_given ''SERVINGPORT'' (kv # kvs) = j # values_given ''SERVINGPORT'' kvs"
      "values_given ''PACKAGES'' (kv # kvs) = values_given ''PACKAGES'' kvs" using True kv by simp_all
    ultimately show ?thesis using IH by simp
  next
    case False
    then have p: "fold_name k = ''PACKAGES''" using f(1) by (simp add: announce_field split: if_splits)
    then obtain sl where sl: "decode_slice decode_str [] (snd s) j = Some sl" "s1 = (fst s, sl)"
      using f(1,2) by (auto simp: announce_field)
    have "slice_list sl = ss" if "j = JArr (map JStr ss)" for ss using decode_slice_names [OF sl(1) [unfolded that]] .
    moreover have "slice_list sl = []" if "j = JNull" using decode_slice_null [OF sl(1) [unfolded that]] .
    moreover have "values_given ''PACKAGES'' (kv # kvs) = j # values_given ''PACKAGES'' kvs"
      "values_given ''SERVINGPORT'' (kv # kvs) = values_given ''SERVINGPORT'' kvs" using p kv by simp_all
    ultimately show ?thesis using IH sl(2) by (cases "values_given ''PACKAGES'' kvs = []") simp_all
  qed
qed simp

text \<open>
  C31: Decoding an announce is strict.  \<open>Decode\<close> returns on every input (the parser's fuel of
  \<open>2 n + 2\<close> steps on \<open>n\<close> bytes is never used up), and it succeeds exactly for a text of at most
  1 MiB that starts with a JSON value of the shape the contract allows and has, by the decoder's own test, nothing
  after it.  In particular an unknown field, a port that is no 64-bit integer literal, and a package
  that is no string are each refused.  What it returns is what the text says: the port is the last one given,
  or 0; the packages are those of the last array given, or none when that is \<open>null\<close> or absent.
\<close>
theorem announce_decoding_strict:
  "parse_json data \<noteq> Inl JFuel \<and>
   (Decode_AnnounceRequest data = Inl ErrTooLarge \<longleftrightarrow> 1048576 < length data) \<and>
   ((\<exists>req. Decode_AnnounceRequest data = Inr req) \<longleftrightarrow> length data \<le> 1048576 \<and>
      (\<exists>v rest. parse_json data = Inr (v, rest) \<and> announce_value v \<and> \<not> More rest)) \<and>
   (Decode_AnnounceRequest data = Inl ErrTrailing \<longleftrightarrow> length data \<le> 1048576 \<and>
      (\<exists>v rest. parse_json data = Inr (v, rest) \<and> announce_value v \<and> More rest)) \<and>
   (\<forall>req kvs rest. Decode_AnnounceRequest data = Inr req \<and> parse_json data = Inr (JObj kvs, rest) \<longrightarrow>
      ServingPort req = port_given 0 (values_given ''SERVINGPORT'' kvs) \<and>
      (values_given ''PACKAGES'' kvs = [] \<or> last (values_given ''PACKAGES'' kvs) = JNull \<longrightarrow> Packages req = []) \<and>
      (\<forall>ss. values_given ''PACKAGES'' kvs \<noteq> [] \<and> last (values_given ''PACKAGES'' kvs) = JArr (map JStr ss) \<longrightarrow> Packages req = ss))"
proof -
  have f: "parse_json data \<noteq> Inl JFuel"
    unfolding parse_json_def by (intro parse_no_fuel) (simp add: parse_fuel_def)
  have shape: "decode_struct announce_fields (0, nil_slice) v = None \<longleftrightarrow> \<not> announce_value v" for v
    by (cases v) (simp_all add: decode_struct_def decode_announce_None)
  have shape': "announce_value v" if "decode_struct announce_fields (0, nil_slice) v = Some d" for v d
    using shape [of v] that by simp
  have given: "ServingPort req = port_given 0 (values_given ''SERVINGPORT'' kvs) \<and>
      (values_given ''PACKAGES'' kvs = [] \<or> last (values_given ''PACKAGES'' kvs) = JNull \<longrightarrow> Packages req = []) \<and>
      (\<forall>ss. values_given ''PACKAGES'' kvs \<noteq> [] \<and> last (values_given ''PACKAGES'' kvs) = JArr (map JStr ss) \<longrightarrow> Packages req = ss)"
    if d: "Decode_AnnounceRequest data = Inr req" "parse_json data = Inr (JObj kvs, rest)" for req kvs rest
  proof -
    obtain d where "decode_members announce_fields (0, nil_slice) kvs = Some d"
      "req = \<lparr>ServingPort = fst d, Packages = slice_list (snd d)\<rparr>"
      using d by (auto simp: Decode_AnnounceRequest_def Decode_Inr decode_struct_def)
    with decode_announce_values [OF this(1)] show ?thesis by (auto simp: slice_list_def nil_slice_def)
  qed
  have too: "Decode_AnnounceRequest data = Inl ErrTooLarge \<longleftrightarrow> 1048576 < length data"
    by (auto simp: Decode_AnnounceRequest_def Decode_def MaxBodyBytes_def split: sum.splits option.splits)
  have ok: "(\<exists>req. Decode_AnnounceRequest data = Inr req) \<longleftrightarrow> length data \<le> 1048576 \<and>
      (\<exists>v rest. parse_json data = Inr (v, rest) \<and> announce_value v \<and> \<not> More rest)"
    using shape by (auto simp: Decode_AnnounceRequest_def Decode_def MaxBodyBytes_def dest: shape' split: sum.splits option.splits)
  have trail: "Decode_AnnounceRequest data = Inl ErrTrailing \<longleftrightarrow> length data \<le> 1048576 \<and>
      (\<exists>v rest. parse_json data = Inr (v, rest) \<and> announce_value v \<and> More rest)"
    using shape by (auto simp: Decode_AnnounceRequest_def Decode_def MaxBodyBytes_def dest: shape' split: sum.splits option.splits)
  show ?thesis using f too ok trail given by blast
qed

definition demo_members :: "(string \<times> json) list" where
  "demo_members = [(''servingPort'', JNum (Itoa 4711)), (''packages'', JArr [JStr ''curl-8.6.0''])]"

theorem announce_decoding_strict_witness:
  "ServingPort demo_message = port_given 0 (values_given ''SERVINGPORT'' demo_members) \<and>
   parse_json (Encode (announce_json False demo_message)) = Inr (JObj demo_members, []) \<and>
   \<not> (\<exists>req. Decode_AnnounceRequest (Encode (JObj [(''port'', JNum (Itoa 4711))])) = Inr req)"
proof -
  let ?bad = "JObj [(''port'', JNum (Itoa 4711))]"
  have j: "announce_json False demo_message = JObj demo_members"
    by (simp add: announce_json_def demo_message_def demo_members_def slice_json_def)
  have "printable maxNestingDepth (announce_json False demo_message)"
    by (rule printable_announce) (simp_all add: demo_message_def valid_utf8_plain plain_char_def)
  then have p: "parse_json (Encode (announce_json False demo_message)) = Inr (JObj demo_members, [])"
    unfolding Encode_def j using parse_json_print [of "JObj demo_members" "[]"] by (simp add: delim_def)
  have d: "Decode_AnnounceRequest (Encode (announce_json False demo_message)) = Inr demo_message"
    using demo_message_decodes [of "[]" False] by (simp add: delim_def demo_message_text)
  have "printable maxNestingDepth ?bad" by (auto simp: maxNestingDepth_def)
  then have bad: "parse_json (Encode ?bad) = Inr (?bad, [])"
    unfolding Encode_def using parse_json_print [of ?bad "[]"] by (simp add: delim_def)
  have shape: "\<not> announce_value ?bad" by (simp add: fold_name_ascii to_upper_def)
  have "\<not> (\<exists>req. Decode_AnnounceRequest (Encode ?bad) = Inr req)"
    using announce_decoding_strict [THEN conjunct2, THEN conjunct2, THEN conjunct1, of "Encode ?bad"] bad shape by simp
  moreover have "ServingPort demo_message = port_given 0 (values_given ''SERVINGPORT'' demo_members)"
    using announce_decoding_strict [THEN conjunct2, THEN conjunct2, THEN conjunct2, THEN conjunct2, rule_format, OF conjI, OF d p]
    by (rule conjunct1)
  ultimately show ?thesis using p by blast
qed

text \<open>
  \<open>Decode\<close> promises to reject anything after the first JSON value, but a closing brace or
  bracket ends its check: an announce followed by \<open>}\<close> and arbitrary bytes is accepted.
\<close>
theorem decode_ignores_text_after_bracket:
  assumes "list_all valid_utf8 (Packages req)" "int64 (ServingPort req)"
    "length (Encode (announce_json isnil req)) + length junk < MaxBodyBytes"
  shows "Decode_AnnounceRequest (Encode (announce_json isnil req) @ CHR ''}'' # junk) = Inr req"
  using assms by (intro Decode_announce_text) auto

theorem decode_ignores_text_after_bracket_witness:
  "Decode_AnnounceRequest (Encode (announce_json True demo_message) @ ''} junk {'') = Inr demo_message"
  using decode_ignores_text_after_bracket [of demo_message True "'' junk {''"]
  by (simp add: demo_message_text MaxBodyBytes_def, simp add: demo_message_def int64_def valid_utf8_plain plain_char_def)

end
