(* ===== verification/Config.thy ===== *)
theory Config
  imports Proto_Codec Go_URL Go_OS
begin

text \<open>
  The configuration library (\<open>src/internal/config/config.go\<close>) and the two things \<open>cmd/jmj\<close> does
  with it: merging the flags and printing a generated configuration.

  A file is what reading it yields.  Validation against the machine sees the file system through
  \<open>host_env\<close> and returns the writes it makes beside its verdict, so that what it touches can be
  stated.  Errors carry what their message names.
\<close>

record DaemonConfig =
  cf_TrackerURL :: string
  cf_FacadeAddr :: string
  cf_ServingAddr :: string
  cf_TempDir :: string
  cf_CacheDir :: string
  cf_RepoDBDir :: string
  cf_UpstreamURL :: string
  cf_MaxConcurrentSeeds :: int
  cf_MaxConcurrentSeedsPerIP :: int

definition DefaultConfig :: "string \<Rightarrow> DaemonConfig" where
  "DefaultConfig osTempDir =
     \<lparr>cf_TrackerURL = ''http://127.0.0.1:8080'', cf_FacadeAddr = ''127.0.0.1:9001'',
      cf_ServingAddr = ''0.0.0.0:9002'', cf_TempDir = osTempDir, cf_CacheDir = ''/var/cache/pkg'',
      cf_RepoDBDir = ''/var/db/pkg/repos'', cf_UpstreamURL = [], cf_MaxConcurrentSeeds = 0,
      cf_MaxConcurrentSeedsPerIP = 0\<rparr>"

datatype config_error =
    CfgRead
  | CfgLegacyKey string
  | CfgTrackerURL
  | CfgAddrFormat string addr_error
  | CfgAddrPort string string
  | CfgFacadeEveryInterface
  | CfgFacadeNotIP string
  | CfgFacadeNotLoopback string
  | CfgTempDirUnset
  | CfgCacheDirUnset
  | CfgRepoDBDirUnset
  | CfgUpstreamUnset
  | CfgUpstreamInvalid
  | CfgUpstreamPkgScheme string string
  | CfgUpstreamScheme string
  | CfgUpstreamNoHost
  | CfgSeedsNegative int
  | CfgSeedsPerIPNegative int
  | CfgNoABI
  | CfgPlaceholder nat
  | CfgTempDirCreate
  | CfgTempDirWrite
  | CfgCacheStat
  | CfgCacheNotDir
  | CfgRepoStat
  | CfgRepoNotDir
  | CfgPortFormat addr_error
  | CfgPortNumber string

subsection \<open>Reading\<close>

text \<open>The JSON tags.  \<open>json.Unmarshal\<close>, unlike the codec's decoder, drops unknown keys and refuses any
  text after the value.\<close>

definition config_fields :: "DaemonConfig struct" where
  "config_fields =
     [(''tracker_url'', \<lambda>c j. map_option (\<lambda>s. c\<lparr>cf_TrackerURL := s\<rparr>) (decode_str (cf_TrackerURL c) j)),
      (''facade_addr'', \<lambda>c j. map_option (\<lambda>s. c\<lparr>cf_FacadeAddr := s\<rparr>) (decode_str (cf_FacadeAddr c) j)),
      (''serving_addr'', \<lambda>c j. map_option (\<lambda>s. c\<lparr>cf_ServingAddr := s\<rparr>) (decode_str (cf_ServingAddr c) j)),
      (''temp_dir'', \<lambda>c j. map_option (\<lambda>s. c\<lparr>cf_TempDir := s\<rparr>) (decode_str (cf_TempDir c) j)),
      (''cache_dir'', \<lambda>c j. map_option (\<lambda>s. c\<lparr>cf_CacheDir := s\<rparr>) (decode_str (cf_CacheDir c) j)),
      (''repo_db_dir'', \<lambda>c j. map_option (\<lambda>s. c\<lparr>cf_RepoDBDir := s\<rparr>) (decode_str (cf_RepoDBDir c) j)),
      (''upstream_url'', \<lambda>c j. map_option (\<lambda>s. c\<lparr>cf_UpstreamURL := s\<rparr>) (decode_str (cf_UpstreamURL c) j)),
      (''max_concurrent_seeds'',
         \<lambda>c j. map_option (\<lambda>n. c\<lparr>cf_MaxConcurrentSeeds := n\<rparr>) (decode_int (cf_MaxConcurrentSeeds c) j)),
      (''max_concurrent_seeds_per_ip'',
         \<lambda>c j. map_option (\<lambda>n. c\<lparr>cf_MaxConcurrentSeedsPerIP := n\<rparr>) (decode_int (cf_MaxConcurrentSeedsPerIP c) j))]"

fun unmarshal_members :: "'s struct \<Rightarrow> 's \<Rightarrow> (string \<times> json) list \<Rightarrow> 's option" where
  "unmarshal_members fs s [] = Some s"
| "unmarshal_members fs s ((k, v) # kvs) =
     (case find_field fs k of
        None \<Rightarrow> unmarshal_members fs s kvs
      | Some f \<Rightarrow> (case f s v of None \<Rightarrow> None | Some s' \<Rightarrow> unmarshal_members fs s' kvs))"

definition Unmarshal :: "string \<Rightarrow> json option" where
  "Unmarshal data = (case parse_json data of Inl _ \<Rightarrow> None | Inr (v, rest) \<Rightarrow> if skip rest = [] then Some v else None)"

definition unmarshal_config :: "string \<Rightarrow> DaemonConfig \<Rightarrow> DaemonConfig option" where
  "unmarshal_config data c =
     (case Unmarshal data of
        Some JNull \<Rightarrow> Some c
      | Some (JObj kvs) \<Rightarrow> unmarshal_members config_fields c kvs
      | _ \<Rightarrow> None)"

definition legacyKeys :: "string list" where
  "legacyKeys = [''listen_addr'', ''buffer_dir'']"

text \<open>\<open>order\<close> is the order in which the loop visits \<open>legacyKeys\<close>; it decides which key is named.\<close>

definition checkLegacyKeys :: "string list \<Rightarrow> string \<Rightarrow> config_error option" where
  "checkLegacyKeys order data =
     (case Unmarshal data of
        Some (JObj kvs) \<Rightarrow> map_option CfgLegacyKey (find (\<lambda>k. k \<in> fst ` set kvs) order)
      | _ \<Rightarrow> None)"

datatype config_file =
    FileMissing
  | FileUnreadable
  | FileData string

definition config_read :: "string \<Rightarrow> string list \<Rightarrow> config_file \<Rightarrow> config_error + DaemonConfig \<times> bool" where
  "config_read osTempDir order f =
     (case f of
        FileMissing \<Rightarrow> Inr (DefaultConfig osTempDir, False)
      | FileUnreadable \<Rightarrow> Inl CfgRead
      | FileData data \<Rightarrow>
          (case unmarshal_config data (DefaultConfig osTempDir) of
             None \<Rightarrow> Inr (DefaultConfig osTempDir, True)
           | Some out \<Rightarrow>
               (case checkLegacyKeys order data of Some e \<Rightarrow> Inl e | None \<Rightarrow> Inr (out, False))))"

text \<open>The second component: whether the file is moved aside to \<open>.bak\<close>, as far as that works.\<close>

definition Load :: "string \<Rightarrow> string list \<Rightarrow> config_file \<Rightarrow> (config_error + DaemonConfig) \<times> bool" where
  "Load osTempDir order f =
     (case config_read osTempDir order f of
        Inl e \<Rightarrow> (Inl e, False)
      | Inr (cfg, corrupt) \<Rightarrow> (Inr cfg, corrupt))"

subsection \<open>Addresses\<close>

definition config_ServingPort :: "DaemonConfig \<Rightarrow> config_error + int" where
  "config_ServingPort c =
     (case SplitHostPort (cf_ServingAddr c) of
        Inl e \<Rightarrow> Inl (CfgPortFormat e)
      | Inr (_, portStr) \<Rightarrow>
          (case Atoi portStr of None \<Rightarrow> Inl (CfgPortNumber portStr) | Some port \<Rightarrow> Inr port))"

definition validateAddr :: "string \<Rightarrow> string \<Rightarrow> config_error + string" where
  "validateAddr field addr =
     (case SplitHostPort addr of
        Inl e \<Rightarrow> Inl (CfgAddrFormat field e)
      | Inr (host, portStr) \<Rightarrow>
          (case Atoi portStr of
             None \<Rightarrow> Inl (CfgAddrPort field portStr)
           | Some port \<Rightarrow>
               if port < 1024 \<or> port > 65535 then Inl (CfgAddrPort field portStr) else Inr host))"

definition validateFacadeAddr :: "string \<Rightarrow> config_error option" where
  "validateFacadeAddr addr =
     (case validateAddr ''facade_addr'' addr of
        Inl e \<Rightarrow> Some e
      | Inr host \<Rightarrow>
          if host = [] then Some CfgFacadeEveryInterface
          else if host = ''localhost'' then None
          else (case ParseIP host of
                  None \<Rightarrow> Some (CfgFacadeNotIP host)
                | Some ip \<Rightarrow> if \<not> IsLoopback ip then Some (CfgFacadeNotLoopback host) else None))"

subsection \<open>Fields\<close>

definition validateUpstreamURL :: "string \<Rightarrow> config_error option" where
  "validateUpstreamURL raw =
     (if raw = [] then Some CfgUpstreamUnset
      else case ParseRequestURI raw of
        None \<Rightarrow> Some CfgUpstreamInvalid
      | Some u \<Rightarrow>
          (let (rest, found) = CutPrefix (Scheme u) ''pkg+'' in
           if found then Some (CfgUpstreamPkgScheme (Scheme u) (rest @ ''://'' @ Host u @ URLPath u))
           else if Scheme u \<noteq> ''http'' \<and> Scheme u \<noteq> ''https'' then Some (CfgUpstreamScheme (Scheme u))
           else if Host u = [] then Some CfgUpstreamNoHost
           else None))"

definition ValidateFields :: "DaemonConfig \<Rightarrow> config_error option" where
  "ValidateFields cfg =
     (if ParseRequestURI (cf_TrackerURL cfg) = None then Some CfgTrackerURL
      else case validateFacadeAddr (cf_FacadeAddr cfg) of
        Some e \<Rightarrow> Some e
      | None \<Rightarrow>
          (case validateAddr ''serving_addr'' (cf_ServingAddr cfg) of
             Inl e \<Rightarrow> Some e
           | Inr _ \<Rightarrow>
               if cf_TempDir cfg = [] then Some CfgTempDirUnset
               else if cf_CacheDir cfg = [] then Some CfgCacheDirUnset
               else if cf_RepoDBDir cfg = [] then Some CfgRepoDBDirUnset
               else case validateUpstreamURL (cf_UpstreamURL cfg) of
                 Some e \<Rightarrow> Some e
               | None \<Rightarrow>
                   if cf_MaxConcurrentSeeds cfg < 0 then Some (CfgSeedsNegative (cf_MaxConcurrentSeeds cfg))
                   else if cf_MaxConcurrentSeedsPerIP cfg < 0
                     then Some (CfgSeedsPerIPNegative (cf_MaxConcurrentSeedsPerIP cfg))
                   else None))"

datatype config_warning = WarnPlaintext string | WarnPerIPCap int int

definition Warnings :: "DaemonConfig \<Rightarrow> config_warning list" where
  "Warnings cfg =
     (case ParseRequestURI (cf_UpstreamURL cfg) of
        Some u \<Rightarrow> if Scheme u = ''http'' then [WarnPlaintext (cf_UpstreamURL cfg)] else []
      | None \<Rightarrow> []) @
     (if cf_MaxConcurrentSeeds cfg > 0 \<and> cf_MaxConcurrentSeedsPerIP cfg > cf_MaxConcurrentSeeds cfg
      then [WarnPerIPCap (cf_MaxConcurrentSeedsPerIP cfg) (cf_MaxConcurrentSeeds cfg)] else [])"

subsection \<open>The placeholder\<close>

definition ABIPlaceholder :: string where "ABIPlaceholder = ''${ABI}''"

text \<open>\<open>strings.ReplaceAll\<close> for a non-empty pattern, and \<open>strings.Index\<close>.\<close>

function ReplaceAll :: "string \<Rightarrow> string \<Rightarrow> string \<Rightarrow> string" where
  "ReplaceAll s old new =
     (if s = [] \<or> old = [] then s
      else if HasPrefix s old then new @ ReplaceAll (drop (length old) s) old new
      else hd s # ReplaceAll (tl s) old new)"
  by auto
termination by (relation "measure (\<lambda>(s, _, _). length s)") auto

declare ReplaceAll.simps [simp del]

fun Index :: "string \<Rightarrow> string \<Rightarrow> nat option" where
  "Index [] p = (if p = [] then Some 0 else None)"
| "Index (c # s) p = (if HasPrefix (c # s) p then Some 0 else map_option Suc (Index s p))"

text \<open>\<open>PkgABI\<close>; the output of \<open>pkg config abi\<close>, when it could be run.\<close>

definition PkgABI :: "string option \<Rightarrow> string option" where
  "PkgABI out =
     (case out of
        None \<Rightarrow> None
      | Some s \<Rightarrow> if TrimSpace s = [] then None else Some (TrimSpace s))"

definition ExpandUpstream :: "string option \<Rightarrow> DaemonConfig \<Rightarrow> config_error + DaemonConfig" where
  "ExpandUpstream abi cfg =
     (let check = (\<lambda>c. case Index (cf_UpstreamURL c) ''${'' of Some i \<Rightarrow> Inl (CfgPlaceholder i) | None \<Rightarrow> Inr c)
      in if Contains (cf_UpstreamURL cfg) ABIPlaceholder
         then (case abi of
                 None \<Rightarrow> Inl CfgNoABI
               | Some v \<Rightarrow> check (cfg\<lparr>cf_UpstreamURL := ReplaceAll (cf_UpstreamURL cfg) ABIPlaceholder v\<rparr>))
         else check cfg)"

subsection \<open>The machine\<close>

record host_env =
  he_mkdir :: "string \<Rightarrow> bool"       \<comment> \<open>whether \<open>MkdirAll\<close> succeeds\<close>
  he_temp :: "string \<Rightarrow> string option" \<comment> \<open>the file \<open>CreateTemp\<close> makes there\<close>
  he_root :: node

datatype fs_effect = EffMkdirAll string | EffCreateIn string string | EffRemove string

definition stat_dir :: "node \<Rightarrow> string \<Rightarrow> config_error \<Rightarrow> config_error \<Rightarrow> config_error option" where
  "stat_dir root p unreadable notdir =
     (case os_Stat root p of
        None \<Rightarrow> Some unreadable
      | Some n \<Rightarrow> if \<not> IsDir n then Some notdir else None)"

definition Validate :: "host_env \<Rightarrow> DaemonConfig \<Rightarrow> config_error option \<times> fs_effect list" where
  "Validate e cfg =
     (case ValidateFields cfg of
        Some err \<Rightarrow> (Some err, [])
      | None \<Rightarrow>
          if \<not> he_mkdir e (cf_TempDir cfg) then (Some CfgTempDirCreate, [EffMkdirAll (cf_TempDir cfg)])
          else case he_temp e (cf_TempDir cfg) of
            None \<Rightarrow> (Some CfgTempDirWrite, [EffMkdirAll (cf_TempDir cfg)])
          | Some tmp \<Rightarrow>
              (case stat_dir (he_root e) (cf_CacheDir cfg) CfgCacheStat CfgCacheNotDir of
                 Some err \<Rightarrow> Some err
               | None \<Rightarrow> stat_dir (he_root e) (cf_RepoDBDir cfg) CfgRepoStat CfgRepoNotDir,
               [EffMkdirAll (cf_TempDir cfg), EffCreateIn (cf_TempDir cfg) tmp, EffRemove tmp]))"

subsection \<open>cmd/jmj\<close>

record flags =
  fl_tracker :: string
  fl_facadeAddr :: string
  fl_servingAddr :: string
  fl_tempDir :: string
  fl_cache :: string
  fl_repoDB :: string
  fl_upstream :: string

text \<open>Where the configuration is read from; \<open>home\<close> is the answer of \<open>os.UserHomeDir\<close>.\<close>

definition config_path :: "string \<Rightarrow> string option \<Rightarrow> string" where
  "config_path given home =
     (if given \<noteq> '''' then given
      else case home of
        Some h \<Rightarrow> Clean (Join [h, ''.config'', ''jmj'', ''config.json''] ''/'')
      | None \<Rightarrow> ''./config.json'')"

definition applyOverrides :: "flags \<Rightarrow> DaemonConfig \<Rightarrow> DaemonConfig" where
  "applyOverrides f c =
     (let c = (if fl_tracker f \<noteq> [] then c\<lparr>cf_TrackerURL := fl_tracker f\<rparr> else c);
          c = (if fl_upstream f \<noteq> [] then c\<lparr>cf_UpstreamURL := fl_upstream f\<rparr> else c);
          c = (if fl_facadeAddr f \<noteq> [] then c\<lparr>cf_FacadeAddr := fl_facadeAddr f\<rparr> else c);
          c = (if fl_servingAddr f \<noteq> [] then c\<lparr>cf_ServingAddr := fl_servingAddr f\<rparr> else c);
          c = (if fl_tempDir f \<noteq> [] then c\<lparr>cf_TempDir := fl_tempDir f\<rparr> else c);
          c = (if fl_repoDB f \<noteq> [] then c\<lparr>cf_RepoDBDir := fl_repoDB f\<rparr> else c);
          c = (if fl_cache f \<noteq> [] then c\<lparr>cf_CacheDir := fl_cache f\<rparr> else c)
      in c)"

text \<open>The output of \<open>json.NewEncoder(os.Stdout)\<close> with \<open>SetIndent("", "  ")\<close> for the configuration.\<close>

definition config_members :: "DaemonConfig \<Rightarrow> (string \<times> json) list" where
  "config_members c =
     [(''tracker_url'', JStr (cf_TrackerURL c)), (''facade_addr'', JStr (cf_FacadeAddr c)),
      (''serving_addr'', JStr (cf_ServingAddr c)), (''temp_dir'', JStr (cf_TempDir c)),
      (''cache_dir'', JStr (cf_CacheDir c)), (''repo_db_dir'', JStr (cf_RepoDBDir c)),
      (''upstream_url'', JStr (cf_UpstreamURL c)),
      (''max_concurrent_seeds'', JNum (Itoa (cf_MaxConcurrentSeeds c))),
      (''max_concurrent_seeds_per_ip'', JNum (Itoa (cf_MaxConcurrentSeedsPerIP c)))]"

definition indented_member :: "string \<times> json \<Rightarrow> string" where
  "indented_member kv = CHR 10 # ''  '' @ quote (fst kv) @ '': '' @ print_json (snd kv)"

definition print_config :: "DaemonConfig \<Rightarrow> string" where
  "print_config c = ''{'' @ Join (map indented_member (config_members c)) '','' @ [CHR 10] @ ''}'' @ [CHR 10]"

text \<open>Generator mode of \<open>main\<close>: what goes to standard output, and the exit status.\<close>

definition generate_config :: "string \<Rightarrow> flags \<Rightarrow> string \<times> nat" where
  "generate_config osTempDir f =
     (let cfg = applyOverrides f (DefaultConfig osTempDir) in
      if ValidateFields cfg \<noteq> None then ([], 1) else (print_config cfg, 0))"

subsection \<open>Reading back a generated configuration\<close>

lemma parse_value_skip: "skip s = skip s' \<Longrightarrow> parse_value n d s = parse_value n d s'"
  by (cases n) auto

lemma skip_space [simp]: "is_space c \<Longrightarrow> skip (c # s) = skip s"
  by (simp add: skip_def)

lemma spaces_are_spaces [simp]: "is_space CHR 10" "is_space CHR '' ''"
  by (simp_all add: is_space_def)

text \<open>What becomes of a member's value when it is printed and read.\<close>

fun json_text :: "json \<Rightarrow> json" where
  "json_text (JStr s) = JStr (utf8_text s)"
| "json_text j = j"

lemma reads_indented:
  assumes "\<And>k v r. (k, v) \<in> set kvs \<Longrightarrow> delim r \<Longrightarrow> reads d (print_json v @ r) (json_text v) r"
    "\<forall>kv \<in> set kvs. valid_utf8 (fst kv)" "kvs \<noteq> []"
  shows "\<exists>m. \<forall>n \<ge> m. parse_members n d (Join (map indented_member kvs) '','' @ [CHR 10] @ ''}'' @ r) =
    Inr (map (\<lambda>(k, v). (k, json_text v)) kvs, r)"
  using assms
proof (induction kvs)
  case (Cons kv kvs)
  obtain k v where kv: "kv = (k, v)" by (cases kv)
  have k: "valid_utf8 k" using Cons(3) kv by auto
  have sp: "parse_value n d (CHR '' '' # s) = parse_value n d s" for n s by (rule parse_value_skip) simp
  show ?case
  proof (cases "kvs = []")
    case True
    obtain m where "\<forall>n \<ge> m. parse_value n d (print_json v @ CHR 10 # CHR ''}'' # r) = Inr (json_text v, CHR 10 # CHR ''}'' # r)"
      using Cons(2) [of k v "CHR 10 # CHR ''}'' # r"] kv by (auto simp: reads_def)
    then have "parse_members n d (indented_member (k, v) @ [CHR 10] @ ''}'' @ r) = Inr ([(k, json_text v)], r)"
      if "Suc m \<le> n" for n
      using that k by (cases n) (auto simp: indented_member_def quote_def parse_string_quote sp)
    then show ?thesis using True kv by auto
  next
    case False
    let ?t = "Join (map indented_member kvs) '','' @ [CHR 10] @ ''}'' @ r" and ?ts = "map (\<lambda>(k, v). (k, json_text v)) kvs"
    obtain m where m: "\<forall>n \<ge> m. parse_value n d (print_json v @ CHR '','' # ?t) = Inr (json_text v, CHR '','' # ?t)"
      using Cons(2) [of k v "CHR '','' # ?t"] kv by (auto simp: reads_def)
    have "\<exists>m. \<forall>n \<ge> m. parse_members n d ?t = Inr (?ts, r)"
      by (rule Cons.IH) (use Cons.prems False in auto)
    then obtain l where l: "\<forall>n \<ge> l. parse_members n d ?t = Inr (?ts, r)" ..
    have "parse_members n d (indented_member (k, v) @ CHR '','' # ?t) = Inr ((k, json_text v) # ?ts, r)"
      if "Suc (max m l) \<le> n" for n
      using that m l k by (cases n) (auto simp: indented_member_def quote_def parse_string_quote sp)
    then show ?thesis using False kv by (auto simp: Join_Cons)
  qed
qed simp

definition config_text_ok :: "DaemonConfig \<Rightarrow> bool" where
  "config_text_ok c \<longleftrightarrow>
     list_all valid_utf8 [cf_TrackerURL c, cf_FacadeAddr c, cf_ServingAddr c, cf_TempDir c, cf_CacheDir c,
       cf_RepoDBDir c, cf_UpstreamURL c] \<and>
     int64 (cf_MaxConcurrentSeeds c) \<and> int64 (cf_MaxConcurrentSeedsPerIP c)"

text \<open>A configuration after a trip through its own text.\<close>

definition config_text :: "DaemonConfig \<Rightarrow> DaemonConfig" where
  "config_text c =
     c\<lparr>cf_TrackerURL := utf8_text (cf_TrackerURL c), cf_FacadeAddr := utf8_text (cf_FacadeAddr c),
       cf_ServingAddr := utf8_text (cf_ServingAddr c), cf_TempDir := utf8_text (cf_TempDir c),
       cf_CacheDir := utf8_text (cf_CacheDir c), cf_RepoDBDir := utf8_text (cf_RepoDBDir c),
       cf_UpstreamURL := utf8_text (cf_UpstreamURL c)\<rparr>"

lemma config_text_id:
  "config_text c = c \<longleftrightarrow> list_all valid_utf8 [cf_TrackerURL c, cf_FacadeAddr c, cf_ServingAddr c, cf_TempDir c,
     cf_CacheDir c, cf_RepoDBDir c, cf_UpstreamURL c]"
  by (cases c) (auto simp: config_text_def utf8_text_id)

lemma config_keys_plain: "list_all plain_char (map_of_key)" if "map_of_key \<in> fst ` set (config_members c)"
  using that by (auto simp: config_members_def plain_char_def)

lemma parse_print_config: "parse_json (print_config c) = Inr (JObj (config_members (config_text c)), [CHR 10])"
proof -
  have p: "reads d (print_json v @ r) (json_text v) r" if "(k, v) \<in> set (config_members c)" "delim r" for d k v r
    using that by (auto simp: config_members_def intro: reads_num reads_str_text)
  have k: "\<forall>kv \<in> set (config_members c). valid_utf8 (fst kv)"
    using config_keys_plain valid_utf8_plain by blast
  have ne: "config_members c \<noteq> []" by (simp add: config_members_def)
  have members: "map (\<lambda>(k, v). (k, json_text v)) (config_members c) = config_members (config_text c)"
    by (simp add: config_members_def config_text_def)
  obtain m where m: "\<forall>n \<ge> m. parse_members n (maxNestingDepth - 1)
      (Join (map indented_member (config_members c)) '','' @ [CHR 10] @ ''}'' @ [CHR 10]) =
      Inr (config_members (config_text c), [CHR 10])"
    using reads_indented [of "config_members c" "maxNestingDepth - 1" "[CHR 10]"] p k ne unfolding members by blast
  obtain t where t: "Join (map indented_member (config_members c)) '','' = CHR 10 # CHR '' '' # CHR '' '' # CHR 0x22 # t"
    using Join_hd [of "map indented_member (config_members c)" "'',''"] ne
    by (auto simp: indented_member_def quote_def config_members_def)
  have "parse_value (Suc m) maxNestingDepth (print_config c) = Inr (JObj (config_members (config_text c)), [CHR 10])"
    using m by (simp add: print_config_def t) (simp add: maxNestingDepth_def)
  then show ?thesis by (rule parse_json_eqI) simp
qed


lemma config_field_names [simp]:
  "find_field config_fields ''tracker_url'' =
     Some (\<lambda>c j. map_option (\<lambda>s. c\<lparr>cf_TrackerURL := s\<rparr>) (decode_str (cf_TrackerURL c) j))"
  "find_field config_fields ''facade_addr'' =
     Some (\<lambda>c j. map_option (\<lambda>s. c\<lparr>cf_FacadeAddr := s\<rparr>) (decode_str (cf_FacadeAddr c) j))"
  "find_field config_fields ''serving_addr'' =
     Some (\<lambda>c j. map_option (\<lambda>s. c\<lparr>cf_ServingAddr := s\<rparr>) (decode_str (cf_ServingAddr c) j))"
  "find_field config_fields ''temp_dir'' =
     Some (\<lambda>c j. map_option (\<lambda>s. c\<lparr>cf_TempDir := s\<rparr>) (decode_str (cf_TempDir c) j))"
  "find_field config_fields ''cache_dir'' =
     Some (\<lambda>c j. map_option (\<lambda>s. c\<lparr>cf_CacheDir := s\<rparr>) (decode_str (cf_CacheDir c) j))"
  "find_field config_fields ''repo_db_dir'' =
     Some (\<lambda>c j. map_option (\<lambda>s. c\<lparr>cf_RepoDBDir := s\<rparr>) (decode_str (cf_RepoDBDir c) j))"
  "find_field config_fields ''upstream_url'' =
     Some (\<lambda>c j. map_option (\<lambda>s. c\<lparr>cf_UpstreamURL := s\<rparr>) (decode_str (cf_UpstreamURL c) j))"
  "find_field config_fields ''max_concurrent_seeds'' =
     Some (\<lambda>c j. map_option (\<lambda>n. c\<lparr>cf_MaxConcurrentSeeds := n\<rparr>) (decode_int (cf_MaxConcurrentSeeds c) j))"
  "find_field config_fields ''max_concurrent_seeds_per_ip'' =
     Some (\<lambda>c j. map_option (\<lambda>n. c\<lparr>cf_MaxConcurrentSeedsPerIP := n\<rparr>) (decode_int (cf_MaxConcurrentSeedsPerIP c) j))"
  by (simp_all add: find_field_def config_fields_def fold_name_ascii to_upper_def)

lemma config_read_text:
  assumes "int64 (cf_MaxConcurrentSeeds c)" "int64 (cf_MaxConcurrentSeedsPerIP c)" "set order \<subseteq> set legacyKeys"
  shows "config_read tmp order (FileData (print_config c)) = Inr (config_text c, False)"
proof -
  have u: "Unmarshal (print_config c) = Some (JObj (config_members (config_text c)))"
    by (simp add: Unmarshal_def parse_print_config) (simp add: skip_def is_space_def)
  have "unmarshal_members config_fields (DefaultConfig tmp) (config_members (config_text c)) = Some (config_text c)"
    using assms(1,2) by (simp add: config_members_def config_text_def decode_str_def decode_int_Itoa)
  moreover have "find (\<lambda>k. k \<in> fst ` set (config_members (config_text c))) order = None"
    using assms(3) by (auto simp: find_None_iff legacyKeys_def config_members_def)
  ultimately show ?thesis by (simp add: config_read_def unmarshal_config_def u checkLegacyKeys_def)
qed

lemma config_read_print:
  assumes "config_text_ok c" "set order \<subseteq> set legacyKeys"
  shows "config_read tmp order (FileData (print_config c)) = Inr (c, False)"
  using config_read_text [of c order tmp] config_text_id [of c] assms by (simp add: config_text_ok_def)

text \<open>
  C23: what the generator prints is what the daemon loads.  When the generator prints anything, the
  configuration is valid, and loading that text succeeds with nothing moved aside, whatever the
  defaults are on the machine that loads it.  The two caps and every text that is valid UTF-8 load as they were;
  a text with other bytes, a path for instance, loads with U+FFFD in place of each of them.  So the
  configuration loaded is exactly the one printed if and only if its texts are valid UTF-8.
\<close>
theorem generated_config_loads_back:
  assumes "generate_config tmp f = (text, 0)" "cfg = applyOverrides f (DefaultConfig tmp)"
    "int64 (cf_MaxConcurrentSeeds cfg)" "int64 (cf_MaxConcurrentSeedsPerIP cfg)" "set order \<subseteq> set legacyKeys"
  shows "ValidateFields cfg = None \<and>
    (\<exists>loaded. Load tmp' order (FileData text) = (Inr loaded, False) \<and>
       cf_TrackerURL loaded = utf8_text (cf_TrackerURL cfg) \<and> cf_FacadeAddr loaded = utf8_text (cf_FacadeAddr cfg) \<and>
       cf_ServingAddr loaded = utf8_text (cf_ServingAddr cfg) \<and> cf_TempDir loaded = utf8_text (cf_TempDir cfg) \<and>
       cf_CacheDir loaded = utf8_text (cf_CacheDir cfg) \<and> cf_RepoDBDir loaded = utf8_text (cf_RepoDBDir cfg) \<and>
       cf_UpstreamURL loaded = utf8_text (cf_UpstreamURL cfg) \<and>
       cf_MaxConcurrentSeeds loaded = cf_MaxConcurrentSeeds cfg \<and>
       cf_MaxConcurrentSeedsPerIP loaded = cf_MaxConcurrentSeedsPerIP cfg \<and>
       (loaded = cfg \<longleftrightarrow> list_all valid_utf8 [cf_TrackerURL cfg, cf_FacadeAddr cfg, cf_ServingAddr cfg, cf_TempDir cfg,
          cf_CacheDir cfg, cf_RepoDBDir cfg, cf_UpstreamURL cfg]))"
proof -
  have "ValidateFields cfg = None" "text = print_config cfg"
    using assms(1,2) by (auto simp: generate_config_def Let_def split: if_splits)
  moreover from this(2) have "Load tmp' order (FileData text) = (Inr (config_text cfg), False)"
    using config_read_text [OF assms(3-5)] by (simp add: Load_def)
  ultimately show ?thesis using config_text_id [of cfg] by (simp add: config_text_def)
qed

lemma validated_addresses:
  assumes "ValidateFields cfg = None"
  shows "(\<exists>host portStr port.
      SplitHostPort (cf_FacadeAddr cfg) = Inr (host, portStr) \<and> Atoi portStr = Some port \<and> 1024 \<le> port \<and> port \<le> 65535 \<and>
      (host = ''localhost'' \<or> (\<exists>ip. ParseIP host = Some ip \<and> IsLoopback ip))) \<and>
    (\<exists>port. config_ServingPort cfg = Inr port \<and> 1024 \<le> port \<and> port \<le> 65535 \<and> ValidatePort port = None)"
proof -
  have f: "validateFacadeAddr (cf_FacadeAddr cfg) = None" and
    s: "\<exists>h. validateAddr ''serving_addr'' (cf_ServingAddr cfg) = Inr h"
    using assms by (auto simp: ValidateFields_def split: if_splits option.splits sum.splits)
  have "\<exists>host portStr port.
      SplitHostPort (cf_FacadeAddr cfg) = Inr (host, portStr) \<and> Atoi portStr = Some port \<and> 1024 \<le> port \<and> port \<le> 65535 \<and>
      (host = ''localhost'' \<or> (\<exists>ip. ParseIP host = Some ip \<and> IsLoopback ip))"
    using f by (fastforce simp: validateFacadeAddr_def validateAddr_def split: sum.splits option.splits if_splits prod.splits)
  moreover have "\<exists>port. config_ServingPort cfg = Inr port \<and> 1024 \<le> port \<and> port \<le> 65535 \<and> ValidatePort port = None"
    using s by (auto simp: validateAddr_def config_ServingPort_def split: sum.splits option.splits if_splits)
  ultimately show ?thesis by blast
qed

text \<open>
  C34: a configuration that passes the check keeps the facade on this host and announces a port peers
  can use: the facade listens on localhost or a loopback IP, both ports are between 1024 and 65535,
  and the port read from the serving address is one the tracker accepts.
\<close>
theorem validated_config_is_safe:
  assumes "ValidateFields cfg = None"
  shows "(\<exists>host portStr port.
      SplitHostPort (cf_FacadeAddr cfg) = Inr (host, portStr) \<and> Atoi portStr = Some port \<and> 1024 \<le> port \<and> port \<le> 65535 \<and>
      (host = ''localhost'' \<or> (\<exists>ip. ParseIP host = Some ip \<and> IsLoopback ip))) \<and>
    (\<exists>port. config_ServingPort cfg = Inr port \<and> 1024 \<le> port \<and> port \<le> 65535 \<and> ValidatePort port = None)"
  by (rule validated_addresses [OF assms])

lemma Index_None: "p \<noteq> [] \<Longrightarrow> Index s p = None \<longleftrightarrow> \<not> Contains s p"
  by (induction s) (auto simp: HasPrefix_def)

lemma ReplaceAll_none: "p \<noteq> [] \<Longrightarrow> \<not> Contains s p \<Longrightarrow> ReplaceAll s p v = s"
  by (induction s) (auto simp: ReplaceAll.simps)

text \<open>An expanded URL carries no placeholder, and a literal one is left alone without asking for the ABI.\<close>

lemma ExpandUpstream_literal:
  "\<not> Contains (cf_UpstreamURL cfg) ''${'' \<Longrightarrow> \<not> Contains (cf_UpstreamURL cfg) ABIPlaceholder \<Longrightarrow> ExpandUpstream abi cfg = Inr cfg"
  using Index_None [of "''${''" "cf_UpstreamURL cfg"] by (simp add: ExpandUpstream_def)

lemma ExpandUpstream_Inr:
  "ExpandUpstream abi cfg = Inr cfg' \<Longrightarrow> \<not> Contains (cf_UpstreamURL cfg') ''${'' \<and>
    cfg' = cfg\<lparr>cf_UpstreamURL := if Contains (cf_UpstreamURL cfg) ABIPlaceholder
      then ReplaceAll (cf_UpstreamURL cfg) ABIPlaceholder (the abi) else cf_UpstreamURL cfg\<rparr>"
  using Index_None [of "''${''"]
  by (auto simp: ExpandUpstream_def Let_def split: if_splits option.splits)

text \<open>\<open>ValidateFields\<close> says that the tracker URL must be an HTTP URL, but any absolute path and any
  scheme passes.\<close>

lemma tracker_url_need_not_be_http:
  assumes "ValidateFields cfg = None"
  shows "ValidateFields (cfg\<lparr>cf_TrackerURL := ''/tracker''\<rparr>) = None"
proof -
  have "ParseRequestURI ''/tracker'' \<noteq> None"
    by (simp add: ParseRequestURI_def url_parse_def ctl_byte_def getScheme_def scheme_char_def is_letter_def
        is_digit_def Let_def split_query_def HasSuffix_def HasPrefix_def setPath_def cut_def)
  then show ?thesis using assms by (auto simp: ValidateFields_def split: if_splits option.splits sum.splits)
qed

text \<open>The check writes nothing but the scratch directory, and nothing at all when a field is wrong.\<close>

lemma Validate_effects:
  "snd (Validate e cfg) \<noteq> [] \<Longrightarrow> ValidateFields cfg = None \<and>
   (\<exists>tmp. set (snd (Validate e cfg)) \<subseteq> {EffMkdirAll (cf_TempDir cfg), EffCreateIn (cf_TempDir cfg) tmp, EffRemove tmp})"
  by (auto simp: Validate_def split: option.splits if_splits)

lemma Validate_ok:
  "fst (Validate e cfg) = None \<longleftrightarrow> ValidateFields cfg = None \<and> he_mkdir e (cf_TempDir cfg) \<and>
     he_temp e (cf_TempDir cfg) \<noteq> None \<and>
     (\<exists>n. os_Stat (he_root e) (cf_CacheDir cfg) = Some n \<and> IsDir n) \<and>
     (\<exists>n. os_Stat (he_root e) (cf_RepoDBDir cfg) = Some n \<and> IsDir n)"
  by (auto simp: Validate_def stat_dir_def split: option.splits if_splits)

definition demo_flags :: flags where
  "demo_flags = \<lparr>fl_tracker = [], fl_facadeAddr = [], fl_servingAddr = [], fl_tempDir = [], fl_cache = [],
     fl_repoDB = [], fl_upstream = ''https://a.org/x''\<rparr>"

definition demo_config :: DaemonConfig where
  "demo_config = (DefaultConfig ''/tmp'')\<lparr>cf_UpstreamURL := ''https://a.org/x''\<rparr>"

lemma demo_config_flags: "applyOverrides demo_flags (DefaultConfig ''/tmp'') = demo_config"
  by (simp add: applyOverrides_def demo_flags_def demo_config_def)

lemmas config_url_eval = url_parse_def ctl_byte_def getScheme_def scheme_char_def is_letter_def
  Let_def split_query_def HasSuffix_def HasPrefix_def ToLower_def ascii_lower_def parseAuthority_def
  parseHost_def setPath_def shouldEscape_def alnum_def empty_url_def is_digit_def validOptionalPort_def cut_def

lemma demo_config_valid: "ValidateFields demo_config = None"
proof -
  have t: "ParseRequestURI ''http://127.0.0.1:8080'' \<noteq> None"
    by (simp add: ParseRequestURI_def config_url_eval)
  have u: "validateUpstreamURL ''https://a.org/x'' = None"
    by (simp add: validateUpstreamURL_def ParseRequestURI_def config_url_eval CutPrefix_def)
  have f: "validateFacadeAddr ''127.0.0.1:9001'' = None"
    by (simp add: validateFacadeAddr_def validateAddr_def SplitHostPort_def Atoi_def Let_def dec_value_def is_digit_def
        ParseIP_def parseIPv4_def v4_field_def IsLoopback_def To4_def)
  have s: "validateAddr ''serving_addr'' ''0.0.0.0:9002'' = Inr ''0.0.0.0''"
    by (simp add: validateAddr_def SplitHostPort_def Atoi_def Let_def dec_value_def is_digit_def)
  show ?thesis using t u f s by (simp add: ValidateFields_def demo_config_def DefaultConfig_def)
qed

lemma demo_config_text: "config_text_ok demo_config"
  by (simp add: config_text_ok_def demo_config_def DefaultConfig_def valid_utf8_plain plain_char_def)

theorem generated_config_loads_back_witness:
  "Load ''/var/tmp'' [''buffer_dir'', ''listen_addr''] (FileData (fst (generate_config ''/tmp'' demo_flags))) =
     (Inr demo_config, False)"
proof -
  have out: "generate_config ''/tmp'' demo_flags = (fst (generate_config ''/tmp'' demo_flags), 0)"
    using demo_config_flags demo_config_valid by (simp add: generate_config_def)
  have ints: "int64 (cf_MaxConcurrentSeeds demo_config)" "int64 (cf_MaxConcurrentSeedsPerIP demo_config)"
    using demo_config_text by (simp_all add: config_text_ok_def)
  have "list_all valid_utf8 [cf_TrackerURL demo_config, cf_FacadeAddr demo_config, cf_ServingAddr demo_config,
      cf_TempDir demo_config, cf_CacheDir demo_config, cf_RepoDBDir demo_config, cf_UpstreamURL demo_config]"
    using demo_config_text by (simp add: config_text_ok_def)
  then show ?thesis
    using generated_config_loads_back [OF out demo_config_flags [symmetric] ints, of "[''buffer_dir'', ''listen_addr'']" "''/var/tmp''"]
    by (auto simp: legacyKeys_def)
qed

theorem validated_config_is_safe_witness:
  "\<exists>port. config_ServingPort demo_config = Inr port \<and> 1024 \<le> port \<and> port \<le> 65535 \<and> ValidatePort port = None"
  using validated_config_is_safe [OF demo_config_valid] by blast

end
