(* ===== verification/Tracker.thy ===== *)
theory Tracker
  imports Proto
begin

text \<open>
  The in-memory registry of the tracker (\<open>src/internal/tracker/tracker.go\<close>).

  A registration is kept twice: in \<open>peers\<close>, keyed by IP, and in \<open>packages\<close>, the reverse
  index.  The invariant \<open>tracker_inv\<close> says that the index is exactly what the registrations
  imply.  Every operation keeps it, whatever order its map loops run in, and under it each
  operation refines an operation of the abstract registry, a map from IPs to records
  (\<open>spec_Announce\<close> and its siblings).  The locale \<open>registry_contract\<close> states that contract; its lemmas
  about runs of the registry are proved once, from the contract alone.

  Times and durations are integers (nanoseconds).  Each call of \<open>time.Now()\<close> is an argument.
  A handler holds the registry's lock for its whole body, so one call is one step.
\<close>

subsection \<open>State\<close>

definition Timeout :: int where "Timeout = 60 * 10 ^ 9"

definition SweepInterval :: int where "SweepInterval = 15 * 10 ^ 9"

definition MaxPeers :: nat where "MaxPeers = 3"

record peerRecord =
  rec_ServingPort :: int
  rec_Deadline :: int
  rec_Packages :: "string set"

record Tracker =
  tr_peers :: "string \<rightharpoonup> peerRecord"
  tr_packages :: "string \<rightharpoonup> string set"
  tr_timeout :: int

definition NewWithTimeout :: "int \<Rightarrow> Tracker" where
  "NewWithTimeout d = \<lparr>tr_peers = Map.empty, tr_packages = Map.empty, tr_timeout = d\<rparr>"

definition Tracker_New :: Tracker where
  "Tracker_New = NewWithTimeout Timeout"

subsection \<open>Operations\<close>

text \<open>The body of the loop in \<open>removeFromIndex\<close>.\<close>

definition drop_holder :: "string \<Rightarrow> string \<Rightarrow> (string \<rightharpoonup> string set) \<Rightarrow> (string \<rightharpoonup> string set)" where
  "drop_holder ip nameVersion idx =
     (case idx nameVersion of
        None \<Rightarrow> idx
      | Some holders \<Rightarrow>
          let holders' = holders - {ip} in
          if holders' = {} then idx(nameVersion := None) else idx(nameVersion \<mapsto> holders'))"

definition removeFromIndex :: "string list \<Rightarrow> string \<Rightarrow> Tracker \<Rightarrow> Tracker" where
  "removeFromIndex order ip t =
     (case tr_peers t ip of
        None \<Rightarrow> t
      | Some rec \<Rightarrow> t\<lparr>tr_packages := fold (drop_holder ip) order (tr_packages t)\<rparr>)"

text \<open>The body of the loop in \<open>Announce\<close>: the announced set and the index grow together.\<close>

definition add_holder ::
  "string \<Rightarrow> string \<Rightarrow> string set \<times> (string \<rightharpoonup> string set) \<Rightarrow> string set \<times> (string \<rightharpoonup> string set)" where
  "add_holder ip nameVersion st =
     (let holders = (case snd st nameVersion of None \<Rightarrow> {} | Some h \<Rightarrow> h)
      in (insert nameVersion (fst st), (snd st)(nameVersion \<mapsto> insert ip holders)))"

definition Tracker_Announce :: "string list \<Rightarrow> string \<Rightarrow> AnnounceRequest \<Rightarrow> int \<Rightarrow> Tracker \<Rightarrow> Tracker" where
  "Tracker_Announce order ip req now t =
     (let t1 = removeFromIndex order ip t in
      if Packages req = [] then t1\<lparr>tr_peers := (tr_peers t1)(ip := None)\<rparr>
      else
        (let st = fold (add_holder ip) (Packages req) ({}, tr_packages t1) in
         t1\<lparr>tr_packages := snd st,
            tr_peers := (tr_peers t1)(ip \<mapsto>
              \<lparr>rec_ServingPort = ServingPort req,
               rec_Deadline = now + tr_timeout t1,
               rec_Packages = fst st\<rparr>)\<rparr>))"

definition Tracker_Ping :: "string list \<Rightarrow> string \<Rightarrow> int \<Rightarrow> int \<Rightarrow> Tracker \<Rightarrow> bool \<times> Tracker" where
  "Tracker_Ping order ip now now' t =
     (case tr_peers t ip of
        None \<Rightarrow> (False, t)
      | Some rec \<Rightarrow>
          if now > rec_Deadline rec then
            (let t1 = removeFromIndex order ip t
             in (False, t1\<lparr>tr_peers := (tr_peers t1)(ip := None)\<rparr>))
          else (True, t\<lparr>tr_peers := (tr_peers t)(ip \<mapsto> rec\<lparr>rec_Deadline := now' + tr_timeout t\<rparr>)\<rparr>))"

fun peers_loop :: "Tracker \<Rightarrow> int \<Rightarrow> string list \<Rightarrow> PeerInfo list \<Rightarrow> PeerInfo list" where
  "peers_loop t now [] out = out"
| "peers_loop t now (ip # ips) out =
     (if length out = MaxPeers then out
      else case tr_peers t ip of
             None \<Rightarrow> peers_loop t now ips out
           | Some rec \<Rightarrow>
               if now > rec_Deadline rec then peers_loop t now ips out
               else peers_loop t now ips (out @ [\<lparr>IP = ip, Port = rec_ServingPort rec\<rparr>]))"

definition Tracker_Peers :: "string list \<Rightarrow> string \<Rightarrow> int \<Rightarrow> Tracker \<Rightarrow> PeerInfo list" where
  "Tracker_Peers order nameVersion now t =
     (case tr_packages t nameVersion of
        None \<Rightarrow> []
      | Some holders \<Rightarrow> peers_loop t now order [])"

text \<open>The body of the loop in \<open>Sweep\<close>; \<open>pord ip\<close> is the order of the inner map loop.\<close>

definition sweep_one :: "(string \<Rightarrow> string list) \<Rightarrow> int \<Rightarrow> string \<Rightarrow> Tracker \<times> nat \<Rightarrow> Tracker \<times> nat" where
  "sweep_one pord now ip st =
     (case tr_peers (fst st) ip of
        None \<Rightarrow> st
      | Some rec \<Rightarrow>
          if now > rec_Deadline rec then
            (let t1 = removeFromIndex (pord ip) ip (fst st)
             in (t1\<lparr>tr_peers := (tr_peers t1)(ip := None)\<rparr>, Suc (snd st)))
          else st)"

definition Tracker_Sweep :: "string list \<Rightarrow> (string \<Rightarrow> string list) \<Rightarrow> int \<Rightarrow> Tracker \<Rightarrow> Tracker \<times> nat" where
  "Tracker_Sweep order pord now t = fold (sweep_one pord now) order (t, 0)"

subsection \<open>The abstract registry\<close>

type_synonym registry = "string \<rightharpoonup> peerRecord"

definition spec_Announce :: "int \<Rightarrow> string \<Rightarrow> AnnounceRequest \<Rightarrow> int \<Rightarrow> registry \<Rightarrow> registry" where
  "spec_Announce T ip req now R =
     (if Packages req = [] then R(ip := None)
      else R(ip \<mapsto> \<lparr>rec_ServingPort = ServingPort req, rec_Deadline = now + T,
                    rec_Packages = set (Packages req)\<rparr>))"

definition spec_Ping :: "int \<Rightarrow> string \<Rightarrow> int \<Rightarrow> int \<Rightarrow> registry \<Rightarrow> bool \<times> registry" where
  "spec_Ping T ip now now' R =
     (case R ip of
        None \<Rightarrow> (False, R)
      | Some r \<Rightarrow> if now > rec_Deadline r then (False, R(ip := None))
                  else (True, R(ip \<mapsto> r\<lparr>rec_Deadline := now' + T\<rparr>)))"

definition expired :: "int \<Rightarrow> registry \<Rightarrow> string set" where
  "expired now R = {ip. \<exists>r. R ip = Some r \<and> now > rec_Deadline r}"

definition spec_Sweep :: "int \<Rightarrow> registry \<Rightarrow> registry" where
  "spec_Sweep now R = (\<lambda>ip. if ip \<in> expired now R then None else R ip)"

text \<open>The holders of a package that a query at time \<open>now\<close> may name.\<close>

definition live_holders :: "registry \<Rightarrow> string \<Rightarrow> int \<Rightarrow> string set" where
  "live_holders R nameVersion now =
     {ip. \<exists>r. R ip = Some r \<and> nameVersion \<in> rec_Packages r \<and> now \<le> rec_Deadline r}"

definition holders :: "registry \<Rightarrow> string \<Rightarrow> string set" where
  "holders R nameVersion = {ip. \<exists>r. R ip = Some r \<and> nameVersion \<in> rec_Packages r}"

definition index_of :: "registry \<Rightarrow> (string \<rightharpoonup> string set)" where
  "index_of R = (\<lambda>nv. if holders R nv = {} then None else Some (holders R nv))"

definition tracker_inv :: "Tracker \<Rightarrow> bool" where
  "tracker_inv t \<longleftrightarrow>
     tr_packages t = index_of (tr_peers t) \<and> finite (dom (tr_peers t)) \<and>
     (\<forall>r \<in> ran (tr_peers t). finite (rec_Packages r) \<and> rec_Packages r \<noteq> {})"

definition pkgs_of :: "Tracker \<Rightarrow> string \<Rightarrow> string set" where
  "pkgs_of t ip = (case tr_peers t ip of None \<Rightarrow> {} | Some r \<Rightarrow> rec_Packages r)"

definition holders_of :: "Tracker \<Rightarrow> string \<Rightarrow> string set" where
  "holders_of t nv = (case tr_packages t nv of None \<Rightarrow> {} | Some h \<Rightarrow> h)"

subsection \<open>The index follows the registrations\<close>

lemma removeFromIndex_peers [simp]:
  "tr_peers (removeFromIndex order ip t) = tr_peers t"
  "tr_timeout (removeFromIndex order ip t) = tr_timeout t"
  by (auto simp: removeFromIndex_def split: option.splits)

lemma drop_holder_apply:
  "drop_holder ip k idx nv =
     (if nv = k then Option.bind (idx nv) (\<lambda>h. if h - {ip} = {} then None else Some (h - {ip}))
      else idx nv)"
  by (auto simp: drop_holder_def Let_def split: option.splits)

lemma fold_drop_holder:
  "fold (drop_holder ip) order idx nv =
     (if nv \<in> set order then Option.bind (idx nv) (\<lambda>h. if h - {ip} = {} then None else Some (h - {ip}))
      else idx nv)"
proof (induction order arbitrary: idx)
  case (Cons k ks)
  show ?case
    unfolding fold_simps Cons.IH by (cases "idx nv") (auto simp: drop_holder_apply split: if_splits)
qed simp

lemma fold_add_holder:
  "fold (add_holder ip) nvs (S, idx) =
     (S \<union> set nvs,
      \<lambda>nv. if nv \<in> set nvs then Some (insert ip (case idx nv of None \<Rightarrow> {} | Some h \<Rightarrow> h)) else idx nv)"
proof (induction nvs arbitrary: S idx)
  case (Cons k ks)
  have "add_holder ip k (S, idx) = (insert k S, idx(k \<mapsto> insert ip (case idx k of None \<Rightarrow> {} | Some h \<Rightarrow> h)))"
    by (simp add: add_holder_def)
  then show ?case
    by (auto simp: Cons.IH fun_eq_iff split: option.splits)
qed simp

lemma holders_upd_None: "holders (R(ip := None)) nv = holders R nv - {ip}"
  by (auto simp: holders_def)

lemma holders_upd_Some:
  "holders (R(ip \<mapsto> r)) nv = (if nv \<in> rec_Packages r then insert ip (holders R nv) else holders R nv - {ip})"
  by (auto simp: holders_def)

lemma holders_of_index: "tr_packages t = index_of (tr_peers t) \<Longrightarrow> holders_of t nv = holders (tr_peers t) nv"
  by (simp add: holders_of_def index_of_def)

lemma removeFromIndex_packages:
  assumes inv: "tr_packages t = index_of (tr_peers t)" and ord: "range_order order (pkgs_of t ip)"
  shows "tr_packages (removeFromIndex order ip t) = index_of ((tr_peers t)(ip := None))"
proof (cases "tr_peers t ip")
  case None
  then have "(tr_peers t)(ip := None) = tr_peers t" by auto
  with None inv show ?thesis by (simp add: removeFromIndex_def)
next
  case (Some r)
  show ?thesis
  proof
    fix nv
    have "ip \<in> holders (tr_peers t) nv \<longleftrightarrow> nv \<in> set order"
      using Some range_order_set [OF ord] by (auto simp: pkgs_of_def holders_def)
    then show "tr_packages (removeFromIndex order ip t) nv = index_of ((tr_peers t)(ip := None)) nv"
      using Some by (auto simp: removeFromIndex_def fold_drop_holder inv index_of_def holders_upd_None)
  qed
qed

subsection \<open>Every operation refines the abstract registry\<close>

lemma Announce_peers [state_simps]:
  "tr_peers (Tracker_Announce order ip req now t) = spec_Announce (tr_timeout t) ip req now (tr_peers t)"
  by (simp add: Tracker_Announce_def spec_Announce_def Let_def fold_add_holder)

lemma Ping_peers [state_simps]:
  "map_prod id tr_peers (Tracker_Ping order ip now now' t) = spec_Ping (tr_timeout t) ip now now' (tr_peers t)"
  by (auto simp: Tracker_Ping_def spec_Ping_def Let_def split: option.splits)

lemma Announce_packages:
  assumes "tr_packages t = index_of (tr_peers t)" "range_order order (pkgs_of t ip)"
  shows "tr_packages (Tracker_Announce order ip req now t) = index_of (tr_peers (Tracker_Announce order ip req now t))"
proof (cases "Packages req = []")
  case True
  with assms show ?thesis by (simp add: Tracker_Announce_def Let_def removeFromIndex_packages)
next
  case False
  let ?R = "(tr_peers t)(ip := None)"
  have "tr_packages (Tracker_Announce order ip req now t) nv =
      index_of (tr_peers (Tracker_Announce order ip req now t)) nv" for nv
    using False assms
    by (auto simp: Tracker_Announce_def Let_def fold_add_holder removeFromIndex_packages index_of_def
        holders_upd_Some holders_upd_None)
  then show ?thesis by blast
qed

lemma Announce_inv [inv_intros]:
  assumes "tracker_inv t" "range_order order (pkgs_of t ip)"
  shows "tracker_inv (Tracker_Announce order ip req now t)"
proof -
  let ?R = "spec_Announce (tr_timeout t) ip req now (tr_peers t)"
  have "finite (dom ?R)" "\<forall>r \<in> ran ?R. finite (rec_Packages r) \<and> rec_Packages r \<noteq> {}"
    using assms(1) by (auto simp: tracker_inv_def spec_Announce_def ran_def split: if_splits)
  then show ?thesis
    using assms Announce_packages [of t order ip req now]
    by (simp add: tracker_inv_def Announce_peers)
qed

lemma index_of_same_pkgs:
  assumes "R ip = Some r" "rec_Packages r' = rec_Packages r"
  shows "index_of (R(ip \<mapsto> r')) = index_of R"
proof -
  have "ip \<in> holders R nv \<longleftrightarrow> nv \<in> rec_Packages r" for nv
    by (simp add: holders_def assms(1))
  then have "holders (R(ip \<mapsto> r')) nv = holders R nv" for nv
    by (auto simp: holders_upd_Some assms(2))
  then show ?thesis by (simp add: index_of_def fun_eq_iff)
qed

lemma remove_inv:
  assumes "tracker_inv t" "range_order order (pkgs_of t ip)"
  shows "tracker_inv ((removeFromIndex order ip t)\<lparr>tr_peers := (tr_peers t)(ip := None)\<rparr>)"
proof -
  have "ran ((tr_peers t)(ip := None)) \<subseteq> ran (tr_peers t)"
    by (auto simp: ran_def split: if_splits)
  with assms show ?thesis by (auto simp: tracker_inv_def removeFromIndex_packages)
qed

lemma Ping_inv [inv_intros]:
  assumes "tracker_inv t" "range_order order (pkgs_of t ip)"
  shows "tracker_inv (snd (Tracker_Ping order ip now now' t))"
proof (cases "tr_peers t ip")
  case (Some r)
  have "tracker_inv (t\<lparr>tr_peers := (tr_peers t)(ip \<mapsto> r\<lparr>rec_Deadline := d\<rparr>)\<rparr>)" for d
    using assms(1) Some index_of_same_pkgs [of "tr_peers t" ip r "r\<lparr>rec_Deadline := d\<rparr>"]
    by (auto simp: tracker_inv_def ran_def split: if_splits)
  then show ?thesis using Some remove_inv [OF assms] by (simp add: Tracker_Ping_def Let_def)
qed (use assms in \<open>simp add: Tracker_Ping_def\<close>)

subsection \<open>Sweep\<close>

definition sweep_orders :: "(string \<Rightarrow> string list) \<Rightarrow> Tracker \<Rightarrow> bool" where
  "sweep_orders pord t \<longleftrightarrow> (\<forall>ip. range_order (pord ip) (pkgs_of t ip))"

lemma sweep_one_live: "ip \<notin> expired now (tr_peers s) \<Longrightarrow> sweep_one pord now ip (s, n) = (s, n)"
  by (auto simp: sweep_one_def expired_def split: option.splits)

lemma sweep_one_expired:
  "ip \<in> expired now (tr_peers s) \<Longrightarrow>
   sweep_one pord now ip (s, n) = ((removeFromIndex (pord ip) ip s)\<lparr>tr_peers := (tr_peers s)(ip := None)\<rparr>, Suc n)"
  by (auto simp: sweep_one_def expired_def Let_def)

lemma sweep_fold:
  assumes "tracker_inv s" "distinct order" "\<forall>ip \<in> set order. range_order (pord ip) (pkgs_of s ip)"
    and "fold (sweep_one pord now) order (s, n) = (s', n')"
  shows "tracker_inv s' \<and> tr_timeout s' = tr_timeout s \<and>
    tr_peers s' = (\<lambda>ip. if ip \<in> set order \<inter> expired now (tr_peers s) then None else tr_peers s ip) \<and>
    n' = n + card (set order \<inter> expired now (tr_peers s))"
  using assms
proof (induction order arbitrary: s n)
  case (Cons ip ips)
  show ?case
  proof (cases "ip \<in> expired now (tr_peers s)")
    case False
    with Cons.prems Cons.IH [of s n] show ?thesis by (auto simp: sweep_one_live)
  next
    case True
    let ?s = "(removeFromIndex (pord ip) ip s)\<lparr>tr_peers := (tr_peers s)(ip := None)\<rparr>"
    have inv: "tracker_inv ?s" using Cons.prems by (intro remove_inv) auto
    have ords: "\<forall>i \<in> set ips. range_order (pord i) (pkgs_of ?s i)"
      using Cons.prems by (auto simp: pkgs_of_def)
    have eq: "set ips \<inter> expired now (tr_peers ?s) = set ips \<inter> expired now (tr_peers s)"
      using Cons.prems(2) by (auto simp: expired_def split: if_splits)
    have "set (ip # ips) \<inter> expired now (tr_peers s) = insert ip (set ips \<inter> expired now (tr_peers s))"
      using True by auto
    then have card: "card (set (ip # ips) \<inter> expired now (tr_peers s)) = Suc (card (set ips \<inter> expired now (tr_peers s)))"
      using Cons.prems(2) by simp
    have "fold (sweep_one pord now) ips (?s, Suc n) = (s', n')"
      using Cons.prems(4) sweep_one_expired [OF True] by simp
    then have IH: "tracker_inv s' \<and> tr_timeout s' = tr_timeout ?s \<and>
        tr_peers s' = (\<lambda>i. if i \<in> set ips \<inter> expired now (tr_peers s) then None else tr_peers ?s i) \<and>
        n' = Suc n + card (set ips \<inter> expired now (tr_peers s))"
      using Cons.IH [OF inv _ ords, of "Suc n"] Cons.prems(2) unfolding eq by auto
    then show ?thesis using True card by (auto simp: fun_eq_iff)
  qed
qed auto

lemma Sweep_refines [state_simps]:
  assumes "tracker_inv t" "range_order order (dom (tr_peers t))" "sweep_orders pord t"
    and "Tracker_Sweep order pord now t = (t', n)"
  shows "tracker_inv t'" "tr_timeout t' = tr_timeout t" "tr_peers t' = spec_Sweep now (tr_peers t)"
    "n = card (expired now (tr_peers t))"
proof -
  have "set order \<inter> expired now (tr_peers t) = expired now (tr_peers t)"
    using range_order_set [OF assms(2)] by (auto simp: expired_def)
  with sweep_fold [of t order pord now 0 t' n] assms
  show "tracker_inv t'" "tr_timeout t' = tr_timeout t" "tr_peers t' = spec_Sweep now (tr_peers t)"
    "n = card (expired now (tr_peers t))"
    by (auto simp: Tracker_Sweep_def sweep_orders_def spec_Sweep_def range_order_distinct)
qed

subsection \<open>Peers\<close>

definition peer_live :: "Tracker \<Rightarrow> int \<Rightarrow> string \<Rightarrow> bool" where
  "peer_live t now ip \<longleftrightarrow> (case tr_peers t ip of None \<Rightarrow> False | Some r \<Rightarrow> now \<le> rec_Deadline r)"

definition peer_info :: "Tracker \<Rightarrow> string \<Rightarrow> PeerInfo" where
  "peer_info t ip = \<lparr>IP = ip, Port = rec_ServingPort (the (tr_peers t ip))\<rparr>"

lemma peers_loop_eq:
  "length out \<le> MaxPeers \<Longrightarrow>
   peers_loop t now order out =
     out @ take (MaxPeers - length out) (map (peer_info t) (filter (peer_live t now) order))"
proof (induction order arbitrary: out)
  case (Cons ip ips)
  show ?case
  proof (cases "length out = MaxPeers")
    case False
    with Cons.prems obtain k where k: "MaxPeers - length out = Suc k" "MaxPeers - Suc (length out) = k"
      by (cases "MaxPeers - length out") auto
    have "length (out @ [x]) \<le> MaxPeers" for x using Cons.prems False by simp
    with False k Cons.IH Cons.prems show ?thesis
      by (auto simp: peer_live_def peer_info_def split: option.splits)
  qed simp
qed simp

lemma Peers_eq:
  assumes "tracker_inv t" "range_order order (holders_of t nv)"
  obtains ips where "distinct ips" "set ips = live_holders (tr_peers t) nv now"
    "Tracker_Peers order nv now t = take MaxPeers (map (peer_info t) ips)"
proof
  let ?ips = "filter (peer_live t now) order"
  have pk: "tr_packages t = index_of (tr_peers t)" using assms(1) by (simp add: tracker_inv_def)
  have h: "set order = holders (tr_peers t) nv"
    using range_order_set [OF assms(2)] holders_of_index [OF pk] by simp
  show "distinct ?ips" using range_order_distinct [OF assms(2)] by simp
  show "set ?ips = live_holders (tr_peers t) nv now"
    unfolding set_filter h by (auto simp: holders_def live_holders_def peer_live_def split: option.splits)
  show "Tracker_Peers order nv now t = take MaxPeers (map (peer_info t) ?ips)"
  proof (cases "tr_packages t nv")
    case None
    then have "set order = {}" using h pk by (auto simp: index_of_def split: if_splits)
    with None show ?thesis by (simp add: Tracker_Peers_def)
  next
    case (Some H)
    then show ?thesis by (simp add: Tracker_Peers_def peers_loop_eq)
  qed
qed

subsection \<open>The registry as a transition system\<close>

datatype tracker_event =
    EvAnnounce string AnnounceRequest int
  | EvPing string int int bool
  | EvPeers string int "PeerInfo list"
  | EvSweep int nat

text \<open>
  One step is one call under the lock, with any admissible order for its map loops.  The clock is
  monotonic within a call: the second \<open>time.Now()\<close> of \<open>Ping\<close> is not before the first.
\<close>

inductive tracker_step :: "Tracker \<Rightarrow> tracker_event \<Rightarrow> Tracker \<Rightarrow> bool" where
  step_Announce: "range_order order (pkgs_of t ip) \<Longrightarrow>
    tracker_step t (EvAnnounce ip req now) (Tracker_Announce order ip req now t)"
| step_Ping: "range_order order (pkgs_of t ip) \<Longrightarrow> now \<le> now' \<Longrightarrow>
    Tracker_Ping order ip now now' t = (b, t') \<Longrightarrow> tracker_step t (EvPing ip now now' b) t'"
| step_Peers: "range_order order (holders_of t nv) \<Longrightarrow>
    tracker_step t (EvPeers nv now (Tracker_Peers order nv now t)) t"
| step_Sweep: "range_order order (dom (tr_peers t)) \<Longrightarrow> sweep_orders pord t \<Longrightarrow>
    Tracker_Sweep order pord now t = (t', n) \<Longrightarrow> tracker_step t (EvSweep now n) t'"

inductive_cases tracker_step_AnnounceE: "tracker_step t (EvAnnounce ip req now) t'"
inductive_cases tracker_step_PingE: "tracker_step t (EvPing ip now now' b) t'"
inductive_cases tracker_step_PeersE: "tracker_step t (EvPeers nv now ps) t'"
inductive_cases tracker_step_SweepE: "tracker_step t (EvSweep now n) t'"

lemmas tracker_stepEs = tracker_step_AnnounceE tracker_step_PingE tracker_step_PeersE tracker_step_SweepE

text \<open>The latest announce of every IP in a history.\<close>

definition note_announce :: "tracker_event \<Rightarrow> (string \<rightharpoonup> AnnounceRequest) \<Rightarrow> (string \<rightharpoonup> AnnounceRequest)" where
  "note_announce e A = (case e of EvAnnounce ip req now \<Rightarrow> A(ip \<mapsto> req) | _ \<Rightarrow> A)"

definition last_announce :: "tracker_event list \<Rightarrow> string \<rightharpoonup> AnnounceRequest" where
  "last_announce es = fold note_announce es Map.empty"

text \<open>
  \<open>kept T ip d es\<close>: starting from deadline \<open>d\<close>, every ping of \<open>ip\<close> in \<open>es\<close> comes in time, no
  sweep finds the entry expired, and \<open>ip\<close> does not announce again.  \<open>renewed T ip d es\<close> is the
  deadline after \<open>es\<close>.
\<close>

fun kept :: "int \<Rightarrow> string \<Rightarrow> int \<Rightarrow> tracker_event list \<Rightarrow> bool" where
  "kept T ip d [] = True"
| "kept T ip d (EvAnnounce ip' req now # es) = (ip' \<noteq> ip \<and> kept T ip d es)"
| "kept T ip d (EvPing ip' now now' b # es) =
     (if ip' = ip then now \<le> d \<and> kept T ip (now' + T) es else kept T ip d es)"
| "kept T ip d (EvPeers nv now ps # es) = kept T ip d es"
| "kept T ip d (EvSweep now n # es) = (now \<le> d \<and> kept T ip d es)"

fun renewed :: "int \<Rightarrow> string \<Rightarrow> int \<Rightarrow> tracker_event list \<Rightarrow> int" where
  "renewed T ip d [] = d"
| "renewed T ip d (EvPing ip' now now' b # es) = renewed T ip (if ip' = ip then now' + T else d) es"
| "renewed T ip d (e # es) = renewed T ip d es"

fun silent :: "string \<Rightarrow> tracker_event list \<Rightarrow> bool" where
  "silent ip [] = True"
| "silent ip (EvAnnounce ip' req now # es) = (ip' \<noteq> ip \<and> silent ip es)"
| "silent ip (EvPing ip' now now' b # es) = (ip' \<noteq> ip \<and> silent ip es)"
| "silent ip (e # es) = silent ip es"

lemma Ping_refines:
  "Tracker_Ping order ip now now' t = (b, t') \<Longrightarrow>
   spec_Ping (tr_timeout t) ip now now' (tr_peers t) = (b, tr_peers t')"
  using Ping_peers [of order ip now now' t] by simp

locale registry_contract =
  fixes step :: "'s \<Rightarrow> tracker_event \<Rightarrow> 's \<Rightarrow> bool"
    and view :: "'s \<Rightarrow> registry"
    and ttl :: "'s \<Rightarrow> int"
    and invar :: "'s \<Rightarrow> bool"
  assumes invar_step: "invar s \<Longrightarrow> step s e s' \<Longrightarrow> invar s'"
    and ttl_step: "invar s \<Longrightarrow> step s e s' \<Longrightarrow> ttl s' = ttl s"
    and announce_view: "invar s \<Longrightarrow> step s (EvAnnounce ip req now) s' \<Longrightarrow>
      view s' = spec_Announce (ttl s) ip req now (view s)"
    and ping_view: "invar s \<Longrightarrow> step s (EvPing ip now now' b) s' \<Longrightarrow>
      view s' = snd (spec_Ping (ttl s) ip now now' (view s)) \<and> b = fst (spec_Ping (ttl s) ip now now' (view s))"
    and peers_view: "invar s \<Longrightarrow> step s (EvPeers nv now ps) s' \<Longrightarrow> view s' = view s"
    and peers_card: "invar s \<Longrightarrow> step s (EvPeers nv now ps) s' \<Longrightarrow>
      length ps = min MaxPeers (card (live_holders (view s) nv now))"
    and peers_distinct: "invar s \<Longrightarrow> step s (EvPeers nv now ps) s' \<Longrightarrow> distinct (map IP ps)"
    and peers_sound: "invar s \<Longrightarrow> step s (EvPeers nv now ps) s' \<Longrightarrow> p \<in> set ps \<Longrightarrow>
      IP p \<in> live_holders (view s) nv now \<and> Port p = rec_ServingPort (the (view s (IP p)))"
    and sweep_view: "invar s \<Longrightarrow> step s (EvSweep now n) s' \<Longrightarrow>
      view s' = spec_Sweep now (view s) \<and> n = card (expired now (view s))"
begin

lemma run_invar: "run step s es s' \<Longrightarrow> invar s \<Longrightarrow> invar s' \<and> ttl s' = ttl s"
  by (induction rule: run.induct) (simp, metis invar_step ttl_step)

definition agrees :: "'s \<Rightarrow> (string \<rightharpoonup> AnnounceRequest) \<Rightarrow> bool" where
  "agrees s A \<longleftrightarrow> (\<forall>ip r. view s ip = Some r \<longrightarrow>
     (\<exists>req. A ip = Some req \<and> rec_Packages r = set (Packages req) \<and> rec_ServingPort r = ServingPort req))"

lemma agrees_shrink:
  "agrees s A \<Longrightarrow> (\<And>ip r. view s' ip = Some r \<Longrightarrow>
     \<exists>r0. view s ip = Some r0 \<and> rec_Packages r = rec_Packages r0 \<and> rec_ServingPort r = rec_ServingPort r0)
   \<Longrightarrow> agrees s' A"
  by (fastforce simp: agrees_def)

lemma agrees_step: "invar s \<Longrightarrow> step s e s' \<Longrightarrow> agrees s A \<Longrightarrow> agrees s' (note_announce e A)"
proof (cases e)
  case (EvAnnounce ip req now)
  assume "invar s" "step s e s'" "agrees s A"
  then show ?thesis using EvAnnounce announce_view [of s ip req now s']
    by (auto simp: agrees_def note_announce_def spec_Announce_def split: if_splits)
next
  case (EvPing ip now now' b)
  assume a: "invar s" "step s e s'" "agrees s A"
  have "\<exists>r0. view s i = Some r0 \<and> rec_Packages r = rec_Packages r0 \<and> rec_ServingPort r = rec_ServingPort r0"
    if "view s' i = Some r" for i r
    using that ping_view [of s ip now now' b s'] a EvPing
    by (auto simp: spec_Ping_def split: option.splits if_splits)
  with a EvPing show ?thesis by (auto simp: note_announce_def intro: agrees_shrink)
next
  case (EvPeers nv now ps)
  assume "invar s" "step s e s'" "agrees s A"
  then show ?thesis using EvPeers peers_view by (simp add: agrees_def note_announce_def)
next
  case (EvSweep now n)
  assume a: "invar s" "step s e s'" "agrees s A"
  then have "view s' = spec_Sweep now (view s)" using sweep_view EvSweep by blast
  with a EvSweep show ?thesis
    by (auto simp: note_announce_def spec_Sweep_def split: if_splits intro: agrees_shrink)
qed

lemma agrees_run: "run step s es s' \<Longrightarrow> invar s \<Longrightarrow> agrees s A \<Longrightarrow> agrees s' (fold note_announce es A)"
  by (induction arbitrary: A rule: run.induct) (auto dest: agrees_step invar_step)

lemma lookup_from_last_announce:
  assumes "run step s es s'" "invar s" "view s = Map.empty"
    and "step s' (EvPeers nv now ps) s''" "p \<in> set ps"
  shows "\<exists>req. last_announce es (IP p) = Some req \<and> nv \<in> set (Packages req) \<and> Port p = ServingPort req"
proof -
  have "agrees s' (last_announce es)"
    unfolding last_announce_def using assms(1-3) by (intro agrees_run) (auto simp: agrees_def)
  moreover have "IP p \<in> live_holders (view s') nv now \<and> Port p = rec_ServingPort (the (view s' (IP p)))"
    using assms run_invar peers_sound by blast
  ultimately show ?thesis by (fastforce simp: agrees_def live_holders_def)
qed

lemma heartbeat:
  assumes "run step s es s'" "invar s" "view s ip = Some r" "kept (ttl s) ip (rec_Deadline r) es"
  shows "view s' ip = Some (r\<lparr>rec_Deadline := renewed (ttl s) ip (rec_Deadline r) es\<rparr>)"
  using assms
proof (induction arbitrary: r rule: run.induct)
  case (run_Cons s e s' es s'')
  have next_inv: "invar s'" "ttl s' = ttl s"
    using run_Cons invar_step ttl_step by blast+
  have goal: ?case if "view s' ip = Some r'" "kept (ttl s') ip (rec_Deadline r') es"
    "r'\<lparr>rec_Deadline := x\<rparr> = r\<lparr>rec_Deadline := x\<rparr>"
    "renewed (ttl s') ip (rec_Deadline r') es = renewed (ttl s) ip (rec_Deadline r) (e # es)" 
    "x = renewed (ttl s) ip (rec_Deadline r) (e # es)" for r' x
    using run_Cons.IH [OF next_inv(1) that(1,2)] that(3-5) by simp
  show ?case
  proof (cases e)
    case (EvAnnounce ip' req now)
    then show ?thesis
      using run_Cons.prems run_Cons.hyps next_inv announce_view [of s ip' req now s']
      by (intro goal [of r]) (auto simp: spec_Announce_def)
  next
    case (EvPing ip' now now' b)
    then have "view s' = snd (spec_Ping (ttl s) ip' now now' (view s))"
      using run_Cons.prems run_Cons.hyps ping_view by blast
    then show ?thesis
      using EvPing run_Cons.prems next_inv
      by (intro goal [of "if ip' = ip then r\<lparr>rec_Deadline := now' + ttl s\<rparr> else r"])
        (auto simp: spec_Ping_def split: option.splits if_splits)
  next
    case (EvPeers nv now ps)
    then show ?thesis
      using run_Cons.prems run_Cons.hyps next_inv peers_view [of s nv now ps s']
      by (intro goal [of r]) auto
  next
    case (EvSweep now n)
    then have "view s' = spec_Sweep now (view s)" using run_Cons.prems run_Cons.hyps sweep_view by blast
    then show ?thesis
      using EvSweep run_Cons.prems next_inv
      by (intro goal [of r]) (auto simp: spec_Sweep_def expired_def)
  qed
qed simp

lemma silence_expires:
  assumes "run step s es s'" "invar s" "silent ip es" "\<forall>r. view s ip = Some r \<longrightarrow> rec_Deadline r \<le> d"
  shows "\<forall>r. view s' ip = Some r \<longrightarrow> rec_Deadline r \<le> d"
  using assms
proof (induction rule: run.induct)
  case (run_Cons s e s' es s'')
  have "view s' ip = view s ip \<or> view s' ip = None" "silent ip es"
  proof -
    show "silent ip es" using run_Cons.prems by (cases e) auto
    show "view s' ip = view s ip \<or> view s' ip = None"
    proof (cases e)
      case (EvAnnounce ip' req now)
      then show ?thesis using run_Cons announce_view [of s ip' req now s'] by (auto simp: spec_Announce_def)
    next
      case (EvPing ip' now now' b)
      then show ?thesis using run_Cons ping_view [of s ip' now now' b s']
        by (auto simp: spec_Ping_def split: option.splits if_splits)
    next
      case (EvPeers nv now ps)
      then show ?thesis using run_Cons peers_view [of s nv now ps s'] by auto
    next
      case (EvSweep now n)
      then show ?thesis using run_Cons sweep_view [of s now n s'] by (auto simp: spec_Sweep_def)
    qed
  qed
  then have "\<forall>r. view s' ip = Some r \<longrightarrow> rec_Deadline r \<le> d" using run_Cons.prems(3) by auto
  moreover have "invar s'" using run_Cons.hyps run_Cons.prems invar_step by blast
  ultimately show ?case using run_Cons.IH \<open>silent ip es\<close> by blast
qed

lemma lookup_lists_holder:
  assumes "invar s" "step s (EvPeers nv now ps) s'" "ip \<in> live_holders (view s) nv now"
    and "card (live_holders (view s) nv now) \<le> MaxPeers" "finite (live_holders (view s) nv now)"
  shows "\<exists>p \<in> set ps. IP p = ip \<and> Port p = rec_ServingPort (the (view s ip))"
proof -
  let ?L = "live_holders (view s) nv now"
  have "IP ` set ps \<subseteq> ?L" using peers_sound [OF assms(1,2)] by auto
  moreover have "card (IP ` set ps) = card ?L"
    using peers_card [OF assms(1,2)] peers_distinct [OF assms(1,2)] assms(4)
    by (metis distinct_card length_map list.set_map min.absorb2)
  ultimately have "IP ` set ps = ?L" using assms(5) by (metis card_subset_eq)
  then show ?thesis using assms(3) peers_sound [OF assms(1,2)] by force
qed

end

interpretation trk: registry_contract tracker_step tr_peers tr_timeout tracker_inv
proof
  fix t t' :: Tracker and e ip req nv and now now' :: int and b ps n p
  assume inv: "tracker_inv t"
  show "tracker_inv t'" if "tracker_step t e t'"
    using that inv Ping_inv [OF inv] Sweep_refines(1) [OF inv]
    by (cases rule: tracker_step.cases) (auto intro: inv_intros, metis snd_conv)
  show "tr_timeout t' = tr_timeout t" if "tracker_step t e t'"
    using that Sweep_refines(2) [OF inv]
    by (cases rule: tracker_step.cases)
      (auto simp: Tracker_Announce_def Tracker_Ping_def Let_def split: option.splits if_splits)
  show "tr_peers t' = spec_Announce (tr_timeout t) ip req now (tr_peers t)"
    if "tracker_step t (EvAnnounce ip req now) t'"
    using that by (auto elim: tracker_stepEs simp: Announce_peers)
  show "tr_peers t' = snd (spec_Ping (tr_timeout t) ip now now' (tr_peers t)) \<and>
      b = fst (spec_Ping (tr_timeout t) ip now now' (tr_peers t))"
    if "tracker_step t (EvPing ip now now' b) t'"
    using that by (auto elim!: tracker_stepEs dest!: Ping_refines)
  show "tr_peers t' = spec_Sweep now (tr_peers t) \<and> n = card (expired now (tr_peers t))"
    if "tracker_step t (EvSweep now n) t'"
    using that Sweep_refines [OF inv] by (auto elim!: tracker_stepEs)
  assume s: "tracker_step t (EvPeers nv now ps) t'"
  show "tr_peers t' = tr_peers t" using s by (auto elim: tracker_stepEs)
  from s obtain order where o: "range_order order (holders_of t nv)" and ps: "ps = Tracker_Peers order nv now t"
    by (auto elim: tracker_stepEs)
  obtain ips where ips: "distinct ips" "set ips = live_holders (tr_peers t) nv now"
    "ps = take MaxPeers (map (peer_info t) ips)"
    unfolding ps by (rule Peers_eq [OF inv o])
  have m: "map IP (map (peer_info t) ips) = ips" by (simp add: peer_info_def comp_def)
  show "length ps = min MaxPeers (card (live_holders (tr_peers t) nv now))"
    using ips distinct_card [OF ips(1)] by (simp add: min.commute)
  show "distinct (map IP ps)" using ips m by (metis distinct_take take_map)
  show "IP p \<in> live_holders (tr_peers t) nv now \<and> Port p = rec_ServingPort (the (tr_peers t (IP p)))"
    if "p \<in> set ps"
  proof -
    from that ips(3) have "p \<in> set (map (peer_info t) ips)" by (metis in_set_takeD)
    then obtain i where "i \<in> set ips" "p = peer_info t i" by auto
    then show ?thesis by (simp add: peer_info_def flip: ips(2))
  qed
qed

subsection \<open>Properties\<close>

definition reachable_tracker :: "int \<Rightarrow> tracker_event list \<Rightarrow> Tracker \<Rightarrow> bool" where
  "reachable_tracker T es t \<longleftrightarrow> run tracker_step (NewWithTimeout T) es t"

lemma NewWithTimeout_inv: "tracker_inv (NewWithTimeout T)"
  by (simp add: tracker_inv_def NewWithTimeout_def index_of_def holders_def fun_eq_iff)

lemma reachable_inv: "reachable_tracker T es t \<Longrightarrow> tracker_inv t \<and> tr_timeout t = T"
  unfolding reachable_tracker_def using trk.run_invar [of "NewWithTimeout T"] NewWithTimeout_inv
  by (auto simp: NewWithTimeout_def)

lemma live_holders_finite: "tracker_inv t \<Longrightarrow> finite (live_holders (tr_peers t) nv now)"
  unfolding tracker_inv_def by (elim conjE, rule finite_subset) (auto simp: live_holders_def)

lemma live_holders_sweep:
  "now \<le> now' \<Longrightarrow> live_holders (spec_Sweep now R) nv now' = live_holders R nv now'"
  by (auto simp: live_holders_def spec_Sweep_def expired_def)

text \<open>A small registry for the witnesses: one daemon, one package, a timeout of 60.\<close>

definition demo_req :: AnnounceRequest where
  "demo_req = \<lparr>ServingPort = 9002, Packages = [''nginx-1.24.0'']\<rparr>"

definition demo_rec :: "int \<Rightarrow> peerRecord" where
  "demo_rec d = \<lparr>rec_ServingPort = 9002, rec_Deadline = d, rec_Packages = {''nginx-1.24.0''}\<rparr>"

definition demo_tracker :: "int \<Rightarrow> Tracker" where
  "demo_tracker d = \<lparr>tr_peers = [''10.0.0.1'' \<mapsto> demo_rec d],
     tr_packages = [''nginx-1.24.0'' \<mapsto> {''10.0.0.1''}], tr_timeout = 60\<rparr>"

lemmas demo_defs = demo_req_def demo_rec_def demo_tracker_def NewWithTimeout_def

lemma demo_announce: "tracker_step (NewWithTimeout 60) (EvAnnounce ''10.0.0.1'' demo_req 0) (demo_tracker 60)"
proof -
  have "Tracker_Announce [] ''10.0.0.1'' demo_req 0 (NewWithTimeout 60) = demo_tracker 60"
    by (simp add: Tracker_Announce_def removeFromIndex_def add_holder_def demo_defs)
  moreover have "range_order [] (pkgs_of (NewWithTimeout 60) ''10.0.0.1'')"
    by (simp add: pkgs_of_def demo_defs)
  ultimately show ?thesis using step_Announce by metis
qed

lemma demo_reachable: "reachable_tracker 60 [EvAnnounce ''10.0.0.1'' demo_req 0] (demo_tracker 60)"
  unfolding reachable_tracker_def using demo_announce by (auto simp: run_Cons_iff)

lemma demo_ping:
  "tracker_step (demo_tracker 60) (EvPing ''10.0.0.1'' 50 50 True) (demo_tracker 110)"
  by (rule step_Ping [where order = "[''nginx-1.24.0'']"])
    (simp_all add: Tracker_Ping_def pkgs_of_def demo_defs range_order_def)

lemma demo_peers:
  "tracker_step (demo_tracker d) (EvPeers ''nginx-1.24.0'' 40 (Tracker_Peers [''10.0.0.1''] ''nginx-1.24.0'' 40 (demo_tracker d)))
     (demo_tracker d)"
  by (rule step_Peers) (simp add: holders_of_def demo_defs range_order_def)

lemma demo_sweep:
  "Tracker_Sweep [''10.0.0.1''] (\<lambda>ip. if ip = ''10.0.0.1'' then [''nginx-1.24.0''] else []) 100 (demo_tracker 60) = (NewWithTimeout 60, 1)"
  by (simp add: Tracker_Sweep_def sweep_one_def removeFromIndex_def drop_holder_def demo_defs fun_eq_iff)

text \<open>
  C2: in every state the tracker can reach from an empty registry, by any sequence of announces,
  pings, lookups and sweeps and whatever order its map loops run in, the reverse index lists for
  a package exactly the IPs whose current registration contains it, and holds no empty set.
\<close>

theorem tracker_index_exact:
  assumes "reachable_tracker T es t"
  shows "tr_packages t nv =
    (let H = {ip. \<exists>r. tr_peers t ip = Some r \<and> nv \<in> rec_Packages r} in if H = {} then None else Some H)"
  using reachable_inv [OF assms] by (simp add: tracker_inv_def index_of_def holders_def)

theorem tracker_index_exact_witness:
  "tr_packages (demo_tracker 60) ''nginx-1.24.0'' =
    (let H = {ip. \<exists>r. tr_peers (demo_tracker 60) ip = Some r \<and> ''nginx-1.24.0'' \<in> rec_Packages r}
     in if H = {} then None else Some H)"
  by (rule tracker_index_exact [OF demo_reachable])

text \<open>
  A peer the tracker names for a package is one whose latest announce contained the package;
  the port is the one of that announce.  No earlier announce can resurface, because an announce
  replaces the whole list.
\<close>

theorem tracker_peers_from_latest_announce:
  assumes "reachable_tracker T es t" "tracker_step t (EvPeers nv now ps) t'" "p \<in> set ps"
  shows "\<exists>req. last_announce es (IP p) = Some req \<and> nv \<in> set (Packages req) \<and> Port p = ServingPort req"
  using trk.lookup_from_last_announce [of "NewWithTimeout T" es t nv now ps t' p] assms NewWithTimeout_inv
  by (simp add: reachable_tracker_def NewWithTimeout_def)

theorem tracker_peers_from_latest_announce_witness:
  "\<exists>req. last_announce [EvAnnounce ''10.0.0.1'' demo_req 0] ''10.0.0.1'' = Some req
     \<and> ''nginx-1.24.0'' \<in> set (Packages req) \<and> 9002 = ServingPort req"
proof -
  have "\<lparr>IP = ''10.0.0.1'', Port = 9002\<rparr> \<in> set (Tracker_Peers [''10.0.0.1''] ''nginx-1.24.0'' 40 (demo_tracker 60))"
    by (simp add: Tracker_Peers_def MaxPeers_def demo_defs)
  from tracker_peers_from_latest_announce [OF demo_reachable demo_peers this] show ?thesis by simp
qed

text \<open>
  C20: a lookup answers with distinct live holders, at most three, and with every live holder
  when there are at most three; it leaves the registry unchanged.
\<close>

theorem tracker_peers_exact:
  assumes "reachable_tracker T es t" "tracker_step t (EvPeers nv now ps) t'"
  shows "t' = t \<and> distinct (map IP ps) \<and> length ps = min 3 (card (live_holders (tr_peers t) nv now)) \<and>
    IP ` set ps \<subseteq> live_holders (tr_peers t) nv now \<and>
    (card (live_holders (tr_peers t) nv now) \<le> 3 \<longrightarrow> IP ` set ps = live_holders (tr_peers t) nv now)"
proof -
  let ?L = "live_holders (tr_peers t) nv now"
  have inv: "tracker_inv t" using reachable_inv [OF assms(1)] by simp
  note peers = trk.peers_card [OF inv assms(2)] trk.peers_distinct [OF inv assms(2)]
    trk.peers_sound [OF inv assms(2)]
  have "?L \<subseteq> IP ` set ps" if "card ?L \<le> 3"
    using trk.lookup_lists_holder [OF inv assms(2) _ _ live_holders_finite [OF inv]] that
    by (fastforce simp: MaxPeers_def)
  moreover have "t' = t" using assms(2) by (auto elim: tracker_stepEs)
  ultimately show ?thesis using peers by (auto simp: MaxPeers_def)
qed

theorem tracker_peers_exact_witness:
  "IP ` set (Tracker_Peers [''10.0.0.1''] ''nginx-1.24.0'' 40 (demo_tracker 60)) = {''10.0.0.1''}"
proof -
  have L: "live_holders (tr_peers (demo_tracker 60)) ''nginx-1.24.0'' 40 = {''10.0.0.1''}"
    by (auto simp: live_holders_def demo_defs split: if_splits)
  show ?thesis using tracker_peers_exact [OF demo_reachable demo_peers] unfolding L by simp
qed

text \<open>
  C26: a daemon that announced and whose pings keep arriving before the current deadline stays
  registered with its port and package list, through any interleaving of other daemons' requests,
  lookups and sweeps; its deadline is one timeout after its last ping.
\<close>

theorem tracker_heartbeat_keeps_registration:
  assumes "reachable_tracker T es t" "tr_peers t ip = Some r"
    and "run tracker_step t es' t'" "kept T ip (rec_Deadline r) es'"
  shows "tr_peers t' ip = Some (r\<lparr>rec_Deadline := renewed T ip (rec_Deadline r) es'\<rparr>)"
  using trk.heartbeat [OF assms(3) _ assms(2)] reachable_inv [OF assms(1)] assms(4) by simp

theorem tracker_heartbeat_keeps_registration_witness:
  "tr_peers (demo_tracker 110) ''10.0.0.1'' =
     Some (demo_rec 60\<lparr>rec_Deadline := renewed 60 ''10.0.0.1'' 60 [EvPing ''10.0.0.1'' 50 50 True]\<rparr>)"
  using tracker_heartbeat_keeps_registration
    [OF demo_reachable, of "''10.0.0.1''" "demo_rec 60" "[EvPing ''10.0.0.1'' 50 50 True]" "demo_tracker 110"]
  by (simp add: run_Cons_iff demo_ping) (simp add: demo_defs)

text \<open>
  A daemon that neither announces nor pings is not named by any lookup made after its
  deadline, whether or not a sweep has run.
\<close>

theorem tracker_silent_daemon_expires:
  assumes "reachable_tracker T es t" "tr_peers t ip = Some r"
    and "run tracker_step t es' t'" "silent ip es'"
    and "tracker_step t' (EvPeers nv now ps) t''" "rec_Deadline r < now"
  shows "ip \<notin> IP ` set ps"
proof -
  have inv: "tracker_inv t" using reachable_inv [OF assms(1)] by simp
  then have "tracker_inv t'" using trk.run_invar [OF assms(3)] by simp
  then have "IP p \<in> live_holders (tr_peers t') nv now" if "p \<in> set ps" for p
    using trk.peers_sound [OF _ assms(5) that] by simp
  moreover have "ip \<notin> live_holders (tr_peers t') nv now"
    using trk.silence_expires [OF assms(3) inv assms(4), of "rec_Deadline r"] assms(2,6)
    by (auto simp: live_holders_def)
  ultimately show ?thesis by blast
qed

theorem tracker_silent_daemon_expires_witness:
  "''10.0.0.1'' \<notin> IP ` set (Tracker_Peers [''10.0.0.1''] ''nginx-1.24.0'' 100 (demo_tracker 60))"
proof -
  have "tracker_step (demo_tracker 60) (EvPeers ''nginx-1.24.0'' 100
      (Tracker_Peers [''10.0.0.1''] ''nginx-1.24.0'' 100 (demo_tracker 60))) (demo_tracker 60)"
    by (rule step_Peers) (simp add: holders_of_def demo_defs range_order_def)
  from tracker_silent_daemon_expires [OF demo_reachable _ run_Nil _ this, of "''10.0.0.1''" "demo_rec 60"]
  show ?thesis by (simp add: demo_defs)
qed

text \<open>
  C37: a sweep removes exactly the expired registrations, reports their number, keeps the index
  exact, and no lookup made at or after the time of the sweep can tell that it ran.
\<close>

theorem tracker_sweep_is_transparent:
  assumes "tracker_inv t" "range_order order (dom (tr_peers t))" "sweep_orders pord t"
    and "Tracker_Sweep order pord now t = (t', n)"
  shows "tracker_inv t' \<and> n = card {ip. \<exists>r. tr_peers t ip = Some r \<and> rec_Deadline r < now} \<and>
    (\<forall>ip r. tr_peers t' ip = Some r \<longleftrightarrow> tr_peers t ip = Some r \<and> now \<le> rec_Deadline r) \<and>
    (\<forall>nv now'. now \<le> now' \<longrightarrow> live_holders (tr_peers t') nv now' = live_holders (tr_peers t) nv now')"
  using Sweep_refines [OF assms] live_holders_sweep
  by (auto simp: spec_Sweep_def expired_def split: if_splits)

theorem tracker_sweep_is_transparent_witness:
  "tracker_inv (NewWithTimeout 60) \<and> 1 = card {ip. \<exists>r. tr_peers (demo_tracker 60) ip = Some r \<and> rec_Deadline r < 100}"
proof -
  have "sweep_orders (\<lambda>ip. if ip = ''10.0.0.1'' then [''nginx-1.24.0''] else []) (demo_tracker 60)"
    by (auto simp: sweep_orders_def pkgs_of_def range_order_def demo_defs)
  from tracker_sweep_is_transparent [OF _ _ this demo_sweep] reachable_inv [OF demo_reachable]
  show ?thesis by (simp add: range_order_def demo_defs)
qed

end
