(* ===== verification/Go_Query.thy ===== *)
theory Go_Query
  imports Go_URL
begin

text \<open>
  Query strings: \<open>url.QueryEscape\<close>, \<open>url.Values.Encode\<close> for one parameter, and
  \<open>URL.Query().Get\<close>.  A pair with a semicolon or a malformed escape is dropped, and a query with
  more than 10000 pairs is dropped as a whole.
\<close>

definition query_plain :: "char \<Rightarrow> bool" where
  "query_plain c \<longleftrightarrow> alnum c \<or> c \<in> set ''-_.~''"

definition QueryEscape1 :: "char \<Rightarrow> string" where
  "QueryEscape1 c =
     (if query_plain c then [c]
      else if c = CHR '' '' then ''+''
      else [CHR ''%'', upper_hex (of_char c div 16), upper_hex (of_char c mod 16)])"

definition QueryEscape :: "string \<Rightarrow> string" where
  "QueryEscape s = concat (map QueryEscape1 s)"

fun QueryUnescape :: "string \<Rightarrow> string option" where
  "QueryUnescape [] = Some []"
| "QueryUnescape (c # s) =
     (if c = CHR ''%'' then
        (case s of
           a # b # s' \<Rightarrow>
             (case (hex_digit a, hex_digit b) of
                (Some x, Some y) \<Rightarrow> map_option ((#) (char_of (16 * x + y))) (QueryUnescape s')
              | _ \<Rightarrow> None)
         | _ \<Rightarrow> None)
      else map_option ((#) (if c = CHR ''+'' then CHR '' '' else c)) (QueryUnescape s))"

definition parse_pair :: "string \<Rightarrow> (string \<times> string) option" where
  "parse_pair p =
     (if CHR '';'' \<in> set p \<or> p = [] then None
      else case (QueryUnescape (fst (cut (CHR ''='') p)), QueryUnescape (snd (cut (CHR ''='') p))) of
        (Some k, Some v) \<Rightarrow> Some (k, v)
      | _ \<Rightarrow> None)"

definition ParseQuery :: "string \<Rightarrow> (string \<times> string) list" where
  "ParseQuery q =
     (let ps = Split q (CHR ''&'') in if 10000 < length ps then [] else List.map_filter parse_pair ps)"

definition query_get :: "string \<Rightarrow> string \<Rightarrow> string" where
  "query_get q k = (case map_of (ParseQuery q) k of None \<Rightarrow> [] | Some v \<Rightarrow> v)"

definition encode_param :: "string \<Rightarrow> string \<Rightarrow> string" where
  "encode_param k v = QueryEscape k @ ''='' @ QueryEscape v"

lemma nibbles: "(of_char c :: nat) div 16 < 16" "(of_char c :: nat) mod 16 < 16"
proof -
  have "(of_char c :: nat) < 16 * 16" by simp
  then show "(of_char c :: nat) div 16 < 16" by (rule less_mult_imp_div_less)
qed simp

lemma cut_append: "c \<notin> set a \<Longrightarrow> cut c (a @ c # b) = (a, b)"
  by (induction a) (auto simp: cut_def)

lemma upper_hex_plain: "d < 16 \<Longrightarrow> query_plain (upper_hex d)"
  by (auto simp: query_plain_def alnum_def upper_hex_def)

lemma QueryEscape_chars: "c \<in> set (QueryEscape s) \<Longrightarrow> query_plain c \<or> c = CHR ''%'' \<or> c = CHR ''+''"
proof -
  assume "c \<in> set (QueryEscape s)"
  then obtain x where x: "x \<in> set s" "c \<in> set (QueryEscape1 x)" by (auto simp: QueryEscape_def)
  have "(of_char x :: nat) div 16 < 16" "(of_char x :: nat) mod 16 < 16" by (simp_all add: nibbles)
  then show ?thesis using x(2) upper_hex_plain by (auto simp: QueryEscape1_def split: if_splits)
qed

lemma QueryUnescape_plain: "query_plain c \<Longrightarrow> QueryUnescape (c # s) = map_option ((#) c) (QueryUnescape s)"
  by (auto simp: query_plain_def alnum_def)

lemma QueryUnescape_QueryEscape [simp]: "QueryUnescape (QueryEscape s) = Some s"
proof (induction s)
  case (Cons c s)
  note d = nibbles [of c]
  have "QueryUnescape (QueryEscape1 c @ QueryEscape s) = Some (c # s)"
    using Cons d by (auto simp: QueryEscape1_def QueryUnescape_plain hex_digit_upper simp del: QueryUnescape.simps)
      (simp_all add: hex_digit_upper)
  then show ?case by (simp add: QueryEscape_def)
qed (simp add: QueryEscape_def)

lemma QueryEscape_separators:
  "CHR ''&'' \<notin> set (QueryEscape s)" "CHR '';'' \<notin> set (QueryEscape s)" "CHR ''='' \<notin> set (QueryEscape s)"
  by (auto dest!: QueryEscape_chars simp: query_plain_def alnum_def)

lemma query_get_encode: "query_get (encode_param k v) k = v"
proof -
  have "Split (encode_param k v) (CHR ''&'') = [encode_param k v]"
    by (rule Split_single) (auto simp: encode_param_def QueryEscape_separators)
  moreover have "parse_pair (encode_param k v) = Some (k, v)"
  proof -
    have "cut (CHR ''='') (encode_param k v) = (QueryEscape k, QueryEscape v)"
      using cut_append [OF QueryEscape_separators(3)] by (simp add: encode_param_def)
    moreover have "encode_param k v \<noteq> []" "CHR '';'' \<notin> set (encode_param k v)"
      by (auto simp: encode_param_def QueryEscape_separators)
    ultimately show ?thesis by (simp add: parse_pair_def)
  qed
  ultimately show ?thesis by (simp add: query_get_def ParseQuery_def List.map_filter_def)
qed

end
