(* ===== verification/Trac_Server.thy ===== *)
theory Trac_Server
  imports Tracker Proto_Codec Go_Query Go_Http
begin

text \<open>
  The tracker's HTTP surface (\<open>src/cmd/trac/main.go\<close>): routing, the three handlers and their
  helpers, over the registry of \<open>Tracker\<close> and the codec of \<open>Proto_Codec\<close>.

  One request is a function of the registry, the request and what the handler meets while it runs
  (\<open>trac_env\<close>: the clock and the orders of the registry's map loops).  The lemmas show that a
  request is one step of the registry's transition system or none, so that the theorems about runs
  of the registry are theorems about the server, and give the status table.
\<close>

record trac_request =
  tq_Method :: string
  tq_Path :: string            \<comment> \<open>the escaped path of the request line\<close>
  tq_RawQuery :: string
  tq_RemoteAddr :: string
  tq_Body :: reader

record trac_env =
  te_now :: int
  te_now' :: int               \<comment> \<open>the second clock reading of \<open>Ping\<close>\<close>
  te_pkgs :: "string list"     \<comment> \<open>order of the caller's old package set\<close>
  te_holders :: "string list"  \<comment> \<open>order of the holders of the queried package\<close>
  te_redirect :: nat           \<comment> \<open>the status \<open>net/http\<close> gives the redirect to a clean path\<close>

definition clientIP :: "trac_request \<Rightarrow> string option" where
  "clientIP r = (case SplitHostPort (tq_RemoteAddr r) of Inl _ \<Rightarrow> None | Inr (ip, _) \<Rightarrow> Some ip)"

definition http_Error :: "string \<Rightarrow> nat \<Rightarrow> http_resp" where
  "http_Error msg code =
     (let body = bytes_of (msg @ [CHR 10])
      in \<lparr>StatusCode = code, ContentLength = int (length body),
          Header = [(''Content-Type'', [''text/plain; charset=utf-8'']), (''X-Content-Type-Options'', [''nosniff''])],
          Body = Finite body False\<rparr>)"

definition writeJSON :: "nat \<Rightarrow> json \<Rightarrow> http_resp" where
  "writeJSON status v =
     (let body = bytes_of (print_json v @ [CHR 10])
      in \<lparr>StatusCode = status, ContentLength = int (length body),
          Header = [(''Content-Type'', [''application/json''])], Body = Finite body False\<rparr>)"

text \<open>\<open>io.ReadAll\<close> over \<open>http.MaxBytesReader\<close>: \<open>Inl True\<close> is the oversized body, \<open>Inl False\<close> any
  other read error.\<close>

definition readBody :: "trac_request \<Rightarrow> bool + string" where
  "readBody r =
     (case tq_Body r of
        Endless f \<Rightarrow> Inl True
      | Finite bs failed \<Rightarrow>
          if length bs > MaxBodyBytes then Inl True
          else if failed then Inl False
          else Inr (string_of bs))"

definition handleAnnounce :: "trac_env \<Rightarrow> trac_request \<Rightarrow> Tracker \<Rightarrow> http_resp \<times> Tracker" where
  "handleAnnounce e r t =
     (case clientIP r of
        None \<Rightarrow> (http_Error ''cannot determine source address'' 400, t)
      | Some ip \<Rightarrow>
          (case readBody r of
             Inl oversized \<Rightarrow>
               if oversized then (http_Error ''body too large'' 413, t)
               else (http_Error ''cannot read body'' 400, t)
           | Inr body \<Rightarrow>
               (case Decode_AnnounceRequest body of
                  Inl _ \<Rightarrow> (http_Error ''malformed request'' 400, t)
                | Inr req \<Rightarrow>
                    (case AnnounceRequest_Validate req of
                       Some (ErrTooManyPackages n m) \<Rightarrow> (http_Error ''too many packages'' 413, t)
                     | Some _ \<Rightarrow> (http_Error ''invalid request'' 400, t)
                     | None \<Rightarrow>
                         (writeJSON 200 (status_json \<lparr>resp_Status = StatusAck\<rparr>),
                          Tracker_Announce (te_pkgs e) ip req (te_now e) t)))))"

definition handlePing :: "trac_env \<Rightarrow> trac_request \<Rightarrow> Tracker \<Rightarrow> http_resp \<times> Tracker" where
  "handlePing e r t =
     (case clientIP r of
        None \<Rightarrow> (http_Error ''cannot determine source address'' 400, t)
      | Some ip \<Rightarrow>
          (let (known, t') = Tracker_Ping (te_pkgs e) ip (te_now e) (te_now' e) t
           in if \<not> known then (writeJSON 404 (status_json \<lparr>resp_Status = StatusUnknown\<rparr>), t')
              else (writeJSON 200 (status_json \<lparr>resp_Status = StatusAck\<rparr>), t')))"

definition handlePeers :: "trac_env \<Rightarrow> trac_request \<Rightarrow> Tracker \<Rightarrow> http_resp \<times> Tracker" where
  "handlePeers e r t =
     (let nameVersion = query_get (tq_RawQuery r) ''pkg''
      in if nameVersion = [] then (http_Error ''missing pkg parameter'' 400, t)
         else if ValidateNameVersion nameVersion \<noteq> None then (http_Error ''malformed pkg parameter'' 400, t)
         else
           (writeJSON 200
              (peer_list_json False \<lparr>resp_Peers = Tracker_Peers (te_holders e) nameVersion (te_now e) t\<rparr>), t))"

subsection \<open>Routing\<close>

text \<open>\<open>http.ServeMux\<close>: a path that is not clean is redirected before any handler sees it, a segment is
  compared after unescaping, a GET pattern serves HEAD too, and a known path with another method
  is 405.\<close>

datatype route = RouteAnnounce | RoutePing | RoutePeers | RouteRedirect | RouteNotAllowed | RouteNotFound

definition cleanPath :: "string \<Rightarrow> string" where
  "cleanPath p0 =
     (if p0 = [] then ''/''
      else let p = (if hd p0 = CHR ''/'' then p0 else CHR ''/'' # p0); np = Clean p
        in if last p = CHR ''/'' \<and> np \<noteq> ''/'' then np @ ''/'' else np)"

definition path_segment :: "string \<Rightarrow> string option" where
  "path_segment p =
     (if p \<noteq> [] \<and> hd p = CHR ''/'' \<and> CHR ''/'' \<notin> set (tl p)
      then Some (case unescape encodePath (tl p) of None \<Rightarrow> tl p | Some s \<Rightarrow> s) else None)"

definition route_of :: "string \<Rightarrow> string \<Rightarrow> route" where
  "route_of meth p =
     (if meth \<noteq> ''CONNECT'' \<and> cleanPath p \<noteq> p then RouteRedirect
      else if path_segment p = Some ''announce''
        then (if meth = ''POST'' then RouteAnnounce else RouteNotAllowed)
      else if path_segment p = Some ''ping''
        then (if meth = ''POST'' then RoutePing else RouteNotAllowed)
      else if path_segment p = Some ''peers''
        then (if meth = ''GET'' \<or> meth = ''HEAD'' then RoutePeers else RouteNotAllowed)
      else RouteNotFound)"

definition mux_serve :: "trac_env \<Rightarrow> trac_request \<Rightarrow> Tracker \<Rightarrow> http_resp \<times> Tracker" where
  "mux_serve e r t =
     (case route_of (tq_Method r) (tq_Path r) of
        RouteAnnounce \<Rightarrow> handleAnnounce e r t
      | RoutePing \<Rightarrow> handlePing e r t
      | RoutePeers \<Rightarrow> handlePeers e r t
      | RouteRedirect \<Rightarrow> (http_Error [] (te_redirect e), t)
      | RouteNotAllowed \<Rightarrow> (http_Error ''Method Not Allowed'' 405, t)
      | RouteNotFound \<Rightarrow> (http_Error ''404 page not found'' 404, t))"

text \<open>A handler that panics (\<open>Inl\<close>, with the registry as it left it) is answered with 500.\<close>

definition recoverPanics ::
  "(trac_request \<Rightarrow> Tracker \<Rightarrow> Tracker + http_resp \<times> Tracker) \<Rightarrow> trac_request \<Rightarrow> Tracker \<Rightarrow> http_resp \<times> Tracker" where
  "recoverPanics nxt r t =
     (case nxt r t of Inl t' \<Rightarrow> (http_Error ''internal error'' 500, t') | Inr x \<Rightarrow> x)"

definition newMux :: "trac_env \<Rightarrow> trac_request \<Rightarrow> Tracker \<Rightarrow> http_resp \<times> Tracker" where
  "newMux e = recoverPanics (\<lambda>r t. Inr (mux_serve e r t))"

lemma newMux_eq: "newMux e r t = mux_serve e r t"
  by (simp add: newMux_def recoverPanics_def)

subsection \<open>A request is a step of the registry\<close>

text \<open>The orders of the environment are orders of the sets the registry ranges over, and the clock
  does not run backwards.\<close>

definition env_ok :: "trac_env \<Rightarrow> trac_request \<Rightarrow> Tracker \<Rightarrow> bool" where
  "env_ok e r t \<longleftrightarrow>
     (\<forall>ip. clientIP r = Some ip \<longrightarrow> range_order (te_pkgs e) (pkgs_of t ip)) \<and>
     range_order (te_holders e) (holders_of t (query_get (tq_RawQuery r) ''pkg'')) \<and>
     te_now e \<le> te_now' e"

text \<open>The registry event a request amounts to, if any.\<close>

definition announce_event :: "trac_env \<Rightarrow> trac_request \<Rightarrow> tracker_event option" where
  "announce_event e r =
     (case (clientIP r, readBody r) of
        (Some ip, Inr body) \<Rightarrow>
          (case Decode_AnnounceRequest body of
             Inl _ \<Rightarrow> None
           | Inr req \<Rightarrow> if AnnounceRequest_Validate req = None then Some (EvAnnounce ip req (te_now e)) else None)
      | _ \<Rightarrow> None)"

definition request_event :: "trac_env \<Rightarrow> trac_request \<Rightarrow> Tracker \<Rightarrow> tracker_event option" where
  "request_event e r t =
     (case route_of (tq_Method r) (tq_Path r) of
        RouteAnnounce \<Rightarrow> announce_event e r
      | RoutePing \<Rightarrow>
          map_option (\<lambda>ip. EvPing ip (te_now e) (te_now' e)
            (fst (Tracker_Ping (te_pkgs e) ip (te_now e) (te_now' e) t))) (clientIP r)
      | RoutePeers \<Rightarrow>
          (let nv = query_get (tq_RawQuery r) ''pkg'' in
           if valid_name_version nv
           then Some (EvPeers nv (te_now e) (Tracker_Peers (te_holders e) nv (te_now e) t)) else None)
      | _ \<Rightarrow> None)"

lemma newMux_step:
  assumes "env_ok e r t"
  shows "case request_event e r t of
    None \<Rightarrow> snd (newMux e r t) = t | Some ev \<Rightarrow> tracker_step t ev (snd (newMux e r t))"
proof (cases "route_of (tq_Method r) (tq_Path r)")
  case RouteAnnounce
  then show ?thesis using assms
    by (auto simp: request_event_def newMux_eq mux_serve_def announce_event_def handleAnnounce_def env_ok_def
        intro: step_Announce split: option.splits sum.splits proto_error.splits)
next
  case RoutePing
  then show ?thesis using assms
    by (auto simp: request_event_def newMux_eq mux_serve_def handlePing_def env_ok_def intro: step_Ping
        split: option.splits prod.splits)
next
  case RoutePeers
  then show ?thesis using assms
    by (auto simp: request_event_def newMux_eq mux_serve_def handlePeers_def env_ok_def Let_def
        valid_name_version_def intro: step_Peers split: option.splits simp flip: ValidateNameVersion_None)
qed (simp_all add: request_event_def newMux_eq mux_serve_def)


subsection \<open>Runs of the server\<close>

datatype server_event = SvRequest trac_request http_resp | SvSweep int nat

inductive server_step :: "Tracker \<Rightarrow> server_event \<Rightarrow> Tracker \<Rightarrow> bool" where
  sv_request: "env_ok e r t \<Longrightarrow> newMux e r t = (resp, t') \<Longrightarrow> server_step t (SvRequest r resp) t'"
| sv_sweep: "tracker_step t (EvSweep now n) t' \<Longrightarrow> server_step t (SvSweep now n) t'"

inductive_cases sv_requestE: "server_step t (SvRequest r resp) t'"
inductive_cases sv_sweepE: "server_step t (SvSweep now n) t'"

text \<open>What a registration may hold, whatever the network sends.\<close>

definition record_ok :: "peerRecord \<Rightarrow> bool" where
  "record_ok r \<longleftrightarrow> 1 \<le> rec_ServingPort r \<and> rec_ServingPort r \<le> 65535 \<and> card (rec_Packages r) \<le> 4096 \<and>
     (\<forall>nv \<in> rec_Packages r. valid_name_version nv \<and> valid_utf8 nv)"

definition server_inv :: "Tracker \<Rightarrow> bool" where
  "server_inv t \<longleftrightarrow> tracker_inv t \<and> (\<forall>ip rec. tr_peers t ip = Some rec \<longrightarrow> record_ok rec)"

lemma AnnounceRequest_Validate_None [simp]:
  "AnnounceRequest_Validate r = None \<longleftrightarrow> 1 \<le> ServingPort r \<and> ServingPort r \<le> 65535 \<and>
     length (Packages r) \<le> 4096 \<and> (\<forall>nv \<in> set (Packages r). valid_name_version nv)"
  using ValidatePort_None [of "ServingPort r"]
  by (auto simp: AnnounceRequest_Validate_def proto_consts split: option.splits simp del: ValidatePort_None)

lemma announce_event_SomeD:
  assumes "announce_event e r = Some ev"
  obtains ip body req where "clientIP r = Some ip" "readBody r = Inr body"
    "Decode_AnnounceRequest body = Inr req" "AnnounceRequest_Validate req = None"
    "ev = EvAnnounce ip req (te_now e)"
  using assms by (auto simp: announce_event_def split: option.splits sum.splits if_splits)

lemma request_event_announce:
  assumes "request_event e r t = Some (EvAnnounce ip req now)"
  shows "clientIP r = Some ip \<and> AnnounceRequest_Validate req = None \<and> list_all valid_utf8 (Packages req) \<and>
    now = te_now e"
  using assms decoded_announce
  by (auto simp: request_event_def Let_def elim!: announce_event_SomeD
      split: route.splits option.splits if_splits simp del: AnnounceRequest_Validate_None)

lemma request_event_ping:
  assumes "request_event e r t = Some (EvPing ip now now' b)"
  shows "clientIP r = Some ip"
  using assms by (auto simp: request_event_def Let_def elim!: announce_event_SomeD split: route.splits option.splits if_splits)

lemma request_event_no_sweep: "request_event e r t \<noteq> Some (EvSweep now n)"
  by (auto simp: request_event_def Let_def elim!: announce_event_SomeD split: route.splits option.splits if_splits)

lemma spec_Announce_ok:
  "AnnounceRequest_Validate req = None \<Longrightarrow> list_all valid_utf8 (Packages req) \<Longrightarrow>
   spec_Announce T ip req now R ip = Some rec \<Longrightarrow> record_ok rec"
  using card_length [of "Packages req"]
  by (auto simp: spec_Announce_def record_ok_def list_all_iff split: if_splits)


context registry_contract
begin

lemma view_announce_other:
  "invar s \<Longrightarrow> step s (EvAnnounce ip req now) s' \<Longrightarrow> ip' \<noteq> ip \<Longrightarrow> view s' ip' = view s ip'"
  using announce_view [of s ip req now s'] by (auto simp: spec_Announce_def)

lemma view_ping_other:
  "invar s \<Longrightarrow> step s (EvPing ip now now' b) s' \<Longrightarrow> ip' \<noteq> ip \<Longrightarrow> view s' ip' = view s ip'"
  using ping_view [of s ip now now' b s'] by (auto simp: spec_Ping_def split: option.splits)

text \<open>A ping changes at most the deadline of the entry; a sweep only removes.\<close>

lemma view_ping_same:
  "invar s \<Longrightarrow> step s (EvPing ip now now' b) s' \<Longrightarrow> view s' ip' = Some r \<Longrightarrow>
   \<exists>r0. view s ip' = Some r0 \<and> rec_Packages r = rec_Packages r0 \<and> rec_ServingPort r = rec_ServingPort r0"
  using ping_view [of s ip now now' b s'] by (auto simp: spec_Ping_def split: option.splits if_splits)

lemma view_sweep_same:
  "invar s \<Longrightarrow> step s (EvSweep now n) s' \<Longrightarrow> view s' ip = Some r \<Longrightarrow> view s ip = Some r"
  using sweep_view [of s now n s'] by (auto simp: spec_Sweep_def split: if_splits)

end

lemma server_step_registry:
  assumes "server_step t (SvRequest r resp) t'"
  obtains "t' = t" | e ev where "request_event e r t = Some ev" "tracker_step t ev t'"
proof -
  from assms obtain e where e: "env_ok e r t" "newMux e r t = (resp, t')" by (auto elim: sv_requestE)
  then have "t' = snd (newMux e r t)" by simp
  then show thesis using newMux_step [OF e(1)] that by (cases "request_event e r t") auto
qed

lemma record_ok_same:
  "record_ok r0 \<Longrightarrow> rec_Packages r = rec_Packages r0 \<Longrightarrow> rec_ServingPort r = rec_ServingPort r0 \<Longrightarrow> record_ok r"
  by (simp add: record_ok_def)

lemma request_event_inv:
  assumes inv: "server_inv t" and ev: "request_event e r t = Some ev" "tracker_step t ev t'"
  shows "server_inv t'"
proof -
  have ti: "tracker_inv t" and ok: "\<And>ip rec. tr_peers t ip = Some rec \<Longrightarrow> record_ok rec"
    using inv by (auto simp: server_inv_def)
  have "record_ok rec" if rec: "tr_peers t' ip = Some rec" for ip rec
  proof (cases ev)
    case (EvAnnounce ip' req now)
    then have s: "tracker_step t (EvAnnounce ip' req now) t'" using ev(2) by simp
    show ?thesis
    proof (cases "ip' = ip")
      case True
      then show ?thesis using trk.announce_view [OF ti s] request_event_announce [of e r t ip' req now] ev(1) EvAnnounce rec
        spec_Announce_ok [of req _ ip now _ rec] by simp
    next
      case False
      then show ?thesis using trk.view_announce_other [OF ti s] rec ok by auto
    qed
  next
    case (EvPing ip' now now' b)
    then show ?thesis using trk.view_ping_same [of t ip' now now' b t' ip rec] ti ev(2) rec ok record_ok_same by blast
  next
    case (EvPeers nv now ps)
    then show ?thesis using trk.peers_view [of t nv now ps t'] ti ev(2) rec ok by simp
  next
    case (EvSweep now n)
    then show ?thesis using ev(1) request_event_no_sweep by blast
  qed
  then show ?thesis using trk.invar_step [OF ti ev(2)] by (simp add: server_inv_def)
qed

lemma server_step_inv [inv_intros]:
  assumes "server_inv t" "server_step t ev t'"
  shows "server_inv t'"
proof (cases ev)
  case (SvRequest r resp)
  then have "server_step t (SvRequest r resp) t'" using assms(2) by simp
  then show ?thesis by (cases rule: server_step_registry) (use assms(1) request_event_inv in auto)
next
  case (SvSweep now n)
  then have s: "tracker_step t (EvSweep now n) t'" using assms(2) by (auto elim: sv_sweepE)
  have ti: "tracker_inv t" using assms(1) by (simp add: server_inv_def)
  show ?thesis using assms(1) trk.invar_step [OF ti s] trk.view_sweep_same [OF ti s]
    by (auto simp: server_inv_def)
qed

definition reachable_server :: "int \<Rightarrow> server_event list \<Rightarrow> Tracker \<Rightarrow> bool" where
  "reachable_server T es t \<longleftrightarrow> run server_step (NewWithTimeout T) es t"

lemma NewWithTimeout_server_inv: "server_inv (NewWithTimeout T)"
  using NewWithTimeout_inv by (simp add: server_inv_def NewWithTimeout_def)

lemma reachable_server_inv: "reachable_server T es t \<Longrightarrow> server_inv t"
  unfolding reachable_server_def
  by (erule run_invariant) (auto intro: server_step_inv NewWithTimeout_server_inv)

lemma server_step_other:
  assumes "server_inv t" "server_step t (SvRequest r resp) t'" "clientIP r \<noteq> Some ip"
  shows "tr_peers t' ip = tr_peers t ip"
  using assms(2)
proof (cases rule: server_step_registry)
  case (2 e ev)
  have ti: "tracker_inv t" using assms(1) by (simp add: server_inv_def)
  show ?thesis
  proof (cases ev)
    case (EvAnnounce ip' req now)
    then show ?thesis using 2 assms(3) ti request_event_announce [of e r t ip' req now]
        trk.view_announce_other [of t ip' req now t' ip] by auto
  next
    case (EvPing ip' now now' b)
    then show ?thesis using 2 assms(3) ti request_event_ping [of e r t ip' now now' b]
        trk.view_ping_other [of t ip' now now' b t' ip] by auto
  next
    case (EvPeers nv now ps)
    then show ?thesis using 2 ti trk.peers_view [of t nv now ps t'] by simp
  next
    case (EvSweep now n)
    then show ?thesis using 2(1) request_event_no_sweep by blast
  qed
qed simp

subsection \<open>Concrete requests\<close>

definition demo_env :: "int \<Rightarrow> string list \<Rightarrow> string list \<Rightarrow> trac_env" where
  "demo_env now pkgs hs = \<lparr>te_now = now, te_now' = now, te_pkgs = pkgs, te_holders = hs, te_redirect = 307\<rparr>"

definition demo_post :: "string \<Rightarrow> string \<Rightarrow> string \<Rightarrow> trac_request" where
  "demo_post path from body =
     \<lparr>tq_Method = ''POST'', tq_Path = path, tq_RawQuery = [], tq_RemoteAddr = from, tq_Body = Finite (bytes_of body) False\<rparr>"

definition demo_get :: "string \<Rightarrow> string \<Rightarrow> trac_request" where
  "demo_get query from =
     \<lparr>tq_Method = ''GET'', tq_Path = ''/peers'', tq_RawQuery = query, tq_RemoteAddr = from, tq_Body = Finite [] False\<rparr>"

lemmas demo_trac_defs = demo_env_def demo_post_def demo_get_def

lemma route_POST [simp]: "route_of ''POST'' ''/announce'' = RouteAnnounce" "route_of ''POST'' ''/ping'' = RoutePing"
  by (simp_all add: route_of_def cleanPath_def path_segment_def Clean_def clean_segs.simps)

lemma route_GET [simp]: "route_of ''GET'' ''/peers'' = RoutePeers"
  by (simp add: route_of_def cleanPath_def path_segment_def Clean_def clean_segs.simps)

lemma clientIP_demo [simp]:
  "clientIP (demo_post path ''10.0.0.1:5000'' body) = Some ''10.0.0.1''"
  "clientIP (demo_get query ''10.0.0.2:5000'') = Some ''10.0.0.2''"
  by (simp_all add: clientIP_def demo_trac_defs SplitHostPort_def)


subsection \<open>Properties\<close>

text \<open>
  C15: whatever bytes clients send, in any order and interleaved with sweeps, a registration of the
  running tracker server has a port between 1 and 65535, at most 4096 packages, and package names
  that are non-empty, at most 255 bytes, free of control characters and valid UTF-8.
\<close>
theorem server_registry_typed:
  assumes "reachable_server T es t" "tr_peers t ip = Some rec"
  shows "1 \<le> rec_ServingPort rec \<and> rec_ServingPort rec \<le> 65535 \<and> rec_Packages rec \<noteq> {} \<and>
    card (rec_Packages rec) \<le> 4096 \<and>
    (\<forall>nv. nv \<in> rec_Packages rec \<longrightarrow> nv \<noteq> [] \<and> length nv \<le> 255 \<and> list_all (\<lambda>c. \<not> control_char c) nv \<and> valid_utf8 nv)"
proof -
  have inv: "server_inv t" by (rule reachable_server_inv [OF assms(1)])
  then have "rec_Packages rec \<noteq> {}" using assms(2) by (auto simp: server_inv_def tracker_inv_def ran_def)
  with inv assms(2) show ?thesis
    by (auto simp: server_inv_def record_ok_def valid_name_version_def list_all_iff)
qed

lemma demo_announce_request:
  "newMux (demo_env 0 [] []) (demo_post ''/announce'' ''10.0.0.1:5000'' (Encode (announce_json False demo_message)))
     (NewWithTimeout 60) =
   (writeJSON 200 (status_json \<lparr>resp_Status = StatusAck\<rparr>),
    Tracker_Announce [] ''10.0.0.1'' demo_message 0 (NewWithTimeout 60))"
proof -
  have d: "Decode_AnnounceRequest (Encode (announce_json False demo_message)) = Inr demo_message"
    using demo_message_decodes [of "[]" False] by (simp add: delim_def)
  have b: "readBody (demo_post ''/announce'' ''10.0.0.1:5000'' (Encode (announce_json False demo_message))) =
      Inr (Encode (announce_json False demo_message))"
    by (simp add: readBody_def demo_post_def) (simp add: demo_message_text MaxBodyBytes_def)
  have v: "AnnounceRequest_Validate demo_message = None"
    by (simp add: demo_message_def valid_name_version_def control_char_def)
  have "handleAnnounce (demo_env 0 [] []) (demo_post ''/announce'' ''10.0.0.1:5000'' (Encode (announce_json False demo_message)))
      (NewWithTimeout 60) = (writeJSON 200 (status_json \<lparr>resp_Status = StatusAck\<rparr>),
        Tracker_Announce [] ''10.0.0.1'' demo_message 0 (NewWithTimeout 60))"
    by (simp add: handleAnnounce_def b d v del: AnnounceRequest_Validate_None) (simp add: demo_env_def)
  then show ?thesis
    by (simp add: newMux_eq mux_serve_def) (simp add: demo_post_def)
qed

lemma demo_server_run:
  "\<exists>es. reachable_server 60 es (Tracker_Announce [] ''10.0.0.1'' demo_message 0 (NewWithTimeout 60))"
proof -
  have "env_ok (demo_env 0 [] []) (demo_post ''/announce'' ''10.0.0.1:5000'' b) (NewWithTimeout 60)" for b
    by (auto simp: env_ok_def demo_env_def NewWithTimeout_def pkgs_of_def holders_of_def)
  then show ?thesis
    unfolding reachable_server_def using sv_request [OF _ demo_announce_request] by (meson run.intros)
qed

lemma demo_server_entry:
  "tr_peers (Tracker_Announce [] ''10.0.0.1'' demo_message 0 (NewWithTimeout 60)) ''10.0.0.1'' =
     Some \<lparr>rec_ServingPort = 4711, rec_Deadline = 60, rec_Packages = {''curl-8.6.0''}\<rparr>"
  by (simp add: Announce_peers spec_Announce_def demo_message_def NewWithTimeout_def)

theorem server_registry_typed_witness:
  "card {''curl-8.6.0''} \<le> (4096 :: nat) \<and> valid_utf8 ''curl-8.6.0'' \<and>
   (\<exists>es. reachable_server 60 es (Tracker_Announce [] ''10.0.0.1'' demo_message 0 (NewWithTimeout 60)))"
  using demo_server_run server_registry_typed [OF _ demo_server_entry] by auto

text \<open>
  C24: a client cannot touch another client's registration.  A request, of whatever method, path,
  query and body, leaves the entry of every IP as it was, but for the IP that is the host half of the
  address its connection comes from (\<open>RemoteAddr\<close>); when that address does not split into host and
  port, it leaves every entry as it was.
\<close>
theorem server_identity_is_the_connection:
  assumes "reachable_server T es t" "server_step t (SvRequest r resp) t'"
    "\<nexists>port. SplitHostPort (tq_RemoteAddr r) = Inr (ip, port)"
  shows "tr_peers t' ip = tr_peers t ip"
proof -
  have "clientIP r \<noteq> Some ip" using assms(3) by (auto simp: clientIP_def split: sum.splits prod.splits)
  from server_step_other [OF reachable_server_inv [OF assms(1)] assms(2) this] show ?thesis .
qed

theorem server_identity_is_the_connection_witness:
  "tr_peers (Tracker_Announce [] ''10.0.0.1'' demo_message 0 (NewWithTimeout 60)) ''10.0.0.9'' = None"
proof -
  let ?r = "demo_post ''/announce'' ''10.0.0.1:5000'' (Encode (announce_json False demo_message))"
  have "reachable_server 60 [] (NewWithTimeout 60)" by (simp add: reachable_server_def)
  moreover have "server_step (NewWithTimeout 60) (SvRequest ?r (writeJSON 200 (status_json \<lparr>resp_Status = StatusAck\<rparr>)))
      (Tracker_Announce [] ''10.0.0.1'' demo_message 0 (NewWithTimeout 60))"
    by (rule sv_request [OF _ demo_announce_request])
      (auto simp: env_ok_def demo_env_def NewWithTimeout_def pkgs_of_def holders_of_def)
  ultimately show ?thesis
    using server_identity_is_the_connection [of 60 "[]" _ ?r _ _ "''10.0.0.9''"]
    by (simp add: NewWithTimeout_def demo_trac_defs SplitHostPort_def)
qed

lemma too_many_only_here:
  "ValidatePort p \<noteq> Some (ErrTooManyPackages n m)" "validate_packages nvs \<noteq> Some (ErrTooManyPackages n m)"
  by (simp add: ValidatePort_def)
    (induction nvs; auto simp: ValidateNameVersion_def split: option.splits if_splits)

lemma announce_status:
  "StatusCode (fst (handleAnnounce e r t)) =
     (case (clientIP r, readBody r) of
        (Some ip, Inl True) \<Rightarrow> 413
      | (Some ip, Inr body) \<Rightarrow>
          (case Decode_AnnounceRequest body of
             Inl _ \<Rightarrow> 400
           | Inr req \<Rightarrow>
               if AnnounceRequest_Validate req = None then 200
               else if 1 \<le> ServingPort req \<and> ServingPort req \<le> 65535 \<and> 4096 < length (Packages req) then 413
               else 400)
      | _ \<Rightarrow> 400)"
proof -
  have v: "AnnounceRequest_Validate req = Some (ErrTooManyPackages n m) \<Longrightarrow>
      1 \<le> ServingPort req \<and> ServingPort req \<le> 65535 \<and> 4096 < length (Packages req)" for req n m
    using ValidatePort_None [of "ServingPort req"]
    by (auto simp: AnnounceRequest_Validate_def proto_consts too_many_only_here split: option.splits if_splits
        simp del: ValidatePort_None)
  have w: "1 \<le> ServingPort req \<Longrightarrow> ServingPort req \<le> 65535 \<Longrightarrow> 4096 < length (Packages req) \<Longrightarrow>
      \<exists>n m. AnnounceRequest_Validate req = Some (ErrTooManyPackages n m)" for req
    by (simp add: AnnounceRequest_Validate_def ValidatePort_def proto_consts)
  show ?thesis
    unfolding handleAnnounce_def http_Error_def writeJSON_def Let_def
    by (auto split: option.splits sum.splits proto_error.splits bool.splits simp del: AnnounceRequest_Validate_None dest: v w)
qed

lemma ping_status:
  "StatusCode (fst (handlePing e r t)) =
     (case clientIP r of
        None \<Rightarrow> 400
      | Some ip \<Rightarrow> if \<exists>rec. tr_peers t ip = Some rec \<and> te_now e \<le> rec_Deadline rec then 200 else 404)"
  by (auto simp: handlePing_def Tracker_Ping_def http_Error_def writeJSON_def Let_def split: option.splits prod.splits)

lemma peers_status:
  "StatusCode (fst (handlePeers e r t)) =
     (if valid_name_version (query_get (tq_RawQuery r) ''pkg'') then 200 else 400)"
  by (auto simp: handlePeers_def http_Error_def writeJSON_def Let_def valid_name_version_def)

text \<open>
  What the handlers do to the registry, in terms of the source address of the connection.
\<close>

lemma clientIP_Some: "clientIP r = Some ip \<longleftrightarrow> (\<exists>port. SplitHostPort (tq_RemoteAddr r) = Inr (ip, port))"
  by (auto simp: clientIP_def split: sum.splits prod.splits)

lemma announce_effect:
  "if StatusCode (fst (handleAnnounce e r t)) = 200
   then \<exists>ip body req. clientIP r = Some ip \<and> readBody r = Inr body \<and> Decode_AnnounceRequest body = Inr req \<and>
     tr_peers (snd (handleAnnounce e r t)) = spec_Announce (tr_timeout t) ip req (te_now e) (tr_peers t)
   else snd (handleAnnounce e r t) = t"
  by (auto simp: handleAnnounce_def http_Error_def writeJSON_def Let_def Announce_peers
      split: option.splits sum.splits proto_error.splits bool.splits simp del: AnnounceRequest_Validate_None)

lemma ping_effect:
  "case clientIP r of None \<Rightarrow> snd (handlePing e r t) = t
   | Some ip \<Rightarrow> tr_peers (snd (handlePing e r t)) =
       snd (spec_Ping (tr_timeout t) ip (te_now e) (te_now' e) (tr_peers t))"
  by (auto simp: handlePing_def Tracker_Ping_def spec_Ping_def Let_def split: option.splits)

lemma tracker_codes:
  assumes "te_redirect e \<in> {301, 307, 308}"
  shows "StatusCode (fst (newMux e r t)) \<in> {200, 301, 307, 308, 400, 404, 405, 413} \<and>
    (StatusCode (fst (newMux e r t)) = 413 \<longleftrightarrow>
       route_of (tq_Method r) (tq_Path r) = RouteAnnounce \<and> clientIP r \<noteq> None \<and>
       (readBody r = Inl True \<or>
        (\<exists>body req. readBody r = Inr body \<and> Decode_AnnounceRequest body = Inr req \<and>
           1 \<le> ServingPort req \<and> ServingPort req \<le> 65535 \<and> 4096 < length (Packages req)))) \<and>
    (StatusCode (fst (newMux e r t)) = 405 \<longleftrightarrow> route_of (tq_Method r) (tq_Path r) = RouteNotAllowed) \<and>
    (StatusCode (fst (newMux e r t)) = 404 \<longleftrightarrow>
       route_of (tq_Method r) (tq_Path r) = RouteNotFound \<or>
       route_of (tq_Method r) (tq_Path r) = RoutePing \<and>
       (\<exists>ip. clientIP r = Some ip \<and> \<not> (\<exists>rec. tr_peers t ip = Some rec \<and> te_now e \<le> rec_Deadline rec))) \<and>
    (StatusCode (fst (newMux e r t)) = 200 \<longleftrightarrow>
       route_of (tq_Method r) (tq_Path r) = RouteAnnounce \<and>
         (\<exists>ip body req. clientIP r = Some ip \<and> readBody r = Inr body \<and> Decode_AnnounceRequest body = Inr req \<and>
            AnnounceRequest_Validate req = None) \<or>
       route_of (tq_Method r) (tq_Path r) = RoutePing \<and>
         (\<exists>ip rec. clientIP r = Some ip \<and> tr_peers t ip = Some rec \<and> te_now e \<le> rec_Deadline rec) \<or>
       route_of (tq_Method r) (tq_Path r) = RoutePeers \<and>
         valid_name_version (query_get (tq_RawQuery r) ''pkg''))"
proof (cases "route_of (tq_Method r) (tq_Path r)")
  case RouteAnnounce
  then show ?thesis
    by (auto simp: newMux_eq mux_serve_def announce_status split: option.splits sum.splits bool.splits if_splits)
next
  case RoutePing
  then show ?thesis by (auto simp: newMux_eq mux_serve_def ping_status split: option.splits if_splits)
next
  case RoutePeers
  then show ?thesis by (auto simp: newMux_eq mux_serve_def peers_status)
next
  case RouteRedirect
  then show ?thesis using assms by (auto simp: newMux_eq mux_serve_def http_Error_def)
qed (simp_all add: newMux_eq mux_serve_def http_Error_def)

lemma tracker_effects:
  "(case route_of (tq_Method r) (tq_Path r) of
       RouteAnnounce \<Rightarrow>
         (if StatusCode (fst (newMux e r t)) = 200
          then \<exists>ip port body req. SplitHostPort (tq_RemoteAddr r) = Inr (ip, port) \<and> readBody r = Inr body \<and>
            Decode_AnnounceRequest body = Inr req \<and>
            tr_peers (snd (newMux e r t)) =
              (if Packages req = [] then (tr_peers t)(ip := None)
               else (tr_peers t)(ip \<mapsto> \<lparr>rec_ServingPort = ServingPort req,
                 rec_Deadline = te_now e + tr_timeout t, rec_Packages = set (Packages req)\<rparr>))
          else snd (newMux e r t) = t)
     | RoutePing \<Rightarrow>
         (if StatusCode (fst (newMux e r t)) = 200
          then \<exists>ip port rec. SplitHostPort (tq_RemoteAddr r) = Inr (ip, port) \<and> tr_peers t ip = Some rec \<and>
            tr_peers (snd (newMux e r t)) = (tr_peers t)(ip \<mapsto> rec\<lparr>rec_Deadline := te_now' e + tr_timeout t\<rparr>)
          else if StatusCode (fst (newMux e r t)) = 404
          then \<exists>ip port. SplitHostPort (tq_RemoteAddr r) = Inr (ip, port) \<and>
            tr_peers (snd (newMux e r t)) = (tr_peers t)(ip := None)
          else snd (newMux e r t) = t)
     | RoutePeers \<Rightarrow> snd (newMux e r t) = t \<and>
         (StatusCode (fst (newMux e r t)) = 200 \<longrightarrow>
            Body (fst (newMux e r t)) = Finite (bytes_of (print_json (peer_list_json False
              \<lparr>resp_Peers = Tracker_Peers (te_holders e) (query_get (tq_RawQuery r) ''pkg'') (te_now e) t\<rparr>) @ [CHR 10])) False)
     | _ \<Rightarrow> snd (newMux e r t) = t)"
proof (cases "route_of (tq_Method r) (tq_Path r)")
  case RouteAnnounce
  show ?thesis
  proof (cases "StatusCode (fst (handleAnnounce e r t)) = 200")
    case True
    with announce_effect [of e r t] obtain ip body req where
      a: "clientIP r = Some ip" "readBody r = Inr body" "Decode_AnnounceRequest body = Inr req"
        "tr_peers (snd (handleAnnounce e r t)) = spec_Announce (tr_timeout t) ip req (te_now e) (tr_peers t)" by auto
    then obtain port where "SplitHostPort (tq_RemoteAddr r) = Inr (ip, port)" by (auto simp: clientIP_Some)
    then show ?thesis using RouteAnnounce True a by (simp add: newMux_eq mux_serve_def spec_Announce_def)
  next
    case False
    then show ?thesis using RouteAnnounce announce_effect [of e r t] by (simp add: newMux_eq mux_serve_def)
  qed
next
  case RoutePing
  show ?thesis
  proof (cases "clientIP r")
    case None
    then show ?thesis using RoutePing ping_effect [of e r t] by (simp add: newMux_eq mux_serve_def ping_status)
  next
    case (Some ip)
    then obtain port where "SplitHostPort (tq_RemoteAddr r) = Inr (ip, port)" by (auto simp: clientIP_Some)
    then show ?thesis using Some RoutePing ping_effect [of e r t]
      by (cases "tr_peers t ip") (auto simp: newMux_eq mux_serve_def ping_status spec_Ping_def)
  qed
next
  case RoutePeers
  then show ?thesis
    by (auto simp: newMux_eq mux_serve_def handlePeers_def http_Error_def writeJSON_def Let_def)
qed (simp_all add: newMux_eq mux_serve_def http_Error_def)

text \<open>
  C32: the answers of the tracker and what each of them has done.  The codes: 413 for a body over
  the limit or an otherwise well-formed announce of more than 4096 packages, 404 for an unknown path and
  for a ping from an address without a live registration, 405 for a known path with another method, and
  200 exactly for a valid announce, a ping of a live registration and a lookup of a valid name.  The
  registry: a 200 to an announce means that the source address of the connection is now registered
  with exactly the port and names of the body and a full deadline, or not at all when there are no names;
  a 200 to a ping, that its deadline was renewed and nothing else changed; a 404 to a ping, that it has no
  registration any more; and every other request leaves the registry as it was.  A 200 to a lookup carries the answer of
  the registry's own \<open>Peers\<close>.
\<close>
theorem tracker_status_table:
  assumes "te_redirect e \<in> {301, 307, 308}"
  shows "StatusCode (fst (newMux e r t)) \<in> {200, 301, 307, 308, 400, 404, 405, 413} \<and>
    (StatusCode (fst (newMux e r t)) = 413 \<longleftrightarrow>
       route_of (tq_Method r) (tq_Path r) = RouteAnnounce \<and> clientIP r \<noteq> None \<and>
       (readBody r = Inl True \<or>
        (\<exists>body req. readBody r = Inr body \<and> Decode_AnnounceRequest body = Inr req \<and>
           1 \<le> ServingPort req \<and> ServingPort req \<le> 65535 \<and> 4096 < length (Packages req)))) \<and>
    (StatusCode (fst (newMux e r t)) = 405 \<longleftrightarrow> route_of (tq_Method r) (tq_Path r) = RouteNotAllowed) \<and>
    (StatusCode (fst (newMux e r t)) = 404 \<longleftrightarrow>
       route_of (tq_Method r) (tq_Path r) = RouteNotFound \<or>
       route_of (tq_Method r) (tq_Path r) = RoutePing \<and>
       (\<exists>ip. clientIP r = Some ip \<and> \<not> (\<exists>rec. tr_peers t ip = Some rec \<and> te_now e \<le> rec_Deadline rec))) \<and>
    (StatusCode (fst (newMux e r t)) = 200 \<longleftrightarrow>
       route_of (tq_Method r) (tq_Path r) = RouteAnnounce \<and>
         (\<exists>ip body req. clientIP r = Some ip \<and> readBody r = Inr body \<and> Decode_AnnounceRequest body = Inr req \<and>
            AnnounceRequest_Validate req = None) \<or>
       route_of (tq_Method r) (tq_Path r) = RoutePing \<and>
         (\<exists>ip rec. clientIP r = Some ip \<and> tr_peers t ip = Some rec \<and> te_now e \<le> rec_Deadline rec) \<or>
       route_of (tq_Method r) (tq_Path r) = RoutePeers \<and>
         valid_name_version (query_get (tq_RawQuery r) ''pkg'')) \<and>
    (case route_of (tq_Method r) (tq_Path r) of
       RouteAnnounce \<Rightarrow>
         (if StatusCode (fst (newMux e r t)) = 200
          then \<exists>ip port body req. SplitHostPort (tq_RemoteAddr r) = Inr (ip, port) \<and> readBody r = Inr body \<and>
            Decode_AnnounceRequest body = Inr req \<and>
            tr_peers (snd (newMux e r t)) =
              (if Packages req = [] then (tr_peers t)(ip := None)
               else (tr_peers t)(ip \<mapsto> \<lparr>rec_ServingPort = ServingPort req,
                 rec_Deadline = te_now e + tr_timeout t, rec_Packages = set (Packages req)\<rparr>))
          else snd (newMux e r t) = t)
     | RoutePing \<Rightarrow>
         (if StatusCode (fst (newMux e r t)) = 200
          then \<exists>ip port rec. SplitHostPort (tq_RemoteAddr r) = Inr (ip, port) \<and> tr_peers t ip = Some rec \<and>
            tr_peers (snd (newMux e r t)) = (tr_peers t)(ip \<mapsto> rec\<lparr>rec_Deadline := te_now' e + tr_timeout t\<rparr>)
          else if StatusCode (fst (newMux e r t)) = 404
          then \<exists>ip port. SplitHostPort (tq_RemoteAddr r) = Inr (ip, port) \<and>
            tr_peers (snd (newMux e r t)) = (tr_peers t)(ip := None)
          else snd (newMux e r t) = t)
     | RoutePeers \<Rightarrow> snd (newMux e r t) = t \<and>
         (StatusCode (fst (newMux e r t)) = 200 \<longrightarrow>
            Body (fst (newMux e r t)) = Finite (bytes_of (print_json (peer_list_json False
              \<lparr>resp_Peers = Tracker_Peers (te_holders e) (query_get (tq_RawQuery r) ''pkg'') (te_now e) t\<rparr>) @ [CHR 10])) False)
     | _ \<Rightarrow> snd (newMux e r t) = t)"
  using tracker_codes [OF assms, where r = r and t = t] tracker_effects [where r = r and e = e and t = t]
  by (elim conjE) (intro conjI)

theorem tracker_status_table_witness:
  "StatusCode (fst (newMux (demo_env 50 [] []) (demo_post ''/ping'' ''10.0.0.1:5000'' []) (demo_tracker 60))) = 200 \<and>
   tr_peers (snd (newMux (demo_env 50 [] []) (demo_post ''/ping'' ''10.0.0.1:5000'' []) (demo_tracker 60)))
     = [''10.0.0.1'' \<mapsto> demo_rec 110] \<and>
   StatusCode (fst (newMux (demo_env 61 [] []) (demo_post ''/ping'' ''10.0.0.1:5000'' []) (demo_tracker 60))) = 404 \<and>
   tr_peers (snd (newMux (demo_env 61 [] []) (demo_post ''/ping'' ''10.0.0.1:5000'' []) (demo_tracker 60))) = Map.empty"
proof -
  have r: "te_redirect (demo_env n a b) = 307" "te_now (demo_env n a b) = n" "te_now' (demo_env n a b) = n"
    "route_of (tq_Method (demo_post p f c)) (tq_Path (demo_post p f c)) = route_of ''POST'' p" for n a b p f c
    by (simp_all add: demo_env_def demo_post_def)
  have p: "tr_peers (demo_tracker 60) = [''10.0.0.1'' \<mapsto> demo_rec 60]" "tr_timeout (demo_tracker 60) = 60"
    "rec_Deadline (demo_rec 60) = 60" "(demo_rec 60)\<lparr>rec_Deadline := 110\<rparr> = demo_rec 110"
    by (simp_all add: demo_tracker_def demo_rec_def)
  have i: "SplitHostPort (tq_RemoteAddr (demo_post q ''10.0.0.1:5000'' c)) = Inr (''10.0.0.1'', ''5000'')" for q c
    by (simp add: demo_trac_defs SplitHostPort_def)
  note table = tracker_status_table [of _ "demo_post ''/ping'' ''10.0.0.1:5000'' []" "demo_tracker 60"]
  have route: "route_of ''POST'' ''/ping'' = RoutePing" by simp
  have st: "StatusCode (fst (newMux (demo_env 50 [] []) (demo_post ''/ping'' ''10.0.0.1:5000'' []) (demo_tracker 60))) = 200"
    "StatusCode (fst (newMux (demo_env 61 [] []) (demo_post ''/ping'' ''10.0.0.1:5000'' []) (demo_tracker 60))) = 404"
    using table [of "demo_env 50 [] []"] table [of "demo_env 61 [] []"] unfolding r route by (simp_all add: p)
  moreover have "tr_peers (snd (newMux (demo_env 50 [] []) (demo_post ''/ping'' ''10.0.0.1:5000'' []) (demo_tracker 60)))
      = [''10.0.0.1'' \<mapsto> demo_rec 110]"
    "tr_peers (snd (newMux (demo_env 61 [] []) (demo_post ''/ping'' ''10.0.0.1:5000'' []) (demo_tracker 60))) = Map.empty"
    using table [of "demo_env 50 [] []"] table [of "demo_env 61 [] []"] unfolding r route st by (simp_all add: p i)
  ultimately show ?thesis by blast
qed

end
