(* ===== verification/Discovery.thy ===== *)
theory Discovery
  imports Trac_Server Fetch Watcher
begin

text \<open>
  The daemon's side of the tracker conversation (\<open>src/internal/discovery\<close>): the one-shot client of
  \<open>client.go\<close> and the heartbeat of \<open>keepalive.go\<close>, with \<open>cacheSource\<close> of \<open>daemon.go\<close>, the adapter
  that feeds it the cache.

  The client is written over a transport: method, URL and body in, a reply and the new state of the
  world out.  The heartbeat is written over the two interfaces of \<open>keepalive.go\<close>, \<open>Tracker\<close> and
  \<open>Cache\<close>.  The locale \<open>tracker_conn\<close> states what the heartbeat relies on; it is interpreted on the
  client talking, over a network that may lose requests or replies, to the tracker server.
\<close>

definition PingInterval :: int where "PingInterval = 20 * 10 ^ 9"

type_synonym 'w transport = "string \<Rightarrow> string \<Rightarrow> string \<Rightarrow> 'w \<Rightarrow> peer_reply \<times> 'w"

datatype client_error =
    ErrInvalid proto_error
  | ErrTransport
  | ErrStatus nat
  | ErrUnknownPeer
  | ErrResponseRead
  | ErrResponseDecode codec_error
  | ErrResponseInvalid proto_error

subsection \<open>The client (client.go)\<close>

definition Client_Announce ::
  "'w transport \<Rightarrow> string \<Rightarrow> int \<Rightarrow> string list \<Rightarrow> 'w \<Rightarrow> client_error option \<times> 'w" where
  "Client_Announce send trackerURL servingPort nvs w =
     (let req = \<lparr>ServingPort = servingPort, Packages = nvs\<rparr>
      in case AnnounceRequest_Validate req of
           Some e \<Rightarrow> (Some (ErrInvalid e), w)
         | None \<Rightarrow>
             (case send ''POST'' (trackerURL @ ''/announce'') (Encode (announce_json False req)) w of
                (Reply resp, w') \<Rightarrow> (if StatusCode resp \<noteq> 200 then Some (ErrStatus (StatusCode resp)) else None, w')
              | (_, w') \<Rightarrow> (Some ErrTransport, w')))"

definition Client_Ping :: "'w transport \<Rightarrow> string \<Rightarrow> 'w \<Rightarrow> client_error option \<times> 'w" where
  "Client_Ping send trackerURL w =
     (case send ''POST'' (trackerURL @ ''/ping'') [] w of
        (Reply resp, w') \<Rightarrow>
          (if StatusCode resp = 200 then None
           else if StatusCode resp = 404 then Some ErrUnknownPeer
           else Some (ErrStatus (StatusCode resp)), w')
      | (_, w') \<Rightarrow> (Some ErrTransport, w'))"

definition readLimited :: "reader \<Rightarrow> string option" where
  "readLimited body =
     (let (bs, failed) = limit_copy (int MaxBodyBytes) body in if failed then None else Some (string_of bs))"

definition Client_Peers ::
  "'w transport \<Rightarrow> string \<Rightarrow> string \<Rightarrow> 'w \<Rightarrow> (client_error + string list) \<times> 'w" where
  "Client_Peers send trackerURL nameVersion w =
     (case ValidateNameVersion nameVersion of
        Some e \<Rightarrow> (Inl (ErrInvalid e), w)
      | None \<Rightarrow>
          (case send ''GET'' (trackerURL @ ''/peers?'' @ encode_param ''pkg'' nameVersion) [] w of
             (Reply resp, w') \<Rightarrow>
               (if StatusCode resp \<noteq> 200 then Inl (ErrStatus (StatusCode resp))
                else case readLimited (Body resp) of
                  None \<Rightarrow> Inl ErrResponseRead
                | Some body \<Rightarrow>
                    (case Decode_PeerListResponse body of
                       Inl e \<Rightarrow> Inl (ErrResponseDecode e)
                     | Inr out \<Rightarrow>
                         (case PeerListResponse_Validate out of
                            Some e \<Rightarrow> Inl (ErrResponseInvalid e)
                          | None \<Rightarrow> Inr (map Addr (resp_Peers out)))), w')
           | (_, w') \<Rightarrow> (Inl ErrTransport, w')))"

subsection \<open>The heartbeat (keepalive.go)\<close>

record KeepAlive =
  ka_port :: int
  ka_interval :: int
  ka_registered :: bool

definition NewKeepAlive :: "int \<Rightarrow> KeepAlive" where
  "NewKeepAlive port = \<lparr>ka_port = port, ka_interval = PingInterval, ka_registered = False\<rparr>"

type_synonym 'w announce_op = "int \<Rightarrow> string list \<Rightarrow> 'w \<Rightarrow> client_error option \<times> 'w"
type_synonym 'w ping_op = "'w \<Rightarrow> client_error option \<times> 'w"
type_synonym 'w scan_op = "'w \<Rightarrow> string list option \<times> 'w"

definition KeepAlive_announce ::
  "'w scan_op \<Rightarrow> 'w announce_op \<Rightarrow> KeepAlive \<times> 'w \<Rightarrow> KeepAlive \<times> 'w" where
  "KeepAlive_announce scan ann s =
     (case scan (snd s) of
        (None, w) \<Rightarrow> (fst s, w)
      | (Some nvs, w) \<Rightarrow>
          (case ann (ka_port (fst s)) nvs w of
             (Some _, w') \<Rightarrow> (fst s, w')
           | (None, w') \<Rightarrow> ((fst s)\<lparr>ka_registered := length nvs > 0\<rparr>, w')))"

definition KeepAlive_ping ::
  "'w scan_op \<Rightarrow> 'w announce_op \<Rightarrow> 'w ping_op \<Rightarrow> KeepAlive \<times> 'w \<Rightarrow> KeepAlive \<times> 'w" where
  "KeepAlive_ping scan ann ping s =
     (if \<not> ka_registered (fst s) then s
      else case ping (snd s) of
             (None, w) \<Rightarrow> (fst s, w)
           | (Some e, w) \<Rightarrow> if e = ErrUnknownPeer then KeepAlive_announce scan ann (fst s, w) else (fst s, w))"

text \<open>What the select of \<open>Run\<close> may receive.\<close>

datatype ka_event = KaDone | KaChanged | KaTick

text \<open>\<open>Run\<close>, with the world moving between two iterations: \<open>evs\<close> lists what the select received and
  what had happened to the world before it did.\<close>

fun ka_loop ::
  "'w scan_op \<Rightarrow> 'w announce_op \<Rightarrow> 'w ping_op \<Rightarrow> (('w \<Rightarrow> 'w) \<times> ka_event) list \<Rightarrow> KeepAlive \<times> 'w \<Rightarrow> KeepAlive \<times> 'w" where
  "ka_loop scan ann ping [] s = s"
| "ka_loop scan ann ping ((env, ev) # evs) s =
     (let s1 = (fst s, env (snd s)) in
      case ev of
        KaDone \<Rightarrow> s1
      | KaChanged \<Rightarrow> ka_loop scan ann ping evs (KeepAlive_announce scan ann s1)
      | KaTick \<Rightarrow> ka_loop scan ann ping evs (KeepAlive_ping scan ann ping s1))"

definition KeepAlive_Run ::
  "'w scan_op \<Rightarrow> 'w announce_op \<Rightarrow> 'w ping_op \<Rightarrow> (('w \<Rightarrow> 'w) \<times> ka_event) list \<Rightarrow> KeepAlive \<times> 'w \<Rightarrow> KeepAlive \<times> 'w" where
  "KeepAlive_Run scan ann ping evs s = ka_loop scan ann ping evs (KeepAlive_announce scan ann s)"

text \<open>\<open>cacheSource.Scan\<close> of \<open>daemon.go\<close>.\<close>

definition cacheSource_Scan :: "node \<Rightarrow> string list \<Rightarrow> Watcher \<Rightarrow> string list option \<times> Watcher" where
  "cacheSource_Scan root order wt = map_prod (map_option (map NameVersion)) id (Scan root order wt)"

subsection \<open>What the heartbeat relies on\<close>

locale tracker_conn =
  fixes ping :: "'w ping_op"
    and announce :: "'w announce_op"
    and entry :: "'w \<Rightarrow> (int \<times> string set) option"  \<comment> \<open>what the tracker holds for this daemon\<close>
    and invar :: "'w \<Rightarrow> bool"
    and wire :: "string \<Rightarrow> bool"                      \<comment> \<open>names that reach the tracker unchanged\<close>
  assumes announce_invar: "invar w \<Longrightarrow> invar (snd (announce p nvs w))"
    and ping_invar: "invar w \<Longrightarrow> invar (snd (ping w))"
    and announce_ok: "invar w \<Longrightarrow> announce p nvs w = (None, w') \<Longrightarrow> list_all wire nvs \<Longrightarrow>
      entry w' = (if nvs = [] then None else Some (p, set nvs))"
    and ping_ok: "invar w \<Longrightarrow> ping w = (None, w') \<Longrightarrow> entry w' = entry w \<and> entry w \<noteq> None"
    and ping_unknown: "invar w \<Longrightarrow> ping w = (Some ErrUnknownPeer, w') \<Longrightarrow> entry w' = None"
begin

lemma keepalive_announce:
  assumes "invar w1" "scan w = (Some nvs, w1)" "announce (ka_port k) nvs w1 = (None, w')" "list_all wire nvs"
  shows "KeepAlive_announce scan announce (k, w) = (k\<lparr>ka_registered := nvs \<noteq> []\<rparr>, w') \<and>
    entry w' = (if nvs = [] then None else Some (ka_port k, set nvs))"
  using assms announce_ok [of w1 "ka_port k" nvs w'] by (auto simp: KeepAlive_announce_def)

text \<open>One beat of a registered daemon: renewed, re-announced, or nothing learnt.\<close>

lemma tick_outcome:
  assumes "invar w" "ka_registered k" "KeepAlive_ping scan announce ping (k, w) = (k', w')"
  obtains
    (renewed) "ping w = (None, w')" "k' = k" "entry w' = entry w" "entry w' \<noteq> None"
  | (forgotten) w1 where "ping w = (Some ErrUnknownPeer, w1)" "entry w1 = None" "invar w1"
      "KeepAlive_announce scan announce (k, w1) = (k', w')"
  | (failed) e where "ping w = (Some e, w')" "e \<noteq> ErrUnknownPeer" "k' = k"
proof -
  obtain r w1 where p: "ping w = (r, w1)" by (cases "ping w")
  show thesis
  proof (cases r)
    case None
    then show thesis using assms p ping_ok [of w w1] by (intro renewed) (auto simp: KeepAlive_ping_def)
  next
    case (Some e)
    show thesis
    proof (cases "e = ErrUnknownPeer")
      case True
      then show thesis using assms p Some ping_unknown [of w w1] ping_invar [of w]
        by (intro forgotten [of w1]) (auto simp: KeepAlive_ping_def)
    next
      case False
      then show thesis using assms p Some by (intro failed [of e]) (auto simp: KeepAlive_ping_def)
    qed
  qed
qed

end

text \<open>While nothing is registered, no number of ticks makes the daemon contact the tracker.\<close>

lemma unregistered_is_quiet:
  "\<not> ka_registered k \<Longrightarrow>
   ka_loop scan ann ping (map (\<lambda>env. (env, KaTick)) envs) (k, w) = (k, fold (\<lambda>env. env) envs w)"
  by (induction envs arbitrary: w) (auto simp: KeepAlive_ping_def)

subsection \<open>A daemon, a network and a tracker\<close>

datatype net_mode =
    NetUp
  | NetDown  \<comment> \<open>requests do not arrive\<close>
  | NetLost  \<comment> \<open>requests arrive, replies do not\<close>

record swarm =
  sw_server :: Tracker
  sw_now :: int
  sw_net :: net_mode
  sw_base :: string                            \<comment> \<open>the tracker URL\<close>
  sw_from :: string                            \<comment> \<open>the address the daemon's connections come from\<close>
  sw_order :: "string set \<Rightarrow> string list"       \<comment> \<open>the order map loops run in\<close>
  sw_root :: node                              \<comment> \<open>the daemon's file system\<close>
  sw_watcher :: Watcher

definition to_request :: "string \<Rightarrow> string \<Rightarrow> string \<Rightarrow> string \<Rightarrow> string \<Rightarrow> trac_request" where
  "to_request from base meth url body =
     (let (p, q) = cut (CHR ''?'') (drop (length base) url)
      in \<lparr>tq_Method = meth, tq_Path = p, tq_RawQuery = q, tq_RemoteAddr = from, tq_Body = Finite (bytes_of body) False\<rparr>)"

definition swarm_env :: "swarm \<Rightarrow> trac_request \<Rightarrow> trac_env" where
  "swarm_env sw r =
     \<lparr>te_now = sw_now sw, te_now' = sw_now sw,
      te_pkgs = sw_order sw (case clientIP r of None \<Rightarrow> {} | Some ip \<Rightarrow> pkgs_of (sw_server sw) ip),
      te_holders = sw_order sw (holders_of (sw_server sw) (query_get (tq_RawQuery r) ''pkg'')),
      te_redirect = 307\<rparr>"

definition swarm_send :: "swarm transport" where
  "swarm_send meth url body sw =
     (if sw_net sw = NetDown then (NoReply, sw)
      else
        let r = to_request (sw_from sw) (sw_base sw) meth url body;
            (resp, t') = newMux (swarm_env sw r) r (sw_server sw);
            sw' = sw\<lparr>sw_server := t'\<rparr>
        in (if sw_net sw = NetUp then Reply resp else NoReply, sw'))"

definition swarm_ping :: "swarm ping_op" where
  "swarm_ping sw = Client_Ping swarm_send (sw_base sw) sw"

definition swarm_announce :: "swarm announce_op" where
  "swarm_announce port nvs sw = Client_Announce swarm_send (sw_base sw) port nvs sw"

definition swarm_peers :: "string \<Rightarrow> swarm \<Rightarrow> (client_error + string list) \<times> swarm" where
  "swarm_peers nv sw = Client_Peers swarm_send (sw_base sw) nv sw"

definition swarm_scan :: "swarm scan_op" where
  "swarm_scan sw =
     (let paths = dom (fold scan_file (fst (Walk (sw_root sw) (cacheDir (sw_watcher sw)))) Map.empty);
          (res, wt) = cacheSource_Scan (sw_root sw) (sw_order sw paths) (sw_watcher sw)
      in (res, sw\<lparr>sw_watcher := wt\<rparr>))"

definition swarm_ip :: "swarm \<Rightarrow> string option" where
  "swarm_ip sw = (case SplitHostPort (sw_from sw) of Inl _ \<Rightarrow> None | Inr (ip, _) \<Rightarrow> Some ip)"

text \<open>
  A tracker URL that names an origin and nothing else, as in \<open>http://127.0.0.1:8080\<close>: what \<open>to_request\<close> takes
  for the path of a request is the path only under such a URL, so the invariant asks for one.
\<close>

definition bare_origin :: "string \<Rightarrow> bool" where
  "bare_origin base \<longleftrightarrow> HasPrefix base ''http://'' \<and> drop 7 base \<noteq> [] \<and>
     list_all (\<lambda>c. c \<notin> set ''/?#@% '' \<and> \<not> control_char c) (drop 7 base)"

text \<open>What the tracker holds for the daemon, live or not.\<close>

definition swarm_entry :: "swarm \<Rightarrow> (int \<times> string set) option" where
  "swarm_entry sw =
     Option.bind (swarm_ip sw) (\<lambda>ip. map_option (\<lambda>r. (rec_ServingPort r, rec_Packages r)) (tr_peers (sw_server sw) ip))"

definition swarm_inv :: "swarm \<Rightarrow> bool" where
  "swarm_inv sw \<longleftrightarrow> server_inv (sw_server sw) \<and> swarm_ip sw \<noteq> None \<and> bare_origin (sw_base sw) \<and>
     (\<forall>S. finite S \<longrightarrow> range_order (sw_order sw S) S)"

lemma to_request_post:
  "path \<in> {''/announce'', ''/ping''} \<Longrightarrow> to_request from base meth (base @ path) body =
     \<lparr>tq_Method = meth, tq_Path = path, tq_RawQuery = [], tq_RemoteAddr = from, tq_Body = Finite (bytes_of body) False\<rparr>"
  by (auto simp: to_request_def cut_def)

lemma to_request_peers:
  "to_request from base meth (base @ ''/peers?'' @ q) body =
     \<lparr>tq_Method = meth, tq_Path = ''/peers'', tq_RawQuery = q, tq_RemoteAddr = from, tq_Body = Finite (bytes_of body) False\<rparr>"
  by (auto simp: to_request_def cut_def)

lemma swarm_clientIP: "tq_RemoteAddr r = sw_from sw \<Longrightarrow> clientIP r = swarm_ip sw"
  by (simp add: clientIP_def swarm_ip_def)

text \<open>Any request the network delivers is a step of the server.\<close>

lemma swarm_env_ok:
  assumes "swarm_inv sw"
  shows "env_ok (swarm_env sw r) r (sw_server sw)"
proof -
  have inv: "tracker_inv (sw_server sw)" using assms by (simp add: swarm_inv_def server_inv_def)
  have "finite (pkgs_of (sw_server sw) ip)" for ip
    using inv by (auto simp: tracker_inv_def pkgs_of_def ran_def split: option.splits)
  moreover have "finite (holders_of (sw_server sw) nv)" for nv
  proof -
    have "holders_of (sw_server sw) nv \<subseteq> dom (tr_peers (sw_server sw))"
      using inv holders_of_index [of "sw_server sw" nv] by (auto simp: tracker_inv_def holders_def)
    then show ?thesis using inv finite_subset by (auto simp: tracker_inv_def)
  qed
  ultimately show ?thesis using assms by (auto simp: env_ok_def swarm_env_def swarm_inv_def)
qed

lemma swarm_send_step:
  assumes "swarm_inv sw" "swarm_send meth url body sw = (rp, sw')"
  shows "swarm_inv sw' \<and> sw' = sw\<lparr>sw_server := sw_server sw'\<rparr>"
proof (cases "sw_net sw = NetDown")
  case False
  define r where "r = to_request (sw_from sw) (sw_base sw) meth url body"
  obtain resp t' where n: "newMux (swarm_env sw r) r (sw_server sw) = (resp, t')" by fastforce
  have st: "server_step (sw_server sw) (SvRequest r resp) t'"
    by (rule sv_request [OF swarm_env_ok [OF assms(1)] n])
  have "server_inv t'" using assms(1) server_step_inv [OF _ st] by (simp add: swarm_inv_def)
  moreover have "sw' = sw\<lparr>sw_server := t'\<rparr>"
    using assms(2) False n by (auto simp: swarm_send_def r_def Let_def split: prod.splits)
  ultimately show ?thesis using assms(1) by (simp add: swarm_inv_def swarm_ip_def)
qed (use assms in \<open>auto simp: swarm_send_def\<close>)

lemma swarm_send_mux:
  assumes "sw_net sw \<noteq> NetDown" "r = to_request (sw_from sw) (sw_base sw) meth url body"
  shows "swarm_send meth url body sw =
    (if sw_net sw = NetUp then Reply (fst (mux_serve (swarm_env sw r) r (sw_server sw))) else NoReply,
     sw\<lparr>sw_server := snd (mux_serve (swarm_env sw r) r (sw_server sw))\<rparr>)"
  using assms by (simp add: swarm_send_def Let_def newMux_eq split_beta)

lemma swarm_ping_eq:
  assumes "sw_net sw \<noteq> NetDown" "swarm_ip sw = Some ip"
  shows "\<exists>order. (swarm_inv sw \<longrightarrow> range_order order (pkgs_of (sw_server sw) ip)) \<and>
    swarm_ping sw =
      (if sw_net sw = NetUp
       then (if fst (Tracker_Ping order ip (sw_now sw) (sw_now sw) (sw_server sw)) then None else Some ErrUnknownPeer)
       else Some ErrTransport,
       sw\<lparr>sw_server := snd (Tracker_Ping order ip (sw_now sw) (sw_now sw) (sw_server sw))\<rparr>)"
proof -
  let ?r = "to_request (sw_from sw) (sw_base sw) ''POST'' (sw_base sw @ ''/ping'') []"
  let ?o = "te_pkgs (swarm_env sw ?r)"
  have r: "tq_Method ?r = ''POST''" "tq_Path ?r = ''/ping''" "tq_RemoteAddr ?r = sw_from sw"
    by (simp_all add: to_request_post)
  have ip: "clientIP ?r = Some ip" using assms(2) swarm_clientIP [OF r(3)] by simp
  have now: "te_now (swarm_env sw ?r) = sw_now sw" "te_now' (swarm_env sw ?r) = sw_now sw"
    by (simp_all add: swarm_env_def)
  obtain b t' where p: "Tracker_Ping ?o ip (sw_now sw) (sw_now sw) (sw_server sw) = (b, t')" by fastforce
  have "mux_serve (swarm_env sw ?r) ?r (sw_server sw) =
      (if b then writeJSON 200 (status_json \<lparr>resp_Status = StatusAck\<rparr>)
       else writeJSON 404 (status_json \<lparr>resp_Status = StatusUnknown\<rparr>), t')"
    unfolding mux_serve_def r route_POST by (simp add: handlePing_def ip now p)
  then have "swarm_ping sw = (if sw_net sw = NetUp then (if b then None else Some ErrUnknownPeer) else Some ErrTransport,
      sw\<lparr>sw_server := t'\<rparr>)"
    unfolding swarm_ping_def Client_Ping_def swarm_send_mux [OF assms(1) refl]
    by (simp add: writeJSON_def Let_def)
  then show ?thesis using p swarm_env_ok [of sw ?r] ip by (intro exI [of _ ?o]) (auto simp: env_ok_def)
qed

lemma swarm_ping_down: "sw_net sw = NetDown \<Longrightarrow> swarm_ping sw = (Some ErrTransport, sw)"
  by (simp add: swarm_ping_def Client_Ping_def swarm_send_def)


definition wire_name :: "string \<Rightarrow> bool" where
  "wire_name nv \<longleftrightarrow> valid_utf8 nv"

lemma swarm_announce_eq:
  assumes "sw_net sw \<noteq> NetDown" "swarm_ip sw = Some ip" "list_all wire_name nvs"
    "AnnounceRequest_Validate \<lparr>ServingPort = port, Packages = nvs\<rparr> = None"
  defines "req \<equiv> \<lparr>ServingPort = port, Packages = nvs\<rparr>"
  shows "\<exists>order. (swarm_inv sw \<longrightarrow> range_order order (pkgs_of (sw_server sw) ip)) \<and>
    swarm_announce port nvs sw =
      (if length (Encode (announce_json False req)) \<le> MaxBodyBytes
       then (if sw_net sw = NetUp then None else Some ErrTransport,
             sw\<lparr>sw_server := Tracker_Announce order ip req (sw_now sw) (sw_server sw)\<rparr>)
       else (if sw_net sw = NetUp then Some (ErrStatus 413) else Some ErrTransport, sw))"
proof -
  let ?b = "Encode (announce_json False req)"
  let ?r = "to_request (sw_from sw) (sw_base sw) ''POST'' (sw_base sw @ ''/announce'') ?b"
  let ?o = "te_pkgs (swarm_env sw ?r)"
  have r: "tq_Method ?r = ''POST''" "tq_Path ?r = ''/announce''" "tq_RemoteAddr ?r = sw_from sw"
    "tq_Body ?r = Finite (bytes_of ?b) False"
    by (simp_all add: to_request_post)
  have ip: "clientIP ?r = Some ip" using assms(2) swarm_clientIP [OF r(3)] by simp
  have v: "AnnounceRequest_Validate req = None" using assms(4) by (simp only: req_def)
  have p: "int64 (ServingPort req)" "list_all valid_utf8 (Packages req)" using v assms(3)
    by (auto simp: int64_def req_def wire_name_def list_all_iff)
  have d: "length ?b \<le> MaxBodyBytes \<Longrightarrow> Decode_AnnounceRequest ?b = Inr req"
    using Decode_announce_text [OF p(2,1), of "[]" False] by (simp add: delim_def)
  have "mux_serve (swarm_env sw ?r) ?r (sw_server sw) =
      (if length ?b \<le> MaxBodyBytes
       then (writeJSON 200 (status_json \<lparr>resp_Status = StatusAck\<rparr>), Tracker_Announce ?o ip req (sw_now sw) (sw_server sw))
       else (http_Error ''body too large'' 413, sw_server sw))"
    unfolding mux_serve_def r route_POST
    by (simp add: handleAnnounce_def ip readBody_def r(4) d v swarm_env_def del: AnnounceRequest_Validate_None)
  then have "swarm_announce port nvs sw =
      (if length ?b \<le> MaxBodyBytes
       then (if sw_net sw = NetUp then None else Some ErrTransport,
             sw\<lparr>sw_server := Tracker_Announce ?o ip req (sw_now sw) (sw_server sw)\<rparr>)
       else (if sw_net sw = NetUp then Some (ErrStatus 413) else Some ErrTransport, sw))"
    unfolding swarm_announce_def Client_Announce_def Let_def req_def [symmetric] v
    unfolding swarm_send_mux [OF assms(1) refl]
    by (simp add: writeJSON_def http_Error_def Let_def)
  then show ?thesis using swarm_env_ok [of sw ?r] ip by (intro exI [of _ ?o]) (auto simp: env_ok_def)
qed

lemma swarm_announce_cases:
  obtains (invalid) e where "swarm_announce port nvs sw = (Some (ErrInvalid e), sw)"
  | (sent) meth url body rp sw' where "AnnounceRequest_Validate \<lparr>ServingPort = port, Packages = nvs\<rparr> = None"
      "swarm_send meth url body sw = (rp, sw')" "snd (swarm_announce port nvs sw) = sw'"
proof (cases "AnnounceRequest_Validate \<lparr>ServingPort = port, Packages = nvs\<rparr>")
  case None
  obtain rp sw' where s: "swarm_send ''POST'' (sw_base sw @ ''/announce'')
      (Encode (announce_json False \<lparr>ServingPort = port, Packages = nvs\<rparr>)) sw = (rp, sw')" by fastforce
  then have "snd (swarm_announce port nvs sw) = sw'"
    using None by (cases rp) (simp_all add: swarm_announce_def Client_Announce_def del: AnnounceRequest_Validate_None)
  then show thesis using None s sent by blast
next
  case (Some e)
  then show thesis using invalid [of e]
    by (simp add: swarm_announce_def Client_Announce_def del: AnnounceRequest_Validate_None)
qed

lemma swarm_announce_frame: "swarm_inv sw \<Longrightarrow>
   swarm_inv (snd (swarm_announce p nvs sw)) \<and> snd (swarm_announce p nvs sw) = sw\<lparr>sw_server := sw_server (snd (swarm_announce p nvs sw))\<rparr>"
  by (cases rule: swarm_announce_cases [of p nvs sw]) (auto dest: swarm_send_step)

lemma swarm_ping_frame:
  assumes "swarm_inv sw"
  shows "swarm_inv (snd (swarm_ping sw)) \<and> snd (swarm_ping sw) = sw\<lparr>sw_server := sw_server (snd (swarm_ping sw))\<rparr>"
proof -
  obtain rp sw' where s: "swarm_send ''POST'' (sw_base sw @ ''/ping'') [] sw = (rp, sw')" by fastforce
  then have "snd (swarm_ping sw) = sw'" by (cases rp) (simp_all add: swarm_ping_def Client_Ping_def)
  then show ?thesis using swarm_send_step [OF assms s] by simp
qed

lemma swarm_entry_server:
  "swarm_ip sw = Some ip \<Longrightarrow>
   swarm_entry sw = map_option (\<lambda>r. (rec_ServingPort r, rec_Packages r)) (tr_peers (sw_server sw) ip)"
  by (simp add: swarm_entry_def)

lemma swarm_ip_server [simp]: "swarm_ip (sw\<lparr>sw_server := t\<rparr>) = swarm_ip sw"
  by (simp add: swarm_ip_def)

lemma swarm_announce_ok:
  assumes "swarm_inv sw" "swarm_announce p nvs sw = (None, sw')" "list_all wire_name nvs"
  shows "AnnounceRequest_Validate \<lparr>ServingPort = p, Packages = nvs\<rparr> = None \<and>
    (\<exists>ip order. swarm_ip sw = Some ip \<and> range_order order (pkgs_of (sw_server sw) ip) \<and>
       sw' = sw\<lparr>sw_server := Tracker_Announce order ip \<lparr>ServingPort = p, Packages = nvs\<rparr> (sw_now sw) (sw_server sw)\<rparr>)"
proof -
  obtain ip where ip: "swarm_ip sw = Some ip" using assms(1) by (auto simp: swarm_inv_def)
  have v: "AnnounceRequest_Validate \<lparr>ServingPort = p, Packages = nvs\<rparr> = None"
    using assms(2) by (cases rule: swarm_announce_cases [of p nvs sw]) auto
  have up: "sw_net sw \<noteq> NetDown"
    using assms(2) v by (auto simp: swarm_announce_def Client_Announce_def swarm_send_def simp del: AnnounceRequest_Validate_None)
  show ?thesis using swarm_announce_eq [OF up ip assms(3) v] assms(1,2) ip v
    by (fastforce split: if_splits simp del: AnnounceRequest_Validate_None)
qed

interpretation conn: tracker_conn swarm_ping swarm_announce swarm_entry swarm_inv wire_name
proof
  fix w w' :: swarm and p nvs
  assume inv: "swarm_inv w"
  then obtain ip where ip: "swarm_ip w = Some ip" by (auto simp: swarm_inv_def)
  show "swarm_inv (snd (swarm_announce p nvs w))" "swarm_inv (snd (swarm_ping w))"
    using swarm_announce_frame [OF inv] swarm_ping_frame [OF inv] by auto
  show "swarm_entry w' = (if nvs = [] then None else Some (p, set nvs))"
    if "swarm_announce p nvs w = (None, w')" "list_all wire_name nvs"
    using swarm_announce_ok [OF inv that] by (auto simp: swarm_entry_server Announce_peers spec_Announce_def)
  have up: "sw_net w = NetUp" if "swarm_ping w = (r, w')" "r \<noteq> Some ErrTransport" for r
    using that swarm_ping_down [of w] swarm_ping_eq [of w ip] ip by (cases "sw_net w") auto
  obtain order where o: "sw_net w = NetUp \<Longrightarrow> swarm_ping w =
      (if fst (Tracker_Ping order ip (sw_now w) (sw_now w) (sw_server w)) then None else Some ErrUnknownPeer,
       w\<lparr>sw_server := snd (Tracker_Ping order ip (sw_now w) (sw_now w) (sw_server w))\<rparr>)"
    using swarm_ping_eq [of w ip] ip by (cases "sw_net w") auto
  show "swarm_entry w' = swarm_entry w \<and> swarm_entry w \<noteq> None" if "swarm_ping w = (None, w')"
    using o [OF up [OF that]] that ip
    by (auto simp: swarm_entry_server Tracker_Ping_def split: option.splits if_splits)
  show "swarm_entry w' = None" if "swarm_ping w = (Some ErrUnknownPeer, w')"
    using o [OF up [OF that]] that ip
    by (auto simp: swarm_entry_server Tracker_Ping_def split: option.splits if_splits)
qed

subsection \<open>A lookup over the wire\<close>

text \<open>An address the client accepts: an IP literal, of at most the 45 bytes such a text can have.\<close>

definition dialable :: "string \<Rightarrow> bool" where
  "dialable ip \<longleftrightarrow> ParseIP ip \<noteq> None \<and> length ip \<le> 45"

lemma ip_char_plain: "ip_char c \<Longrightarrow> plain_char c"
proof -
  assume "ip_char c"
  then consider "c = CHR ''.''" | "c = CHR '':''" | "48 \<le> (of_char c :: nat) \<and> (of_char c :: nat) \<le> 57"
    | "65 \<le> (of_char c :: nat) \<and> (of_char c :: nat) \<le> 70" | "97 \<le> (of_char c :: nat) \<and> (of_char c :: nat) \<le> 102"
    by (auto simp: ip_char_def is_hex_def hex_digit_def Let_def split: if_splits)
  then show ?thesis by cases (auto simp: plain_char_def)
qed

definition wire_ip :: "string \<Rightarrow> bool" where
  "wire_ip ip \<longleftrightarrow> list_all plain_char ip \<and> length ip \<le> 45"

lemma dialable_wire: "dialable ip \<Longrightarrow> wire_ip ip"
  using ParseIP_chars ip_char_plain by (fastforce simp: dialable_def wire_ip_def list_all_iff)

lemma length_nat_dec: "length (nat_dec n) \<le> Suc n"
proof (induction n rule: nat_dec.induct)
  case (1 n)
  show ?case
  proof (cases "n < 10")
    case False
    then have "length (nat_dec n) \<le> Suc (Suc (n div 10))" using 1 by (subst nat_dec.simps) simp
    then show ?thesis using False by linarith
  qed (simp add: nat_dec.simps)
qed

lemma length_Join:
  "(\<And>x. x \<in> set xs \<Longrightarrow> length x \<le> K) \<Longrightarrow> length (Join xs [c]) \<le> length xs * (K + 1)"
proof (induction xs)
  case (Cons x xs)
  then show ?case by (cases "xs = []") (fastforce simp: Join_Cons)+
qed simp

lemma peer_text_length:
  assumes "wire_ip (IP p)" "1 \<le> Port p" "Port p \<le> 65535"
  shows "length (print_json (peer_json p)) \<le> 65600"
proof -
  have "length (Itoa (Port p)) \<le> 65536" using assms length_nat_dec [of "nat (Port p)"] by (simp add: Itoa_def)
  then show ?thesis using assms(1) quote_plain [of "IP p"]
    by (simp add: peer_json_def field_text wire_ip_def)
qed

lemma peer_list_text_length:
  assumes "length ps \<le> 3" "\<forall>p \<in> set ps. wire_ip (IP p) \<and> 1 \<le> Port p \<and> Port p \<le> 65535"
  shows "length (Encode (peer_list_json False \<lparr>resp_Peers = ps\<rparr>) @ [CHR 10]) \<le> MaxBodyBytes"
proof -
  have "length (Join (map print_json (map peer_json ps)) '','') \<le> length ps * 65601"
    using length_Join [of "map print_json (map peer_json ps)" 65600] peer_text_length assms(2) by fastforce
  also have "\<dots> \<le> 3 * 65601" using assms(1) by simp
  finally show ?thesis
    by (simp add: Encode_def peer_list_json_def slice_json_def field_text MaxBodyBytes_def comp_def)
qed

lemma reachable_ports:
  assumes "server_inv t" "tracker_step t (EvPeers nv now ps) t'" "p \<in> set ps"
  shows "1 \<le> Port p \<and> Port p \<le> 65535 \<and> IP p \<in> live_holders (tr_peers t) nv now"
proof -
  have ti: "tracker_inv t" using assms(1) by (simp add: server_inv_def)
  obtain rec where "tr_peers t (IP p) = Some rec" "Port p = rec_ServingPort rec"
    using trk.peers_sound [OF ti assms(2,3)] by (auto simp: live_holders_def)
  then show ?thesis using assms(1) trk.peers_sound [OF ti assms(2,3)] by (auto simp: server_inv_def record_ok_def)
qed

text \<open>The answer of the tracker's own \<open>Peers\<close>, called there and then with the order its map loop runs in.\<close>

definition tracker_answer :: "swarm \<Rightarrow> string \<Rightarrow> PeerInfo list" where
  "tracker_answer sw nv =
     Tracker_Peers (sw_order sw (holders_of (sw_server sw) nv)) nv (sw_now sw) (sw_server sw)"

lemma tracker_answer_step:
  assumes "swarm_inv sw"
  shows "tracker_step (sw_server sw) (EvPeers nv (sw_now sw) (tracker_answer sw nv)) (sw_server sw)"
proof -
  have inv: "tracker_inv (sw_server sw)" using assms by (simp add: swarm_inv_def server_inv_def)
  have "holders_of (sw_server sw) nv \<subseteq> dom (tr_peers (sw_server sw))"
    using inv holders_of_index [of "sw_server sw" nv] by (auto simp: tracker_inv_def holders_def)
  then have "finite (holders_of (sw_server sw) nv)" using inv finite_subset by (auto simp: tracker_inv_def)
  then show ?thesis
    unfolding tracker_answer_def using assms by (intro step_Peers) (simp add: swarm_inv_def)
qed

lemma tracker_answer_sound:
  assumes "swarm_inv sw" "p \<in> set (tracker_answer sw nv)"
  shows "IP p \<in> live_holders (tr_peers (sw_server sw)) nv (sw_now sw)"
    "Port p = rec_ServingPort (the (tr_peers (sw_server sw) (IP p)))" "1 \<le> Port p" "Port p \<le> 65535"
  using trk.peers_sound [OF _ tracker_answer_step [OF assms(1)] assms(2)]
    reachable_ports [OF _ tracker_answer_step [OF assms(1)] assms(2)] assms(1)
  by (simp_all add: swarm_inv_def server_inv_def)

lemma swarm_lookup:
  assumes inv: "swarm_inv sw" and up: "sw_net sw = NetUp" and nv: "valid_name_version nv"
  defines "ps \<equiv> tracker_answer sw nv"
  shows "swarm_peers nv sw =
       (case readLimited (Finite (bytes_of (print_json (peer_list_json False \<lparr>resp_Peers = ps\<rparr>) @ [CHR 10])) False) of
          None \<Rightarrow> Inl ErrResponseRead
        | Some body \<Rightarrow>
            (case Decode_PeerListResponse body of
               Inl e \<Rightarrow> Inl (ErrResponseDecode e)
             | Inr out \<Rightarrow>
                 (case PeerListResponse_Validate out of
                    Some e \<Rightarrow> Inl (ErrResponseInvalid e)
                  | None \<Rightarrow> Inr (map Addr (resp_Peers out)))), sw)"
proof -
  let ?r = "to_request (sw_from sw) (sw_base sw) ''GET'' (sw_base sw @ ''/peers?'' @ encode_param ''pkg'' nv) []"
  let ?o = "te_holders (swarm_env sw ?r)"
  have r: "tq_Method ?r = ''GET''" "tq_Path ?r = ''/peers''" "query_get (tq_RawQuery ?r) ''pkg'' = nv"
    unfolding to_request_peers by (simp_all add: query_get_encode)
  have ne: "nv \<noteq> []" "ValidateNameVersion nv = None" using nv by (auto simp: valid_name_version_def)
  have o: "?o = sw_order sw (holders_of (sw_server sw) nv)" by (simp only: swarm_env_def trac_env.simps r(3))
  have mux: "mux_serve (swarm_env sw ?r) ?r (sw_server sw) = (writeJSON 200 (peer_list_json False \<lparr>resp_Peers = ps\<rparr>), sw_server sw)"
    unfolding mux_serve_def r(1,2) route_GET
    unfolding handlePeers_def r(3) ne(2) Let_def ps_def tracker_answer_def o [symmetric] by (simp add: ne(1) swarm_env_def)
  have nd: "sw_net sw \<noteq> NetDown" using up by simp
  show ?thesis
    unfolding swarm_peers_def Client_Peers_def ne(2) swarm_send_mux [OF nd refl] mux
    by (simp add: up writeJSON_def Let_def)
qed

lemma readLimited_all: "length s \<le> MaxBodyBytes \<Longrightarrow> readLimited (Finite (bytes_of s) False) = Some s"
  by (auto simp: readLimited_def limit_copy_def MaxBodyBytes_def)

lemma swarm_lookup_text:
  assumes "swarm_inv sw" "sw_net sw = NetUp" "valid_name_version nv"
    "\<forall>p \<in> set (tracker_answer sw nv). wire_ip (IP p)"
  shows "swarm_peers nv sw =
    (case validate_peers (tracker_answer sw nv) of
       Some e \<Rightarrow> Inl (ErrResponseInvalid e) | None \<Rightarrow> Inr (map Addr (tracker_answer sw nv)), sw)"
proof -
  let ?ps = "tracker_answer sw nv"
  note st = tracker_answer_step [OF assms(1), of nv]
  have ti: "tracker_inv (sw_server sw)" using assms(1) by (simp add: swarm_inv_def server_inv_def)
  have p: "\<forall>p \<in> set ?ps. wire_ip (IP p) \<and> 1 \<le> Port p \<and> Port p \<le> 65535"
    using tracker_answer_sound [OF assms(1)] assms(4) by blast
  have l: "length ?ps \<le> 3" using trk.peers_card [OF ti st] by (simp add: MaxPeers_def)
  let ?t = "Encode (peer_list_json False \<lparr>resp_Peers = ?ps\<rparr>) @ [CHR 10]"
  have fits: "length ?t \<le> MaxBodyBytes" by (rule peer_list_text_length [OF l p])
  have "Decode_PeerListResponse ?t = Inr \<lparr>resp_Peers = ?ps\<rparr>"
    using p fits by (intro Decode_peer_list_text) (auto simp: wire_ip_def int64_def intro: valid_utf8_plain)
  then show ?thesis
    using swarm_lookup [OF assms(1-3)] readLimited_all [OF fits]
    by (cases "validate_peers ?ps") (simp_all add: Encode_def PeerListResponse_Validate_def del: validate_peers_None)
qed

text \<open>The validator of the client refuses the first address that is no IP literal.\<close>

lemma validate_peers_ports:
  assumes "\<forall>p \<in> set ps. 1 \<le> Port p \<and> Port p \<le> 65535"
  shows "validate_peers ps = map_option (\<lambda>p. ErrBadIP (IP p)) (find (\<lambda>p. ParseIP (IP p) = None) ps)"
  using assms by (induction ps) (auto simp: PeerInfo_Validate_def ValidatePort_def proto_consts simp del: validate_peers_None)

subsection \<open>Healing\<close>

definition swarm_live :: "swarm \<Rightarrow> bool" where
  "swarm_live sw \<longleftrightarrow> (\<exists>ip rec. swarm_ip sw = Some ip \<and> tr_peers (sw_server sw) ip = Some rec \<and> sw_now sw \<le> rec_Deadline rec)"

lemma swarm_ping_up:
  assumes "swarm_inv sw" "sw_net sw = NetUp"
  shows "fst (swarm_ping sw) = (if swarm_live sw then None else Some ErrUnknownPeer)"
proof -
  obtain ip where ip: "swarm_ip sw = Some ip" using assms(1) by (auto simp: swarm_inv_def)
  have nd: "sw_net sw \<noteq> NetDown" using assms(2) by simp
  show ?thesis using swarm_ping_eq [OF nd ip] assms(2) ip
    by (auto simp: swarm_live_def Tracker_Ping_def Let_def split: option.splits if_splits)
qed

lemma swarm_scan_server: "swarm_scan (sw\<lparr>sw_server := t\<rparr>) = map_prod id (\<lambda>s. s\<lparr>sw_server := t\<rparr>) (swarm_scan sw)"
  by (simp add: swarm_scan_def Let_def split_beta)

lemma swarm_scan_frame: "swarm_scan sw = (res, sw') \<Longrightarrow> sw' = sw\<lparr>sw_watcher := sw_watcher sw'\<rparr>"
  by (auto simp: swarm_scan_def Let_def split_beta)

lemma swarm_inv_watcher [simp]: "swarm_inv (sw\<lparr>sw_watcher := wt\<rparr>) = swarm_inv sw"
  by (simp add: swarm_inv_def swarm_ip_def)

definition announceable :: "int \<Rightarrow> string list \<Rightarrow> bool" where
  "announceable port nvs \<longleftrightarrow> list_all wire_name nvs \<and>
     AnnounceRequest_Validate \<lparr>ServingPort = port, Packages = nvs\<rparr> = None \<and>
     length (Encode (announce_json False \<lparr>ServingPort = port, Packages = nvs\<rparr>)) \<le> MaxBodyBytes"

lemma swarm_announce_up:
  assumes "swarm_inv sw" "sw_net sw = NetUp" "announceable port nvs"
  shows "fst (swarm_announce port nvs sw) = None"
proof -
  obtain ip where ip: "swarm_ip sw = Some ip" using assms(1) by (auto simp: swarm_inv_def)
  have nd: "sw_net sw \<noteq> NetDown" using assms(2) by simp
  have a: "list_all wire_name nvs" "AnnounceRequest_Validate \<lparr>ServingPort = port, Packages = nvs\<rparr> = None"
    "length (Encode (announce_json False \<lparr>ServingPort = port, Packages = nvs\<rparr>)) \<le> MaxBodyBytes"
    using assms(3) by (simp_all only: announceable_def)
  show ?thesis using swarm_announce_eq [OF nd ip a(1,2)] assms(2) a(3) by auto
qed

lemma announce_heals:
  assumes "swarm_inv sw" "sw_net sw = NetUp" "swarm_scan sw = (Some nvs, sw1)" "announceable (ka_port k) nvs"
    "KeepAlive_announce swarm_scan swarm_announce (k, sw) = (k', sw')"
  shows "swarm_entry sw' = (if nvs = [] then None else Some (ka_port k, set nvs)) \<and>
    k' = k\<lparr>ka_registered := nvs \<noteq> []\<rparr> \<and> swarm_inv sw'"
proof -
  have s1: "sw1 = sw\<lparr>sw_watcher := sw_watcher sw1\<rparr>" by (rule swarm_scan_frame [OF assms(3)])
  have "swarm_inv (sw\<lparr>sw_watcher := sw_watcher sw1\<rparr>)" using assms(1) by simp
  then have inv: "swarm_inv sw1" using s1 by metis
  have "sw_net (sw\<lparr>sw_watcher := sw_watcher sw1\<rparr>) = NetUp" using assms(2) by simp
  then have "sw_net sw1 = NetUp" using s1 by metis
  then obtain sw2 where a: "swarm_announce (ka_port k) nvs sw1 = (None, sw2)"
    using swarm_announce_up [OF inv _ assms(4)] by (cases "swarm_announce (ka_port k) nvs sw1") auto
  show ?thesis
    using conn.keepalive_announce [of sw1 swarm_scan sw nvs k sw2, OF inv assms(3) a] assms(4,5) conn.announce_invar [OF inv, of "ka_port k" nvs] a
    by (auto simp: announceable_def)
qed

text \<open>An announce outside the limits changes nothing, in the daemon or at the tracker.\<close>

lemma announce_refused:
  assumes "swarm_inv sw" "sw_net sw = NetUp" "list_all wire_name nvs" "\<not> announceable port nvs"
  shows "\<exists>e. swarm_announce port nvs sw = (Some e, sw)"
proof (cases "AnnounceRequest_Validate \<lparr>ServingPort = port, Packages = nvs\<rparr>")
  case None
  obtain ip where ip: "swarm_ip sw = Some ip" using assms(1) by (auto simp: swarm_inv_def)
  have nd: "sw_net sw \<noteq> NetDown" using assms(2) by simp
  have "\<not> length (Encode (announce_json False \<lparr>ServingPort = port, Packages = nvs\<rparr>)) \<le> MaxBodyBytes"
    using assms(3,4) None unfolding announceable_def by blast
  then show ?thesis using swarm_announce_eq [OF nd ip assms(3) None] assms(2) by auto
next
  case (Some e)
  then show ?thesis by (simp add: swarm_announce_def Client_Announce_def del: AnnounceRequest_Validate_None)
qed

lemma announce_outcome:
  assumes "swarm_inv sw" "sw_net sw = NetUp" "swarm_scan sw = (res, sw1)"
    "\<And>nvs. res = Some nvs \<Longrightarrow> list_all wire_name nvs" "swarm_entry sw = None"
    "KeepAlive_announce swarm_scan swarm_announce (k, sw) = (k', sw')"
  shows "swarm_entry sw' = (case res of None \<Rightarrow> None | Some nvs \<Rightarrow>
      if nvs = [] \<or> \<not> announceable (ka_port k) nvs then None else Some (ka_port k, set nvs)) \<and>
    k' = (case res of None \<Rightarrow> k | Some nvs \<Rightarrow>
      if announceable (ka_port k) nvs then k\<lparr>ka_registered := nvs \<noteq> []\<rparr> else k)"
proof (cases res)
  case None
  have "swarm_entry sw1 = swarm_entry sw"
    by (subst swarm_scan_frame [OF assms(3)]) (simp add: swarm_entry_def swarm_ip_def)
  then show ?thesis using assms(3,5,6) None by (simp add: KeepAlive_announce_def)
next
  case (Some nvs)
  show ?thesis
  proof (cases "announceable (ka_port k) nvs")
    case True
    then show ?thesis using announce_heals [OF assms(1,2) _ True assms(6)] assms(3) Some by simp
  next
    case False
    have s1: "sw1 = sw\<lparr>sw_watcher := sw_watcher sw1\<rparr>" by (rule swarm_scan_frame [OF assms(3)])
    have f: "swarm_inv sw1" "sw_net sw1 = NetUp" "swarm_entry sw1 = None"
      by (subst s1, use assms(1,2,5) in \<open>simp add: swarm_entry_def swarm_ip_def\<close>)+
    obtain e where "swarm_announce (ka_port k) nvs sw1 = (Some e, sw1)"
      using announce_refused [OF f(1,2) assms(4) [OF Some] False] by blast
    then show ?thesis using assms(3,6) Some False f(3) by (simp add: KeepAlive_announce_def)
  qed
qed

text \<open>
  C11: the heartbeat heals the registration, within the limits of the protocol.  On a network that
  works, with a cache whose names are valid UTF-8, one beat of a registered daemon leaves the tracker
  holding its old entry if that was still live.  Otherwise, because the tracker was restarted or the
  deadline passed, it leaves the port of the daemon and exactly the names its cache scan yields now,
  when the port and every name are valid, there are at most 4096 names and the text of the announce is
  at most 1 MiB.  Outside these limits, or when the scan fails, the tracker holds nothing and the
  daemon still counts as registered, so that the next beat tries again; with an empty cache the tracker
  holds nothing and the daemon counts as unregistered.
\<close>
theorem heartbeat_heals:
  assumes "swarm_inv sw" "sw_net sw = NetUp" "ka_registered k" "swarm_scan sw = (res, sw1)"
    "\<And>nvs. res = Some nvs \<Longrightarrow> list_all valid_utf8 nvs"
    "KeepAlive_ping swarm_scan swarm_announce swarm_ping (k, sw) = (k', sw')"
  defines "fits nvs \<equiv> 1 \<le> ka_port k \<and> ka_port k \<le> 65535 \<and> length nvs \<le> 4096 \<and> list_all valid_name_version nvs \<and>
    length (Encode (announce_json False \<lparr>ServingPort = ka_port k, Packages = nvs\<rparr>)) \<le> 1048576"
  shows "swarm_entry sw' =
      (if swarm_live sw then swarm_entry sw
       else case res of None \<Rightarrow> None | Some nvs \<Rightarrow> if nvs = [] \<or> \<not> fits nvs then None else Some (ka_port k, set nvs)) \<and>
    (ka_registered k' \<longleftrightarrow> swarm_live sw \<or> (case res of None \<Rightarrow> True | Some nvs \<Rightarrow> nvs \<noteq> [] \<or> \<not> fits nvs))"
  using assms(1,3,6)
proof (cases rule: conn.tick_outcome)
  case renewed
  then have "swarm_live sw" using swarm_ping_up [OF assms(1,2)] by (simp split: if_splits)
  then show ?thesis using renewed assms(3) by auto
next
  case (forgotten w1)
  then have nl: "\<not> swarm_live sw" using swarm_ping_up [OF assms(1,2)] by (simp split: if_splits)
  have w1: "w1 = sw\<lparr>sw_server := sw_server w1\<rparr>" using swarm_ping_frame [OF assms(1)] forgotten(1) by simp
  then have up: "sw_net w1 = NetUp" using assms(2) by (metis swarm.select_convs(3) swarm.surjective swarm.update_convs(1))
  have sc: "swarm_scan w1 = (res, sw1\<lparr>sw_server := sw_server w1\<rparr>)"
    using swarm_scan_server [of "sw_server w1" sw] w1 assms(4) by simp
  have utf: "list_all wire_name nvs" if "res = Some nvs" for nvs
    using assms(5) [OF that] by (simp add: list_all_iff wire_name_def)
  have "announceable (ka_port k) nvs \<longleftrightarrow> fits nvs" if "res = Some nvs" for nvs
    using utf [OF that] by (auto simp: announceable_def fits_def proto_consts MaxBodyBytes_def list_all_iff)
  then show ?thesis
    using announce_outcome [OF forgotten(3) up sc utf forgotten(2,4)] nl assms(3)
    by (auto split: option.splits)
next
  case (failed e)
  then show ?thesis using swarm_ping_up [OF assms(1,2)] by (simp split: if_splits)
qed

text \<open>
  A startup announce that does not get through is never repeated by the heartbeat.  If the
  tracker cannot be reached when \<open>Run\<close> starts, the daemon stays unregistered and contacts nobody
  through any number of ticks, however the network, the tracker and the clock move in between.
\<close>
theorem failed_startup_is_never_retried:
  assumes "sw_net sw = NetDown"
  shows "\<exists>sw1. KeepAlive_Run swarm_scan swarm_announce swarm_ping (map (\<lambda>env. (env, KaTick)) envs)
      (NewKeepAlive port, sw) = (NewKeepAlive port, fold (\<lambda>env. env) envs sw1) \<and>
    sw_server sw1 = sw_server sw"
proof -
  obtain res sw1 where s: "swarm_scan sw = (res, sw1)" by fastforce
  have s1: "sw1 = sw\<lparr>sw_watcher := sw_watcher sw1\<rparr>" by (rule swarm_scan_frame [OF s])
  then have "sw_server sw1 = sw_server sw" "sw_net sw1 = NetDown" using assms by (metis swarm.ext_inject swarm.surjective swarm.update_convs(8))+
  moreover from this have "\<exists>e. swarm_announce port nvs sw1 = (Some e, sw1)" for nvs
    by (cases rule: swarm_announce_cases [of port nvs sw1])
      (auto simp: swarm_announce_def Client_Announce_def swarm_send_def simp del: AnnounceRequest_Validate_None)
  then have "KeepAlive_announce swarm_scan swarm_announce (NewKeepAlive port, sw) = (NewKeepAlive port, sw1)"
  proof (cases res)
    case (Some nvs)
    moreover assume "\<And>nvs. \<exists>e. swarm_announce port nvs sw1 = (Some e, sw1)"
    then obtain e where "swarm_announce port nvs sw1 = (Some e, sw1)" by blast
    ultimately show ?thesis using s by (simp add: KeepAlive_announce_def NewKeepAlive_def)
  qed (use s in \<open>simp add: KeepAlive_announce_def\<close>)
  moreover have "\<not> ka_registered (NewKeepAlive port)" by (simp add: NewKeepAlive_def)
  ultimately show ?thesis
    unfolding KeepAlive_Run_def using unregistered_is_quiet by metis
qed

lemma client_lookup:
  assumes "swarm_inv sw" "sw_net sw = NetUp" "valid_name_version nv"
    "\<forall>p \<in> set (tracker_answer sw nv). wire_ip (IP p)"
  shows "swarm_peers nv sw =
    (case find (\<lambda>p. ParseIP (IP p) = None) (tracker_answer sw nv) of
       Some p \<Rightarrow> Inl (ErrResponseInvalid (ErrBadIP (IP p))) | None \<Rightarrow> Inr (map Addr (tracker_answer sw nv)), sw)"
proof -
  have "\<forall>p \<in> set (tracker_answer sw nv). 1 \<le> Port p \<and> Port p \<le> 65535"
    using tracker_answer_sound [OF assms(1)] by blast
  then show ?thesis using swarm_lookup_text [OF assms] by (simp add: validate_peers_ports split: option.splits)
qed

text \<open>
  C18: a lookup is faithful over the wire.  On a network that works, for live holders whose addresses
  are texts as connections have them (plain ASCII of at most 45 bytes), what the daemon's client returns
  for a package is, address for address and in the same order, the answer of the tracker's \<open>Peers\<close> at
  that moment: distinct live holders at the ports they announced, three of them or all if there are
  fewer.  Routing, JSON, the port check and the size limits lose, add and reorder nothing.  The one
  exception is an answer with an address that is no IP literal: the first such address makes the client refuse
  the whole answer.
\<close>
theorem client_lookup_exact:
  assumes "swarm_inv sw" "sw_net sw = NetUp" "valid_name_version nv"
    "\<And>ip. ip \<in> live_holders (tr_peers (sw_server sw)) nv (sw_now sw) \<Longrightarrow> list_all plain_char ip \<and> length ip \<le> 45"
  shows "let ps = Tracker_Peers (sw_order sw (holders_of (sw_server sw) nv)) nv (sw_now sw) (sw_server sw);
      live = live_holders (tr_peers (sw_server sw)) nv (sw_now sw)
    in swarm_peers nv sw =
        (case find (\<lambda>p. ParseIP (IP p) = None) ps of
           Some p \<Rightarrow> Inl (ErrResponseInvalid (ErrBadIP (IP p)))
         | None \<Rightarrow> Inr (map (\<lambda>p. JoinHostPort (IP p) (Itoa (Port p))) ps), sw) \<and>
      distinct (map IP ps) \<and> length ps = min 3 (card live) \<and>
      (\<forall>p \<in> set ps. IP p \<in> live \<and> Port p = rec_ServingPort (the (tr_peers (sw_server sw) (IP p))))"
proof -
  have ti: "tracker_inv (sw_server sw)" using assms(1) by (simp add: swarm_inv_def server_inv_def)
  note st = tracker_answer_step [OF assms(1), of nv]
  have "\<forall>p \<in> set (tracker_answer sw nv). wire_ip (IP p)"
    using tracker_answer_sound(1) [OF assms(1)] assms(4) by (auto simp: wire_ip_def)
  note eq = client_lookup [OF assms(1-3) this]
  have "Addr = (\<lambda>p. JoinHostPort (IP p) (Itoa (Port p)))" by (simp add: fun_eq_iff Addr_def)
  from eq [unfolded this] show ?thesis
    using trk.peers_distinct [OF ti st] trk.peers_card [OF ti st] tracker_answer_sound(1,2) [OF assms(1)]
    by (simp add: MaxPeers_def Let_def flip: tracker_answer_def)
qed

text \<open>
  The tracker keeps whatever source address a connection has, but the client refuses a whole
  answer for one address it cannot parse.  While a live holder of a package has such an address,
  an IPv6 address with a zone for instance, and there are at most three holders, every lookup of
  the package fails, however many honest holders there are.
\<close>
theorem unparsable_holder_blocks_lookups:
  assumes "swarm_inv sw" "sw_net sw = NetUp" "valid_name_version nv"
    "bad \<in> live_holders (tr_peers (sw_server sw)) nv (sw_now sw)" "ParseIP bad = None"
    "card (live_holders (tr_peers (sw_server sw)) nv (sw_now sw)) \<le> 3"
    "\<And>ip. ip \<in> live_holders (tr_peers (sw_server sw)) nv (sw_now sw) \<Longrightarrow> wire_ip ip"
  shows "\<exists>ip. swarm_peers nv sw = (Inl (ErrResponseInvalid (ErrBadIP ip)), sw)"
proof -
  have ti: "tracker_inv (sw_server sw)" using assms(1) by (simp add: swarm_inv_def server_inv_def)
  obtain p where "p \<in> set (tracker_answer sw nv)" "IP p = bad"
    using trk.lookup_lists_holder [OF ti tracker_answer_step [OF assms(1)] assms(4)] assms(6) live_holders_finite [OF ti]
    by (auto simp: MaxPeers_def)
  then have "find (\<lambda>p. ParseIP (IP p) = None) (tracker_answer sw nv) \<noteq> None"
    using assms(5) by (auto simp: find_None_iff)
  moreover have "\<forall>p \<in> set (tracker_answer sw nv). wire_ip (IP p)"
    using tracker_answer_sound(1) [OF assms(1)] assms(7) by blast
  ultimately show ?thesis using client_lookup [OF assms(1-3)] by auto
qed


text \<open>
  The limits of the protocol contradict each other.  A list that keeps within the limit on the
  number of packages and within the limit on the length of each passes the client's own check,
  but its text can exceed the body limit, and then the tracker answers 413 to it on every try.
\<close>
theorem valid_announce_over_body_limit:
  assumes "swarm_inv sw" "sw_net sw = NetUp" "1 \<le> port" "port \<le> 65535"
  shows "\<exists>nvs. AnnounceRequest_Validate \<lparr>ServingPort = port, Packages = nvs\<rparr> = None \<and> list_all wire_name nvs \<and>
    swarm_announce port nvs sw = (Some (ErrStatus 413), sw)"
proof -
  obtain ip where ip: "swarm_ip sw = Some ip" using assms(1) by (auto simp: swarm_inv_def)
  have nd: "sw_net sw \<noteq> NetDown" using assms(2) by simp
  define nv where "nv = replicate 255 CHR ''a''"
  define nvs where "nvs = replicate 4096 nv"
  have plain: "list_all plain_char nv" by (simp add: nv_def list_all_iff plain_char_def)
  have w: "list_all wire_name nvs" using valid_utf8_plain [OF plain] by (auto simp: nvs_def wire_name_def list_all_iff)
  have "valid_name_version nv" by (auto simp: nv_def valid_name_version_def control_char_def)
  then have v: "AnnounceRequest_Validate \<lparr>ServingPort = port, Packages = nvs\<rparr> = None"
    using assms(3,4) by (simp add: nvs_def)
  have j: "length (Join (replicate (Suc n) x) [c]) = n * (length x + 1) + length x" for n x c
    by (induction n) (auto simp: Join_Cons)
  have m: "map print_json (map JStr nvs) = replicate (Suc 4095) (quote nv)" by (simp add: nvs_def)
  have "length (quote nv) = 257" using plain by (simp add: quote_plain) (simp add: nv_def)
  then have "length (Join (map print_json (map JStr nvs)) '','') = 4095 * (257 + 1) + 257"
    unfolding m using j [of 4095 "quote nv" "CHR '',''"] by (simp only:)
  moreover have "nvs \<noteq> []" by (simp add: nvs_def)
  ultimately have "\<not> length (Encode (announce_json False \<lparr>ServingPort = port, Packages = nvs\<rparr>)) \<le> MaxBodyBytes"
    by (simp add: Encode_def announce_json_def slice_json_def MaxBodyBytes_def field_text)
  then show ?thesis using swarm_announce_eq [OF nd ip w v] assms(2) w v by auto
qed

subsection \<open>A concrete swarm\<close>

definition demo_swarm :: "net_mode \<Rightarrow> Tracker \<Rightarrow> swarm" where
  "demo_swarm net t =
     \<lparr>sw_server = t, sw_now = 50, sw_net = net, sw_base = ''http://127.0.0.1:8080'', sw_from = ''10.0.0.1:5000'',
      sw_order = sorted_list_of_set, sw_root = demo_root, sw_watcher = demo_watcher ''/cache''\<rparr>"

lemma demo_swarm_ip: "swarm_ip (demo_swarm net t) = Some ''10.0.0.1''"
  by (simp add: swarm_ip_def demo_swarm_def SplitHostPort_def)

lemma demo_swarm_inv: "server_inv t \<Longrightarrow> swarm_inv (demo_swarm net t)"
  by (simp add: swarm_inv_def demo_swarm_ip)
    (simp add: demo_swarm_def bare_origin_def HasPrefix_def control_char_def range_order_def)

lemma demo_swarm_sel [simp]:
  "sw_net (demo_swarm net t) = net" "sw_server (demo_swarm net t) = t" "sw_now (demo_swarm net t) = 50"
  by (simp_all add: demo_swarm_def)

theorem valid_announce_over_body_limit_witness:
  "\<exists>nvs. AnnounceRequest_Validate \<lparr>ServingPort = 9002, Packages = nvs\<rparr> = None \<and>
    fst (swarm_announce 9002 nvs (demo_swarm NetUp (NewWithTimeout 60))) = Some (ErrStatus 413)"
  using valid_announce_over_body_limit [OF demo_swarm_inv [OF NewWithTimeout_server_inv [of 60]], of NetUp 9002] by auto

theorem failed_startup_is_never_retried_witness:
  "\<exists>sw1. KeepAlive_Run swarm_scan swarm_announce swarm_ping
      [(\<lambda>sw. sw\<lparr>sw_net := NetUp\<rparr>, KaTick), (id, KaTick)] (NewKeepAlive 9002, demo_swarm NetDown (NewWithTimeout 60)) =
     (NewKeepAlive 9002, sw1\<lparr>sw_net := NetUp\<rparr>)"
  using failed_startup_is_never_retried [of "demo_swarm NetDown (NewWithTimeout 60)" "[\<lambda>sw. sw\<lparr>sw_net := NetUp\<rparr>, id]" 9002]
  by auto

lemma Scan_pkgs: "pkgs (snd (Scan root order w)) = fold scan_file (fst (Walk root (cacheDir w))) Map.empty"
  by (auto simp: Scan_def Let_def split: prod.split)

lemma demo_swarm_scan:
  "\<exists>sw1. swarm_scan (demo_swarm net t) = (Some [''zip-3''], sw1)"
proof -
  let ?w = "demo_watcher ''/cache''" and ?p = "''/cache/zip-3~00112233aa.pkg''"
  let ?i = "\<lparr>Name = ''zip'', Version = ''3'', Path = ?p, FileSizeBytes = 3\<rparr>"
  have m: "fold scan_file (fst (Walk demo_root (cacheDir ?w))) Map.empty = [?p \<mapsto> ?i]"
    using demo_scan_m [of "[]"] by (simp add: Scan_pkgs)
  have ok: "snd (Walk demo_root (cacheDir ?w))"
    by (simp add: Walk_def os_Lstat_def demo_watcher_def Watcher_New_def rooted_segs_def
        demo_root_def demo_cache_entries_def Join2_def Clean_def)
  have "SanityFilter [?i] (repoDB ?w) = [?i]"
    by (simp add: SanityFilter_def sane_def isValidNameVersionFormat_def NameVersion_def demo_watcher_def Watcher_New_def)
  then have "\<exists>wt. Scan demo_root [?p] ?w = (Some [?i], wt)"
    using m ok by (simp add: Scan_def Let_def split_beta)
  then show ?thesis
    by (auto simp: swarm_scan_def demo_swarm_def m cacheSource_Scan_def NameVersion_def)
qed

lemma demo_announceable: "announceable 9002 [''zip-3'']"
proof -
  have "length (Itoa 9002) \<le> 9003" using length_nat_dec [of 9002] by (simp add: Itoa_def)
  then show ?thesis
    by (simp add: announceable_def wire_name_def valid_utf8_plain plain_char_def valid_name_version_def control_char_def
        encode_eval quote_plain MaxBodyBytes_def)
qed

theorem heartbeat_heals_witness:
  "swarm_entry (snd (KeepAlive_ping swarm_scan swarm_announce swarm_ping
      ((NewKeepAlive 9002)\<lparr>ka_registered := True\<rparr>, demo_swarm NetUp Tracker_New))) = Some (9002, {''zip-3''})"
proof -
  let ?k = "(NewKeepAlive 9002)\<lparr>ka_registered := True\<rparr>" and ?sw = "demo_swarm NetUp Tracker_New"
  obtain k' sw' where h: "KeepAlive_ping swarm_scan swarm_announce swarm_ping (?k, ?sw) = (k', sw')" by fastforce
  obtain sw1 where s: "swarm_scan ?sw = (Some [''zip-3''], sw1)" using demo_swarm_scan by blast
  have inv: "swarm_inv ?sw" unfolding Tracker_New_def by (rule demo_swarm_inv [OF NewWithTimeout_server_inv])
  have "\<not> swarm_live ?sw" by (auto simp: swarm_live_def Tracker_New_def NewWithTimeout_def)
  then show ?thesis
    using heartbeat_heals [OF inv _ _ s _ h] demo_announceable h
    by (simp add: NewKeepAlive_def announceable_def wire_name_def proto_consts MaxBodyBytes_def)
qed

definition demo_holders :: "string \<Rightarrow> Tracker" where
  "demo_holders ip = Tracker_Announce [] ip \<lparr>ServingPort = 9002, Packages = [''zip-3'']\<rparr> 0 (NewWithTimeout 60)"

lemma demo_holders_inv: "server_inv (demo_holders ip)"
proof -
  have "tracker_inv (demo_holders ip)"
    unfolding demo_holders_def by (rule Announce_inv [OF NewWithTimeout_inv]) (simp add: pkgs_of_def NewWithTimeout_def)
  moreover have "tr_peers (demo_holders ip) ip' = Some rec \<Longrightarrow> record_ok rec" for ip' rec
    by (auto simp: demo_holders_def Announce_peers spec_Announce_def NewWithTimeout_def record_ok_def
        valid_name_version_def control_char_def valid_utf8_plain plain_char_def split: if_splits)
  ultimately show ?thesis by (simp add: server_inv_def)
qed

lemma demo_holders_live: "live_holders (tr_peers (demo_holders ip)) ''zip-3'' 50 = {ip}"
  by (auto simp: live_holders_def demo_holders_def Announce_peers spec_Announce_def NewWithTimeout_def)

lemma zip_name: "valid_name_version ''zip-3''"
  by (simp add: valid_name_version_def control_char_def)

theorem client_lookup_exact_witness:
  "fst (swarm_peers ''zip-3'' (demo_swarm NetUp (demo_holders ''::1''))) = Inr [''[::1]:9002'']"
proof -
  let ?sw = "demo_swarm NetUp (demo_holders ''::1'')"
  have "v6_loop (Suc 7) [] (Some 0) ''1'' = Some (hex_group ''1'', Some 0, [])"
    unfolding v6_loop.simps by (simp add: is_hex_def hex_digit_def)
  then have "v6_loop 8 [] (Some 0) ''1'' = Some (hex_group ''1'', Some 0, [])" by simp
  then have "parseIPv6 ''::1'' \<noteq> None" by (simp add: parseIPv6_def HasPrefix_def hex_group_def Let_def)
  then have d: "dialable ''::1''" by (simp add: dialable_def ParseIP_def)
  have w: "list_all plain_char ''::1'' \<and> length ''::1'' \<le> 45" by (simp add: plain_char_def)
  have r: "rec_ServingPort (the (tr_peers (demo_holders ''::1'') ''::1'')) = 9002"
    by (simp add: demo_holders_def Announce_peers spec_Announce_def NewWithTimeout_def)
  have i: "Itoa 9002 = ''9002''" by (simp add: Itoa_def nat_dec.simps digit_char_def char_of_def bit_iff_odd)
  define ps where "ps = Tracker_Peers (sw_order ?sw (holders_of (sw_server ?sw) ''zip-3'')) ''zip-3'' (sw_now ?sw) (sw_server ?sw)"
  have "swarm_peers ''zip-3'' ?sw =
      (case find (\<lambda>p. ParseIP (IP p) = None) ps of
         Some p \<Rightarrow> Inl (ErrResponseInvalid (ErrBadIP (IP p)))
       | None \<Rightarrow> Inr (map (\<lambda>p. JoinHostPort (IP p) (Itoa (Port p))) ps), ?sw) \<and>
      distinct (map IP ps) \<and> length ps = min 3 (card {''::1''}) \<and>
      (\<forall>p \<in> set ps. IP p \<in> {''::1''} \<and> Port p = rec_ServingPort (the (tr_peers (demo_holders ''::1'') (IP p))))"
    using client_lookup_exact [OF demo_swarm_inv [OF demo_holders_inv [of "''::1''"]], of NetUp "''zip-3''"] w zip_name
    unfolding ps_def demo_swarm_sel demo_holders_live Let_def by blast
  then have ps: "swarm_peers ''zip-3'' ?sw =
      (case find (\<lambda>p. ParseIP (IP p) = None) ps of
         Some p \<Rightarrow> Inl (ErrResponseInvalid (ErrBadIP (IP p)))
       | None \<Rightarrow> Inr (map (\<lambda>p. JoinHostPort (IP p) (Itoa (Port p))) ps), ?sw)"
    "length ps = 1" "\<forall>p \<in> set ps. IP p = ''::1'' \<and> Port p = 9002"
    using r by auto
  then obtain p where "ps = [p]" "IP p = ''::1''" "Port p = 9002" by (cases ps) auto
  then show ?thesis using ps(1) d i by (simp add: JoinHostPort_def dialable_def)
qed

theorem unparsable_holder_blocks_lookups_witness:
  "\<exists>ip. fst (swarm_peers ''zip-3'' (demo_swarm NetUp (demo_holders ''fe80::1%em0''))) = Inl (ErrResponseInvalid (ErrBadIP ip))"
proof -
  have p: "ParseIP ''fe80::1%em0'' = None"
    using ParseIP_chars [of "''fe80::1%em0''"] by (cases "ParseIP ''fe80::1%em0''") (auto simp: ip_char_def is_hex_def hex_digit_def)
  have w: "wire_ip ''fe80::1%em0''" by (simp add: wire_ip_def plain_char_def)
  show ?thesis
    using unparsable_holder_blocks_lookups [OF demo_swarm_inv [OF demo_holders_inv [of "''fe80::1%em0''"]], of NetUp "''zip-3''" "''fe80::1%em0''"]
      p w zip_name by (simp add: demo_holders_live) (metis fst_conv)
qed

end
