(* ===== verification/Repo_Watcher.thy ===== *)
theory Repo_Watcher
  imports Repo_DB
begin

text \<open>
  The repository-database watcher (\<open>src/internal/daemon/repowatcher.go\<close>): file events arm a settle
  timer, the timer reloads the catalogue, and a successful reload nudges the keep-alive.

  The select loop is the step relation \<open>rw_step\<close>; every step carries the time it happens at, and a
  timer that has expired may lose the race against another event, as it may in a select.  What is
  reloaded is a parameter with one law, stated by the locale \<open>reloadable\<close> and discharged by
  \<open>Repositories.Reload\<close>.  The file system and the databases at the moment of a reload, and which
  directories \<open>fsnotify\<close> accepts, come with the step.
\<close>

definition repoSettleDelay :: int where "repoSettleDelay = 2 * 10 ^ 9"

definition ignoredNames :: "string set" where
  "ignoredNames = {''lock'', ''meta''}"

subsection \<open>The watch set\<close>

datatype watch_error = RwStat | RwNotDir | RwWalk | RwFsnotify

text \<open>A directory that cannot be listed, or that \<open>fsnotify\<close> refuses, ends the walk; a file that vanished
  is skipped.  The directories added so far stay watched.\<close>

fun rw_walk :: "(string \<Rightarrow> bool) \<Rightarrow> string \<Rightarrow> node \<Rightarrow> string list \<times> bool"
  and rw_walk_entries :: "(string \<Rightarrow> bool) \<Rightarrow> string \<Rightarrow> (string \<times> node) list \<Rightarrow> string list \<times> bool" where
  "rw_walk add p (Directory listable es) =
     (if \<not> (listable \<and> add p) then ([], False)
      else (p # fst (rw_walk_entries add p es), snd (rw_walk_entries add p es)))"
| "rw_walk add p n = ([], True)"
| "rw_walk_entries add p [] = ([], True)"
| "rw_walk_entries add p ((x, n) # es) =
     (let (ws, ok) = rw_walk add (Join2 p x) n in
      if ok then (ws @ fst (rw_walk_entries add p es), snd (rw_walk_entries add p es)) else (ws, False))"

definition addWatches :: "node \<Rightarrow> (string \<Rightarrow> bool) \<Rightarrow> string \<Rightarrow> string list \<times> watch_error option" where
  "addWatches root add dir =
     (case os_Stat root dir of
        None \<Rightarrow> ([], Some RwStat)
      | Some n \<Rightarrow>
          if \<not> IsDir n then ([], Some RwNotDir)
          else case os_Lstat root dir of
            None \<Rightarrow> ([], None)
          | Some n' \<Rightarrow>
              (let (ws, ok) = rw_walk add dir n' in (ws, if ok then None else Some RwWalk)))"

subsection \<open>The loop\<close>

record 'c rw_state =
  rw_dir :: string
  rw_settle :: int
  rw_timer :: "int option"     \<comment> \<open>when the pending timer fires\<close>
  rw_cat :: 'c                 \<comment> \<open>what \<open>reload\<close> replaces\<close>
  rw_watched :: "string set"
  rw_nudges :: nat             \<comment> \<open>calls of \<open>onReload\<close>\<close>
  rw_running :: bool

record rw_world =
  rww_root :: node
  rww_db :: sqlite
  rww_order :: "string \<Rightarrow> string list"
  rww_add :: "string \<Rightarrow> bool"

type_synonym ('c, 'e) reload_op = "rw_world \<Rightarrow> 'c \<Rightarrow> 'e option \<times> 'c"

definition NewRepoWatcher :: "string \<Rightarrow> 'c \<Rightarrow> 'c rw_state" where
  "NewRepoWatcher dir cat =
     \<lparr>rw_dir = dir, rw_settle = repoSettleDelay, rw_timer = None, rw_cat = cat, rw_watched = {},
      rw_nudges = 0, rw_running = False\<rparr>"

definition RepoWatcher_Start :: "bool \<Rightarrow> rw_world \<Rightarrow> 'c rw_state \<Rightarrow> watch_error option \<times> 'c rw_state" where
  "RepoWatcher_Start can_create w s =
     (if \<not> can_create then (Some RwFsnotify, s)
      else case addWatches (rww_root w) (rww_add w) (rw_dir s) of
        (ws, Some e) \<Rightarrow> (Some e, s)
      | (ws, None) \<Rightarrow> (None, s\<lparr>rw_watched := set ws, rw_running := True\<rparr>))"

definition RepoWatcher_Stop :: "'c rw_state \<Rightarrow> 'c rw_state" where
  "RepoWatcher_Stop s = s\<lparr>rw_timer := None, rw_watched := {}, rw_running := False\<rparr>"

definition rw_on_event :: "string \<Rightarrow> int \<Rightarrow> 'c rw_state \<Rightarrow> 'c rw_state" where
  "rw_on_event name now s =
     (if Base name \<in> ignoredNames then s else s\<lparr>rw_timer := Some (now + rw_settle s)\<rparr>)"

definition reloadNow :: "('c, 'e) reload_op \<Rightarrow> rw_world \<Rightarrow> 'c rw_state \<Rightarrow> 'c rw_state" where
  "reloadNow reload w s =
     (let (err, cat) = reload w (rw_cat s);
          s1 = s\<lparr>rw_cat := cat,
                 rw_watched := rw_watched s \<union> set (fst (addWatches (rww_root w) (rww_add w) (rw_dir s)))\<rparr>
      in if err \<noteq> None then s1 else s1\<lparr>rw_nudges := Suc (rw_nudges s1)\<rparr>)"

datatype rw_event = RwEvent int string | RwFire int rw_world | RwError int | RwStop int

inductive rw_step :: "('c, 'e) reload_op \<Rightarrow> 'c rw_state \<Rightarrow> rw_event \<Rightarrow> 'c rw_state \<Rightarrow> bool" for reload where
  rw_event: "rw_running s \<Longrightarrow> rw_step reload s (RwEvent now name) (rw_on_event name now s)"
| rw_fire: "rw_running s \<Longrightarrow> rw_timer s = Some d \<Longrightarrow> d \<le> now \<Longrightarrow>
    rw_step reload s (RwFire now w) (reloadNow reload w (s\<lparr>rw_timer := None\<rparr>))"
| rw_error: "rw_running s \<Longrightarrow> rw_step reload s (RwError now) s"
| rw_stop: "rw_step reload s (RwStop now) (RepoWatcher_Stop s)"

inductive_cases rw_fireE: "rw_step reload s (RwFire now w) s'"

inductive_simps rw_fire_iff: "rw_step reload s (RwFire now w) s'"

text \<open>The change a run still owes a reload: the time of the latest counted event since the last one.\<close>

fun rw_pending :: "rw_event list \<Rightarrow> int option \<Rightarrow> int option" where
  "rw_pending [] p = p"
| "rw_pending (RwEvent now name # es) p = rw_pending es (if Base name \<in> ignoredNames then p else Some now)"
| "rw_pending (RwFire now w # es) p = rw_pending es None"
| "rw_pending (RwError now # es) p = rw_pending es p"
| "rw_pending (RwStop now # es) p = rw_pending es None"

definition rw_changes :: "rw_event list \<Rightarrow> nat" where
  "rw_changes es = length (filter (\<lambda>e. case e of RwEvent now name \<Rightarrow> Base name \<notin> ignoredNames | _ \<Rightarrow> False) es)"

definition rw_fires :: "rw_event list \<Rightarrow> nat" where
  "rw_fires es = length (filter (\<lambda>e. case e of RwFire now w \<Rightarrow> True | _ \<Rightarrow> False) es)"

lemma rw_step_frame: "rw_step reload s e s' \<Longrightarrow> rw_settle s' = rw_settle s \<and> rw_dir s' = rw_dir s"
  by (cases rule: rw_step.cases) (auto simp: rw_on_event_def reloadNow_def RepoWatcher_Stop_def Let_def split_beta)

lemma rw_timer_pending:
  assumes "run (rw_step reload) s es s'" "rw_timer s = map_option (\<lambda>t. t + rw_settle s) p"
  shows "rw_timer s' = map_option (\<lambda>t. t + rw_settle s) (rw_pending es p) \<and> rw_settle s' = rw_settle s"
  using assms
proof (induction arbitrary: p rule: run.induct)
  case (run_Cons s e s' es s'')
  have f: "rw_settle s' = rw_settle s" using rw_step_frame run_Cons(1) by blast
  from run_Cons(1) show ?case
  proof (cases rule: rw_step.cases)
    case (rw_event now name)
    then show ?thesis using run_Cons.IH [of "if Base name \<in> ignoredNames then p else Some now"] run_Cons.prems f
      by (auto simp: rw_on_event_def split: if_splits)
  next
    case (rw_fire d now w)
    have "rw_timer s' = None" using rw_fire by (simp add: reloadNow_def Let_def split_beta)
    then show ?thesis using run_Cons.IH [of None] f rw_fire by simp
  next
    case (rw_error now)
    then show ?thesis using run_Cons.IH [of p] run_Cons.prems f by simp
  next
    case (rw_stop now)
    then show ?thesis using run_Cons.IH [of None] f by (simp add: RepoWatcher_Stop_def)
  qed
qed simp

text \<open>Every reload is paid for by a counted change of its own.\<close>

lemma rw_fires_le:
  assumes "run (rw_step reload) s es s'"
  shows "rw_fires es + (if rw_timer s' = None then 0 else 1) \<le> rw_changes es + (if rw_timer s = None then 0 else 1)"
  using assms
proof (induction rule: run.induct)
  case (run_Cons s e s' es s'')
  from run_Cons(1) show ?case
  proof (cases rule: rw_step.cases)
    case (rw_event now name)
    then show ?thesis using run_Cons.IH by (auto simp: rw_on_event_def rw_fires_def rw_changes_def split: if_splits)
  next
    case (rw_fire d now w)
    then have "rw_timer s' = None" by (simp add: reloadNow_def Let_def split_beta)
    then show ?thesis using run_Cons.IH rw_fire by (simp add: rw_fires_def rw_changes_def)
  next
    case (rw_stop now)
    then show ?thesis using run_Cons.IH by (auto simp: RepoWatcher_Stop_def rw_fires_def rw_changes_def split: if_splits)
  qed (use run_Cons.IH in \<open>auto simp: rw_fires_def rw_changes_def\<close>)
qed (simp add: rw_fires_def rw_changes_def)

subsection \<open>What is reloaded\<close>

locale reloadable =
  fixes reload :: "('c, 'e) reload_op"
  assumes failed_keeps: "reload w c = (Some e, c') \<Longrightarrow> c' = c"
begin

lemma fire_result:
  assumes "rw_step reload s (RwFire now w) s'"
  shows "(case fst (reload w (rw_cat s)) of
      Some e \<Rightarrow> rw_cat s' = rw_cat s \<and> rw_nudges s' = rw_nudges s
    | None \<Rightarrow> rw_cat s' = snd (reload w (rw_cat s)) \<and> rw_nudges s' = Suc (rw_nudges s))"
  using assms failed_keeps [of w "rw_cat s"]
  by (cases "reload w (rw_cat s)") (auto simp: rw_fire_iff reloadNow_def Let_def split: option.splits)

lemma only_fires_change:
  "rw_step reload s e s' \<Longrightarrow> (\<And>now w. e \<noteq> RwFire now w) \<Longrightarrow> rw_cat s' = rw_cat s \<and> rw_nudges s' = rw_nudges s"
  by (cases rule: rw_step.cases) (auto simp: rw_on_event_def RepoWatcher_Stop_def)

end

definition repo_reload :: "(Repositories, reload_error) reload_op" where
  "repo_reload w r = Reload (rww_root w) (rww_db w) (rww_order w) r"

interpretation repos: reloadable repo_reload
  by unfold_locales (auto simp: repo_reload_def Reload_def Let_def split: option.splits if_splits sum.splits)

subsection \<open>Reloading is reopening\<close>

lemma Reload_reopens:
  "Reload root db order r =
     (case OpenRepositories root db order (repo_dir r) of Inl e \<Rightarrow> (Some e, r) | Inr r' \<Rightarrow> (None, r'))"
  by (auto simp: OpenRepositories_def Reload_def Let_def split: option.splits if_splits sum.splits)

lemma OpenRepositories_dir: "OpenRepositories root db order d = Inr r \<Longrightarrow> repo_dir r = d"
  by (auto simp: OpenRepositories_def Reload_def Let_def split: option.splits if_splits sum.splits)

text \<open>The catalogues a daemon started afresh at each reload of a run would open.\<close>

definition reopened :: "string \<Rightarrow> rw_event list \<Rightarrow> Repositories list" where
  "reopened d es = List.map_filter (\<lambda>e. case e of
       RwFire now w \<Rightarrow> (case OpenRepositories (rww_root w) (rww_db w) (rww_order w) d of
                         Inl _ \<Rightarrow> None | Inr r \<Rightarrow> Some r)
     | _ \<Rightarrow> None) es"

lemma reopened_simps [simp]:
  "reopened d [] = []"
  "reopened d (RwEvent now name # es) = reopened d es"
  "reopened d (RwError now # es) = reopened d es"
  "reopened d (RwStop now # es) = reopened d es"
  "reopened d (RwFire now w # es) =
     (case OpenRepositories (rww_root w) (rww_db w) (rww_order w) d of
        Inl _ \<Rightarrow> [] | Inr r \<Rightarrow> [r]) @ reopened d es"
  by (auto simp: reopened_def map_filter_simps split: sum.splits)

lemma fire_reopens:
  assumes "rw_step repo_reload s (RwFire now w) s'" "repo_dir (rw_cat s) = d"
  shows "(case OpenRepositories (rww_root w) (rww_db w) (rww_order w) d of
      Inl _ \<Rightarrow> rw_cat s' = rw_cat s \<and> rw_nudges s' = rw_nudges s
    | Inr r \<Rightarrow> rw_cat s' = r \<and> rw_nudges s' = Suc (rw_nudges s))"
  using repos.fire_result [OF assms(1)] assms(2)
  by (auto simp: repo_reload_def Reload_reopens split: sum.splits option.splits)

text \<open>
  C21: The catalogue a running daemon serves from is, at every moment, exactly the one a daemon
  started at the latest successful reload would have opened; a reload that fails leaves the previous
  one in place.  The keep-alive is nudged once for each catalogue taken over and for nothing else.\<close>

theorem repo_watcher_reload_is_reopen:
  assumes "run (rw_step repo_reload) s es s'" "repo_dir (rw_cat s) = d"
  shows "rw_cat s' = last (rw_cat s # reopened d es) \<and>
    rw_nudges s' = rw_nudges s + length (reopened d es)"
  using assms
proof (induction rule: run.induct)
  case (run_Cons s e s' es s'')
  show ?case
  proof (cases e)
    case (RwFire now w)
    with run_Cons(1) have step: "rw_step repo_reload s (RwFire now w) s'" by simp
    from fire_reopens [OF this run_Cons.prems] show ?thesis
      using run_Cons.IH run_Cons.prems OpenRepositories_dir [of "rww_root w" "rww_db w" "rww_order w" d]
      by (auto simp: RwFire split: sum.splits)
  next
    case (RwEvent now name)
    with repos.only_fires_change [OF run_Cons(1)] run_Cons.IH run_Cons.prems show ?thesis by auto
  next
    case (RwError now)
    with repos.only_fires_change [OF run_Cons(1)] run_Cons.IH run_Cons.prems show ?thesis by auto
  next
    case (RwStop now)
    with repos.only_fires_change [OF run_Cons(1)] run_Cons.IH run_Cons.prems show ?thesis by auto
  qed
qed simp

text \<open>
  C22: The settle timer debounces and cannot lose a change: after any run of the loop from a quiet
  start, a reload can happen at a time exactly when the watcher is running, some counted change has
  not been followed by a reload, and the latest such change is at least the settle delay old; and
  there are never more reloads than counted changes, so changes to \<open>lock\<close> and \<open>meta\<close> alone reload nothing.\<close>

theorem repo_watcher_settles:
  assumes "run (rw_step repo_reload) s es s'" "rw_timer s = None"
  shows "((\<exists>s''. rw_step repo_reload s' (RwFire now w) s'') \<longleftrightarrow>
      rw_running s' \<and> (\<exists>t. rw_pending es None = Some t \<and> t + rw_settle s \<le> now)) \<and>
    rw_fires es \<le> rw_changes es"
proof

  show "(\<exists>s''. rw_step repo_reload s' (RwFire now w) s'') \<longleftrightarrow>
      rw_running s' \<and> (\<exists>t. rw_pending es None = Some t \<and> t + rw_settle s \<le> now)"
    using rw_timer_pending [OF assms(1), of None] assms(2) by (auto simp: rw_fire_iff)
  show "rw_fires es \<le> rw_changes es"
    using rw_fires_le [OF assms(1)] assms(2) by (simp split: if_splits)
qed

subsection \<open>A linked database directory\<close>

text \<open>
  \<open>repo_db_dir\<close> may be a symbolic link as far as \<open>os.Stat\<close> and \<open>os.ReadDir\<close> are concerned, but the
  walk does not follow it: the watcher starts, watches nothing and never reloads.\<close>

lemma linked_directory_is_not_watched:
  assumes "os_Stat (rww_root w) (rw_dir s) = Some d" "IsDir d" "os_Lstat (rww_root w) (rw_dir s) = Some (Symlink t)"
  shows "RepoWatcher_Start True w s = (None, s\<lparr>rw_watched := {}, rw_running := True\<rparr>)"
  using assms by (simp add: RepoWatcher_Start_def addWatches_def)

text \<open>A directory that is missing or is a file is refused, never created.\<close>

lemma Start_needs_directory:
  assumes "RepoWatcher_Start c w s = (None, s')"
  shows "\<exists>d. os_Stat (rww_root w) (rw_dir s) = Some d \<and> IsDir d"
  using assms by (auto simp: RepoWatcher_Start_def addWatches_def split: option.splits if_splits prod.splits)

subsection \<open>Witnesses\<close>

definition demo_world :: rw_world where
  "demo_world = \<lparr>rww_root = demo_repo_root, rww_db = demo_sqlite, rww_order = \<lambda>_. [''zip-3''], rww_add = \<lambda>_. True\<rparr>"

definition demo_watching :: "Repositories rw_state" where
  "demo_watching = (NewRepoWatcher ''/r'' demo_repo)\<lparr>rw_running := True\<rparr>"

lemma demo_watching_simps [simp]:
  "rw_timer demo_watching = None" "rw_settle demo_watching = 2000000000" "rw_running demo_watching"
  "rw_cat demo_watching = demo_repo" "rw_nudges demo_watching = 0"
  by (simp_all add: demo_watching_def NewRepoWatcher_def repoSettleDelay_def)

text \<open>\<open>lock\<close> is touched at 0 and \<open>db\<close> at 5 seconds.\<close>

definition demo_touch :: "rw_event list" where
  "demo_touch = [RwEvent 0 ''/r/jmj/lock'', RwEvent 5000000000 ''/r/jmj/db'']"

lemma demo_base: "Base ''/r/jmj/lock'' = ''lock''" "Base ''/r/jmj/db'' = ''db''" by code_simp+

lemma demo_touch_run:
  "run (rw_step repo_reload) demo_watching demo_touch (demo_watching\<lparr>rw_timer := Some 7000000000\<rparr>)"
proof -
  have "rw_step repo_reload demo_watching (RwEvent 0 ''/r/jmj/lock'') demo_watching"
    using rw_step.rw_event [of demo_watching repo_reload 0 "''/r/jmj/lock''"]
    by (simp add: rw_on_event_def demo_base ignoredNames_def)
  moreover have "rw_step repo_reload demo_watching (RwEvent 5000000000 ''/r/jmj/db'')
      (demo_watching\<lparr>rw_timer := Some 7000000000\<rparr>)"
    using rw_step.rw_event [of demo_watching repo_reload 5000000000 "''/r/jmj/db''"]
    by (simp add: rw_on_event_def demo_base ignoredNames_def)
  ultimately show ?thesis unfolding demo_touch_def by (blast intro: run.intros)
qed

theorem repo_watcher_settles_witness:
  "(\<exists>s''. rw_step repo_reload (demo_watching\<lparr>rw_timer := Some 7000000000\<rparr>) (RwFire 7000000000 demo_world) s'') \<and>
   \<not> (\<exists>s''. rw_step repo_reload (demo_watching\<lparr>rw_timer := Some 7000000000\<rparr>) (RwFire 6999999999 demo_world) s'')"
  using repo_watcher_settles [OF demo_touch_run, where w = demo_world and now = 7000000000]
    repo_watcher_settles [OF demo_touch_run, where w = demo_world and now = 6999999999]
  by (simp add: demo_touch_def demo_base ignoredNames_def)

theorem repo_watcher_reload_is_reopen_witness:
  "\<exists>s' r. run (rw_step repo_reload) (demo_watching\<lparr>rw_timer := Some 7\<rparr>) [RwFire 7 demo_world] s' \<and>
     OpenRepositories demo_repo_root demo_sqlite (\<lambda>_. [''zip-3'']) ''/r'' = Inr r \<and>
     rw_cat s' = r \<and> rw_nudges s' = 1"
proof -
  let ?s = "demo_watching\<lparr>rw_timer := Some 7\<rparr>"
  obtain r where "Reload demo_repo_root demo_sqlite (\<lambda>_. [''zip-3'']) demo_repo = (None, r)"
    using demo_reload_ok by blast
  then have r: "OpenRepositories demo_repo_root demo_sqlite (\<lambda>_. [''zip-3'']) ''/r'' = Inr r"
    by (simp add: Reload_reopens demo_repo_def split: sum.splits)
  obtain s' where "rw_step repo_reload ?s (RwFire 7 demo_world) s'"
    using rw_step.rw_fire [of ?s 7 7 repo_reload demo_world] by auto
  then have run: "run (rw_step repo_reload) ?s [RwFire 7 demo_world] s'" by (blast intro: run.intros)
  from repo_watcher_reload_is_reopen [OF run, of "''/r''"] r have "rw_cat s' = r \<and> rw_nudges s' = 1"
    by (simp add: demo_repo_def demo_world_def)
  then show ?thesis by (intro exI [of _ s'] exI [of _ r] conjI r run) simp_all
qed

end
