(* ===== verification/Daemon.thy ===== *)
theory Daemon
  imports Facade Config Discovery Repo_Watcher
begin

text \<open>
  The daemon (\<open>src/internal/daemon/daemon.go\<close>) and the daemon mode of \<open>src/cmd/jmj/main.go\<close>: what is
  started in which order, what a SIGHUP replaces and what it keeps, and what shutting down releases.

  The fields of \<open>Daemon\<close> are pointers into the process: each names an object that was created with a
  fresh number.  The process (\<open>pc_\<close> fields) knows the objects that are \<^emph>\<open>running\<close>: a watcher whose loop
  runs, a keep-alive whose loop has not been told to end, an HTTP server that has not been closed, a
  bound listener.  Catalogues are mutable objects shared by pointer, as in the code, so a reload by the
  repository watcher is seen through every pointer to the same catalogue.  A channel with room for
  one value is in \<open>pc_pending\<close> while the value waits.

  The machine (files, databases, \<open>fsnotify\<close>, which addresses can be bound) is \<open>daemon_env\<close>, given anew to
  every operation.  Log output is left out.  What each component does while it runs is the subject
  of the component's own theory.
\<close>

subsection \<open>State\<close>

record cache_watch =
  cw_dir :: string
  cw_repo :: "nat option"
  cw_chan :: nat

record repo_watch =
  pr_dir :: string
  pr_repo :: nat
  pr_chan :: nat

record keep_alive =
  pk_tracker :: string
  pk_port :: int
  pk_watcher :: nat
  pk_chan :: nat

record http_server =
  hs_addr :: string
  hs_client :: "string option"   \<comment> \<open>a client is its tracker URL\<close>
  hs_repo :: "nat option"
  hs_temp :: string
  hs_upstream :: string
  hs_blacklist :: Blacklist
  hs_listening :: bool

record seeder =
  sd_source :: CacheSource
  sd_global :: int
  sd_perIP :: int
  sd_listener :: nat

record process =
  pc_next :: nat
  pc_repos :: "nat \<rightharpoonup> Repositories"
  pc_pending :: "nat set"
  pc_watchers :: "nat \<rightharpoonup> cache_watch"
  pc_repoWatchers :: "nat \<rightharpoonup> repo_watch"
  pc_keepalives :: "nat \<rightharpoonup> keep_alive"
  pc_http :: "nat \<rightharpoonup> http_server"
  pc_seeders :: "nat \<rightharpoonup> seeder"
  pc_listeners :: "nat \<rightharpoonup> string"

record Daemon = process +
  d_config :: DaemonConfig
  d_client :: "string option"
  d_watcher :: "nat option"
  d_repoWatcher :: "nat option"
  d_repo :: "nat option"
  d_done :: "nat option"         \<comment> \<open>the keep-alive the channel stops\<close>
  d_httpServer :: "nat option"
  d_seedServer :: "nat option"
  d_seedListener :: "nat option"
  d_reannounce :: "nat option"   \<comment> \<open>the channel the closure sends to\<close>
  d_running :: bool

record daemon_env =
  de_tmp :: string
  de_legacy :: "string list"
  de_file :: config_file
  de_host :: host_env
  de_abi :: "string option"
  de_world :: rw_world
  de_cw_create :: bool
  de_cw_add :: "string \<Rightarrow> bool"
  de_rw_create :: bool
  de_bind :: "string \<Rightarrow> bool"

datatype daemon_error =
    DeConfig config_error
  | DeRepository reload_error
  | DePort config_error
  | DeCacheWatcher start_error
  | DeRepoWatcher watch_error
  | DeFacade check_error
  | DeNoCacheDir
  | DeServingAddr string

type_synonym daemon_result = "daemon_error option \<times> Daemon"

text \<open>The early return: go on with \<open>f\<close> unless an error has been returned.\<close>

definition and_then :: "daemon_result \<Rightarrow> (Daemon \<Rightarrow> daemon_result) \<Rightarrow> daemon_result" where
  "and_then r f = (case r of (Some err, d) \<Rightarrow> (Some err, d) | (None, d) \<Rightarrow> f d)"

definition if_stale :: "bool \<Rightarrow> (Daemon \<Rightarrow> daemon_result) \<Rightarrow> Daemon \<Rightarrow> daemon_result" where
  "if_stale b f d = (if b then f d else (None, d))"

text \<open>Removing what a pointer names, when it is set.\<close>

definition drop_at :: "nat option \<Rightarrow> (nat \<rightharpoonup> 'a) \<Rightarrow> nat \<rightharpoonup> 'a" where
  "drop_at p m = (case p of None \<Rightarrow> m | Some i \<Rightarrow> m(i := None))"

definition new_Daemon :: "DaemonConfig \<Rightarrow> Daemon" where
  "new_Daemon cfg =
     \<lparr>pc_next = 0, pc_repos = Map.empty, pc_pending = {}, pc_watchers = Map.empty,
      pc_repoWatchers = Map.empty, pc_keepalives = Map.empty, pc_http = Map.empty,
      pc_seeders = Map.empty, pc_listeners = Map.empty,
      d_config = cfg, d_client = None, d_watcher = None, d_repoWatcher = None, d_repo = None,
      d_done = None, d_httpServer = None, d_seedServer = None, d_seedListener = None,
      d_reannounce = None, d_running = True\<rparr>"

subsection \<open>The catalogue\<close>

definition repository :: "Daemon \<Rightarrow> Repositories option" where
  "repository d = Option.bind (d_repo d) (pc_repos d)"

definition openRepositoriesLocked :: "daemon_env \<Rightarrow> Daemon \<Rightarrow> daemon_result" where
  "openRepositoriesLocked e d =
     (let w = de_world e in
      case OpenRepositories (rww_root w) (rww_db w) (rww_order w) (cf_RepoDBDir (d_config d)) of
        Inl err \<Rightarrow> (Some (DeRepository err), d)
      | Inr repo \<Rightarrow>
          (None, d\<lparr>d_repo := Some (pc_next d), pc_repos := (pc_repos d)(pc_next d \<mapsto> repo),
                   pc_next := Suc (pc_next d)\<rparr>))"

subsection \<open>Discovery\<close>

text \<open>The non-blocking send to a channel with room for one.\<close>

definition nudge :: "nat \<Rightarrow> Daemon \<Rightarrow> Daemon" where
  "nudge ch d = d\<lparr>pc_pending := insert ch (pc_pending d)\<rparr>"

definition size_view :: "Repositories option \<Rightarrow> size_db option" where
  "size_view repo = map_option ExpectedFileSizeBytes repo"

text \<open>The three parts of \<open>startDiscoveryLocked\<close>; each takes the number of the object it creates.\<close>

definition start_cache_watcher :: "daemon_env \<Rightarrow> nat \<Rightarrow> nat \<Rightarrow> Daemon \<Rightarrow> daemon_result" where
  "start_cache_watcher e ch wid d =
     (let c = d_config d; d = d\<lparr>d_reannounce := Some ch, d_watcher := Some wid\<rparr> in
      case Watcher_Start (de_cw_create e) (de_cw_add e) (rww_root (de_world e))
             (Watcher_New (cf_CacheDir c) (size_view (repository d))) of
        Inl err \<Rightarrow> (Some (DeCacheWatcher err), d)
      | Inr _ \<Rightarrow>
          (None, d\<lparr>pc_watchers := (pc_watchers d)(wid \<mapsto>
             \<lparr>cw_dir = cf_CacheDir c, cw_repo = d_repo d, cw_chan = ch\<rparr>)\<rparr>))"

definition start_repo_watcher :: "daemon_env \<Rightarrow> nat \<Rightarrow> nat \<Rightarrow> Daemon \<Rightarrow> daemon_result" where
  "start_repo_watcher e ch rid d =
     (case d_repo d of
        None \<Rightarrow> (None, d)
      | Some repo \<Rightarrow>
          (case RepoWatcher_Start (de_rw_create e) (de_world e) (NewRepoWatcher (cf_RepoDBDir (d_config d)) repo) of
             (Some err, _) \<Rightarrow>
               (Some (DeRepoWatcher err),
                d\<lparr>d_repoWatcher := None, pc_watchers := drop_at (d_watcher d) (pc_watchers d), d_watcher := None\<rparr>)
           | (None, _) \<Rightarrow>
               (None, d\<lparr>d_repoWatcher := Some rid, pc_repoWatchers := (pc_repoWatchers d)(rid \<mapsto>
                  \<lparr>pr_dir = cf_RepoDBDir (d_config d), pr_repo = repo, pr_chan = ch\<rparr>)\<rparr>)))"

definition start_keep_alive :: "int \<Rightarrow> nat \<Rightarrow> nat \<Rightarrow> nat \<Rightarrow> Daemon \<Rightarrow> Daemon" where
  "start_keep_alive port ch wid kid d =
     (let url = cf_TrackerURL (d_config d) in
      d\<lparr>d_client := Some url, d_done := Some kid,
        pc_keepalives := (pc_keepalives d)(kid \<mapsto>
          \<lparr>pk_tracker = url, pk_port = port, pk_watcher = wid, pk_chan = ch\<rparr>)\<rparr>)"

definition startDiscoveryLocked :: "daemon_env \<Rightarrow> Daemon \<Rightarrow> daemon_result" where
  "startDiscoveryLocked e d =
     (case config_ServingPort (d_config d) of
        Inl err \<Rightarrow> (Some (DePort err), d)
      | Inr port \<Rightarrow>
          let ch = pc_next d; wid = ch + 1; rid = ch + 2; kid = ch + 3
          in and_then (and_then
               (start_cache_watcher e ch wid (d\<lparr>pc_next := ch + 4\<rparr>))
               (start_repo_watcher e ch rid))
               (\<lambda>d. (None, start_keep_alive port ch wid kid d)))"

definition stopDiscoveryLocked :: "Daemon \<Rightarrow> Daemon" where
  "stopDiscoveryLocked d =
     d\<lparr>pc_keepalives := drop_at (d_done d) (pc_keepalives d), d_done := None, d_reannounce := None,
       pc_watchers := drop_at (d_watcher d) (pc_watchers d), d_watcher := None,
       pc_repoWatchers := drop_at (d_repoWatcher d) (pc_repoWatchers d), d_repoWatcher := None\<rparr>"

definition requestReannounce :: "Daemon \<Rightarrow> Daemon" where
  "requestReannounce d = (case d_reannounce d of None \<Rightarrow> d | Some ch \<Rightarrow> nudge ch d)"

subsection \<open>The seed server\<close>

definition stopSeedServerLocked :: "Daemon \<Rightarrow> Daemon" where
  "stopSeedServerLocked d =
     d\<lparr>pc_seeders := drop_at (d_seedServer d) (pc_seeders d), d_seedServer := None,
       pc_listeners := drop_at (d_seedListener d) (pc_listeners d), d_seedListener := None\<rparr>"

text \<open>An address can be bound when the machine allows it and no listener of the daemon holds it.\<close>

definition net_Listen :: "daemon_env \<Rightarrow> Daemon \<Rightarrow> string \<Rightarrow> bool" where
  "net_Listen e d addr \<longleftrightarrow>
     de_bind e addr \<and> addr \<notin> ran (pc_listeners d) \<and> addr \<notin> hs_addr ` {hs \<in> ran (pc_http d). hs_listening hs}"

definition startSeedServerLocked :: "daemon_env \<Rightarrow> Daemon \<Rightarrow> daemon_result" where
  "startSeedServerLocked e d =
     (let d = stopSeedServerLocked d; c = d_config d in
      if cf_CacheDir c = [] then (Some DeNoCacheDir, d)
      else if \<not> net_Listen e d (cf_ServingAddr c) then (Some (DeServingAddr (cf_ServingAddr c)), d)
      else
        let sid = pc_next d; lid = Suc sid
        in (None, d\<lparr>d_seedServer := Some sid, d_seedListener := Some lid,
                    pc_listeners := (pc_listeners d)(lid \<mapsto> cf_ServingAddr c),
                    pc_seeders := (pc_seeders d)(sid \<mapsto>
                      \<lparr>sd_source = NewCacheSource (cf_CacheDir c), sd_global = cf_MaxConcurrentSeeds c,
                       sd_perIP = cf_MaxConcurrentSeedsPerIP c, sd_listener = lid\<rparr>),
                    pc_next := Suc lid\<rparr>))"

subsection \<open>The facade's listener\<close>

text \<open>
  The facade of a server as the requests see it: the client's lookups, and whatever its catalogue
  pointer holds now.  A nil client would still be a non-nil interface value.
\<close>

definition facade_view :: "(string option \<Rightarrow> string \<Rightarrow> string list option) \<Rightarrow> Daemon \<Rightarrow> http_server \<Rightarrow> Facade" where
  "facade_view ask d hs =
     \<lparr>f_Peers = Some (ask (hs_client hs)), f_Repo = Option.bind (hs_repo hs) (pc_repos d),
      f_Blacklist = hs_blacklist hs, f_TempDir = hs_temp hs, f_UpstreamURL = hs_upstream hs\<rparr>"

definition startHTTPServerLocked :: "Daemon \<Rightarrow> daemon_result" where
  "startHTTPServerLocked d =
     (let d = d\<lparr>pc_http := drop_at (d_httpServer d) (pc_http d)\<rparr>; c = d_config d;
          hs = \<lparr>hs_addr = cf_FacadeAddr c, hs_client = d_client d, hs_repo = d_repo d,
                hs_temp = cf_TempDir c, hs_upstream = cf_UpstreamURL c, hs_blacklist = \<lparr>blocked = None\<rparr>,
                hs_listening = False\<rparr>
      in case Check (facade_view (\<lambda>_ _. None) d hs) of
           Some err \<Rightarrow> (Some (DeFacade err), d)
         | None \<Rightarrow>
             (None, d\<lparr>d_httpServer := Some (pc_next d), pc_http := (pc_http d)(pc_next d \<mapsto> hs),
                      pc_next := Suc (pc_next d)\<rparr>))"

text \<open>The goroutine that listens runs later, on the server the field names then; a failure is logged.\<close>

definition http_ListenAndServe :: "daemon_env \<Rightarrow> Daemon \<Rightarrow> Daemon" where
  "http_ListenAndServe e d =
     (case Option.bind (d_httpServer d) (pc_http d) of
        None \<Rightarrow> d
      | Some hs \<Rightarrow>
          if net_Listen e d (hs_addr hs)
          then d\<lparr>pc_http := (pc_http d)(the (d_httpServer d) \<mapsto> hs\<lparr>hs_listening := True\<rparr>)\<rparr> else d)"

subsection \<open>Start, reload, stop\<close>

definition Daemon_Start :: "daemon_env \<Rightarrow> DaemonConfig \<Rightarrow> daemon_result" where
  "Daemon_Start e cfg =
     and_then (and_then (and_then
       (openRepositoriesLocked e (new_Daemon cfg))
       (startDiscoveryLocked e))
       startHTTPServerLocked)
       (startSeedServerLocked e)"

text \<open>What \<open>main\<close> and \<open>Daemon.Reload\<close> both do to a configuration before they use it.\<close>

definition settle_config :: "daemon_env \<Rightarrow> DaemonConfig \<Rightarrow> config_error + DaemonConfig" where
  "settle_config e cfg =
     (case fst (Validate (de_host e) cfg) of
        Some err \<Rightarrow> Inl err
      | None \<Rightarrow> ExpandUpstream (de_abi e) cfg)"

definition new_config :: "daemon_env \<Rightarrow> config_error + DaemonConfig" where
  "new_config e =
     (case fst (Load (de_tmp e) (de_legacy e) (de_file e)) of
        Inl err \<Rightarrow> Inl err
      | Inr cfg \<Rightarrow> settle_config e cfg)"

definition facadeChanged :: "DaemonConfig \<Rightarrow> DaemonConfig \<Rightarrow> bool" where
  "facadeChanged c c' \<longleftrightarrow> cf_FacadeAddr c \<noteq> cf_FacadeAddr c'"
definition servingChanged :: "DaemonConfig \<Rightarrow> DaemonConfig \<Rightarrow> bool" where
  "servingChanged c c' \<longleftrightarrow> cf_ServingAddr c \<noteq> cf_ServingAddr c'"
definition trackerChanged :: "DaemonConfig \<Rightarrow> DaemonConfig \<Rightarrow> bool" where
  "trackerChanged c c' \<longleftrightarrow> cf_TrackerURL c \<noteq> cf_TrackerURL c'"
definition cacheChanged :: "DaemonConfig \<Rightarrow> DaemonConfig \<Rightarrow> bool" where
  "cacheChanged c c' \<longleftrightarrow> cf_CacheDir c \<noteq> cf_CacheDir c'"
definition repoDBChanged :: "DaemonConfig \<Rightarrow> DaemonConfig \<Rightarrow> bool" where
  "repoDBChanged c c' \<longleftrightarrow> cf_RepoDBDir c \<noteq> cf_RepoDBDir c'"
definition capsChanged :: "DaemonConfig \<Rightarrow> DaemonConfig \<Rightarrow> bool" where
  "capsChanged c c' \<longleftrightarrow>
     cf_MaxConcurrentSeeds c \<noteq> cf_MaxConcurrentSeeds c' \<or>
     cf_MaxConcurrentSeedsPerIP c \<noteq> cf_MaxConcurrentSeedsPerIP c'"

definition apply_config :: "daemon_env \<Rightarrow> DaemonConfig \<Rightarrow> Daemon \<Rightarrow> daemon_result" where
  "apply_config e newCfg d =
     (let c = d_config d;
          fc = facadeChanged c newCfg; sc = servingChanged c newCfg; tc = trackerChanged c newCfg;
          cc = cacheChanged c newCfg; rc = repoDBChanged c newCfg; caps = capsChanged c newCfg
      in and_then (and_then (and_then
           (if_stale rc (openRepositoriesLocked e) (d\<lparr>d_config := newCfg\<rparr>))
           (if_stale (tc \<or> sc \<or> cc \<or> rc) (\<lambda>d. startDiscoveryLocked e (stopDiscoveryLocked d))))
           (if_stale (fc \<or> tc \<or> rc) startHTTPServerLocked))
           (if_stale (sc \<or> cc \<or> caps \<or> tc \<or> rc) (startSeedServerLocked e)))"

definition Daemon_Reload :: "daemon_env \<Rightarrow> Daemon \<Rightarrow> daemon_result" where
  "Daemon_Reload e d =
     (case new_config e of
        Inl err \<Rightarrow> (Some (DeConfig err), d)
      | Inr newCfg \<Rightarrow> apply_config e newCfg d)"

definition Daemon_Stop :: "Daemon \<Rightarrow> Daemon" where
  "Daemon_Stop d =
     (let d = d\<lparr>d_running := False, pc_http := drop_at (d_httpServer d) (pc_http d)\<rparr>
      in stopDiscoveryLocked (stopSeedServerLocked d))"

text \<open>Daemon mode of \<open>main\<close>, up to the point where it parks.\<close>

definition boot :: "daemon_env \<Rightarrow> flags \<Rightarrow> daemon_error + daemon_result" where
  "boot e f =
     (case fst (Load (de_tmp e) (de_legacy e) (de_file e)) of
        Inl err \<Rightarrow> Inl (DeConfig err)
      | Inr cfg \<Rightarrow>
          (case settle_config e (applyOverrides f cfg) of
             Inl err \<Rightarrow> Inl (DeConfig err)
           | Inr cfg' \<Rightarrow> Inr (Daemon_Start e cfg')))"

subsection \<open>The daemon while it runs\<close>

datatype daemon_event =
    DmReload daemon_env "daemon_error option"
  | DmStop
  | DmListen daemon_env
  | DmCacheEvent nat
  | DmRepoFire nat rw_world
  | DmNotHeld nat
  | DmAnnounce nat

text \<open>
  The signal handler, the goroutine of the HTTP server, an event of a running cache watcher, the
  timer of a running repository watcher, a 404 of a running seeder, and a running keep-alive taking
  the value out of its channel.
\<close>

inductive daemon_step :: "Daemon \<Rightarrow> daemon_event \<Rightarrow> Daemon \<Rightarrow> bool" where
  dm_reload: "Daemon_Reload e d = (r, d') \<Longrightarrow> daemon_step d (DmReload e r) d'"
| dm_stop: "daemon_step d DmStop (Daemon_Stop d)"
| dm_listen: "daemon_step d (DmListen e) (http_ListenAndServe e d)"
| dm_cache: "pc_watchers d i = Some cw \<Longrightarrow> daemon_step d (DmCacheEvent i) (nudge (cw_chan cw) d)"
| dm_repo_ok: "pc_repoWatchers d i = Some rw \<Longrightarrow> pc_repos d (pr_repo rw) = Some r \<Longrightarrow>
    repo_reload w r = (None, r') \<Longrightarrow>
    daemon_step d (DmRepoFire i w) (nudge (pr_chan rw) (d\<lparr>pc_repos := (pc_repos d)(pr_repo rw \<mapsto> r')\<rparr>))"
| dm_repo_failed: "pc_repoWatchers d i = Some rw \<Longrightarrow> pc_repos d (pr_repo rw) = Some r \<Longrightarrow>
    repo_reload w r = (Some err, r') \<Longrightarrow>
    daemon_step d (DmRepoFire i w) (d\<lparr>pc_repos := (pc_repos d)(pr_repo rw \<mapsto> r')\<rparr>)"
| dm_not_held: "pc_seeders d i = Some sd \<Longrightarrow> daemon_step d (DmNotHeld i) (requestReannounce d)"
| dm_announce: "pc_keepalives d i = Some ka \<Longrightarrow> pk_chan ka \<in> pc_pending d \<Longrightarrow>
    daemon_step d (DmAnnounce i) (d\<lparr>pc_pending := pc_pending d - {pk_chan ka}\<rparr>)"

inductive_cases dm_reloadE: "daemon_step d (DmReload e r) d'"
inductive_cases dm_repo_fireE: "daemon_step d (DmRepoFire i w) d'"

subsection \<open>Nothing runs that the daemon does not know\<close>

definition owned :: "nat option \<Rightarrow> (nat \<rightharpoonup> 'a) \<Rightarrow> bool" where
  "owned p m \<longleftrightarrow> dom m \<subseteq> set_option p"

text \<open>What runs is what the daemon points to; watchers share the daemon's catalogue.\<close>

definition daemon_inv :: "Daemon \<Rightarrow> bool" where
  "daemon_inv d \<longleftrightarrow>
     owned (d_watcher d) (pc_watchers d) \<and> owned (d_repoWatcher d) (pc_repoWatchers d) \<and>
     owned (d_done d) (pc_keepalives d) \<and> owned (d_httpServer d) (pc_http d) \<and>
     owned (d_seedServer d) (pc_seeders d) \<and> owned (d_seedListener d) (pc_listeners d)"

definition idle :: "Daemon \<Rightarrow> bool" where
  "idle d \<longleftrightarrow>
     pc_watchers d = Map.empty \<and> pc_repoWatchers d = Map.empty \<and> pc_keepalives d = Map.empty \<and>
     pc_http d = Map.empty \<and> pc_seeders d = Map.empty \<and> pc_listeners d = Map.empty"

lemma drop_owned [simp]: "owned p m \<Longrightarrow> drop_at p m = Map.empty"
  by (cases p) (auto simp: owned_def drop_at_def dom_def fun_eq_iff)

lemma owned_empty [simp]: "owned p Map.empty"
  by (simp add: owned_def)

lemma owned_single [simp]: "owned (Some i) [i \<mapsto> x]"
  by (simp add: owned_def)

lemma owned_upd [simp]: "owned (Some i) m \<Longrightarrow> owned (Some i) (m(i \<mapsto> x))"
  by (auto simp: owned_def)

lemma and_then_keeps:
  "P (snd r) \<Longrightarrow> (\<And>d. P d \<Longrightarrow> P (snd (f d))) \<Longrightarrow> P (snd (and_then r f))"
  by (cases r) (auto simp: and_then_def split: option.splits)

lemma and_then_None:
  "and_then r f = (None, d') \<longleftrightarrow> (\<exists>d. r = (None, d) \<and> f d = (None, d'))"
  by (cases r) (auto simp: and_then_def split: option.splits)

lemma if_stale_keeps: "P d \<Longrightarrow> (P d \<Longrightarrow> P (snd (f d))) \<Longrightarrow> P (snd (if_stale b f d))"
  by (auto simp: if_stale_def)

lemma if_stale_None:
  "if_stale b f d = (None, d') \<longleftrightarrow> (if b then f d = (None, d') else d' = d)"
  by (auto simp: if_stale_def)

lemmas daemon_keeps = and_then_keeps [where P = daemon_inv] if_stale_keeps [where P = daemon_inv]

lemma open_inv [inv_intros]: "daemon_inv d \<Longrightarrow> daemon_inv (snd (openRepositoriesLocked e d))"
  by (auto simp: openRepositoriesLocked_def daemon_inv_def Let_def split: sum.splits)

text \<open>No part of discovery runs.\<close>

definition quiet :: "Daemon \<Rightarrow> bool" where
  "quiet d \<longleftrightarrow> pc_watchers d = Map.empty \<and> pc_repoWatchers d = Map.empty \<and> pc_keepalives d = Map.empty"

lemma stop_discovery_inv:
  "daemon_inv d \<Longrightarrow> daemon_inv (stopDiscoveryLocked d) \<and> quiet (stopDiscoveryLocked d)"
  by (simp add: daemon_inv_def stopDiscoveryLocked_def quiet_def)

lemma start_cache_watcher_inv:
  "daemon_inv d \<Longrightarrow> quiet d \<Longrightarrow> daemon_inv (snd (start_cache_watcher e ch wid d)) \<and>
     pc_repoWatchers (snd (start_cache_watcher e ch wid d)) = Map.empty \<and>
     pc_keepalives (snd (start_cache_watcher e ch wid d)) = Map.empty"
  by (simp add: start_cache_watcher_def daemon_inv_def quiet_def Let_def split: sum.split)

lemma start_repo_watcher_inv:
  "daemon_inv d \<Longrightarrow> pc_repoWatchers d = Map.empty \<Longrightarrow> pc_keepalives d = Map.empty \<Longrightarrow>
   daemon_inv (snd (start_repo_watcher e ch rid d)) \<and> pc_keepalives (snd (start_repo_watcher e ch rid d)) = Map.empty"
  by (simp add: start_repo_watcher_def daemon_inv_def split: option.split prod.split)

lemma start_keep_alive_inv:
  "daemon_inv d \<Longrightarrow> pc_keepalives d = Map.empty \<Longrightarrow> daemon_inv (start_keep_alive port ch wid kid d)"
  by (simp add: start_keep_alive_def daemon_inv_def Let_def)

lemma start_discovery_inv:
  assumes "daemon_inv d" "quiet d"
  shows "daemon_inv (snd (startDiscoveryLocked e d))"
proof (cases "config_ServingPort (d_config d)")
  case (Inr port)
  let ?d = "d\<lparr>pc_next := pc_next d + 4\<rparr>" let ?f = "start_repo_watcher e (pc_next d) (pc_next d + 2)"
  obtain r d1 where 1: "start_cache_watcher e (pc_next d) (pc_next d + 1) ?d = (r, d1)" by fastforce
  have "daemon_inv ?d" "quiet ?d" using assms by (simp_all add: daemon_inv_def quiet_def)
  from start_cache_watcher_inv [OF this, of e "pc_next d" "pc_next d + 1"]
  have i1: "daemon_inv d1" "pc_repoWatchers d1 = Map.empty" "pc_keepalives d1 = Map.empty" unfolding 1 by simp_all
  obtain r' d2 where 2: "?f d1 = (r', d2)" by fastforce
  from start_repo_watcher_inv [OF i1, of e "pc_next d" "pc_next d + 2"]
  have i2: "daemon_inv d2" "pc_keepalives d2 = Map.empty" unfolding 2 by simp_all
  show ?thesis unfolding startDiscoveryLocked_def Inr Let_def sum.case 1
    using 2 i1 i2 start_keep_alive_inv [OF i2] by (simp add: and_then_def split: option.split)
qed (use assms in \<open>simp add: startDiscoveryLocked_def\<close>)

lemma restart_discovery_inv [inv_intros]:
  "daemon_inv d \<Longrightarrow> daemon_inv (snd (startDiscoveryLocked e (stopDiscoveryLocked d)))"
  using start_discovery_inv stop_discovery_inv by blast

lemma http_inv [inv_intros]: "daemon_inv d \<Longrightarrow> daemon_inv (snd (startHTTPServerLocked d))"
  by (auto simp: startHTTPServerLocked_def daemon_inv_def Let_def split: option.splits)

lemma seeder_inv [inv_intros]: "daemon_inv d \<Longrightarrow> daemon_inv (snd (startSeedServerLocked e d))"
  by (auto simp: startSeedServerLocked_def stopSeedServerLocked_def daemon_inv_def Let_def)

lemma config_inv [inv_intros]: "daemon_inv d \<Longrightarrow> daemon_inv (d\<lparr>d_config := c\<rparr>)"
  by (simp add: daemon_inv_def)

lemma nudge_inv [inv_intros]: "daemon_inv d \<Longrightarrow> daemon_inv (nudge ch d)"
  by (simp add: daemon_inv_def nudge_def)

lemma repos_inv [inv_intros]: "daemon_inv d \<Longrightarrow> daemon_inv (d\<lparr>pc_repos := m\<rparr>)"
  by (simp add: daemon_inv_def)

lemma pending_inv [inv_intros]: "daemon_inv d \<Longrightarrow> daemon_inv (d\<lparr>pc_pending := m\<rparr>)"
  by (simp add: daemon_inv_def)

lemma apply_config_inv [inv_intros]: "daemon_inv d \<Longrightarrow> daemon_inv (snd (apply_config e c d))"
  unfolding apply_config_def Let_def by (intro daemon_keeps inv_intros)

lemma reload_inv [inv_intros]: "daemon_inv d \<Longrightarrow> daemon_inv (snd (Daemon_Reload e d))"
  by (auto simp: Daemon_Reload_def intro: inv_intros split: sum.splits)

lemma request_inv [inv_intros]: "daemon_inv d \<Longrightarrow> daemon_inv (requestReannounce d)"
  by (auto simp: requestReannounce_def intro: inv_intros split: option.splits)

lemma listen_inv [inv_intros]: "daemon_inv d \<Longrightarrow> daemon_inv (http_ListenAndServe e d)"
  by (auto simp: http_ListenAndServe_def daemon_inv_def split: option.splits bind_splits)

lemma stop_inv: "daemon_inv d \<Longrightarrow> daemon_inv (Daemon_Stop d) \<and> idle (Daemon_Stop d)"
  by (auto simp: Daemon_Stop_def stopDiscoveryLocked_def stopSeedServerLocked_def daemon_inv_def idle_def Let_def)

lemma new_daemon_inv: "daemon_inv (new_Daemon c)"
  by (simp add: daemon_inv_def new_Daemon_def)

lemma open_quiet: "quiet d \<Longrightarrow> quiet (snd (openRepositoriesLocked e d))"
  by (simp add: openRepositoriesLocked_def quiet_def Let_def split: sum.split)

lemma start_inv: "daemon_inv (snd (Daemon_Start e c))"
proof -
  have "quiet (new_Daemon c)" by (simp add: quiet_def new_Daemon_def)
  then have "daemon_inv (snd (openRepositoriesLocked e (new_Daemon c))) \<and> quiet (snd (openRepositoriesLocked e (new_Daemon c)))"
    using open_inv [OF new_daemon_inv] open_quiet by blast
  then have "daemon_inv (snd (and_then (openRepositoriesLocked e (new_Daemon c)) (startDiscoveryLocked e)))"
    using start_discovery_inv [of _ e]
    by (cases "openRepositoriesLocked e (new_Daemon c)") (simp add: and_then_def split: option.split)
  then show ?thesis unfolding Daemon_Start_def
    by (rule daemon_keeps(1) [OF daemon_keeps(1) seeder_inv]) (rule http_inv)
qed

lemma daemon_step_inv: "daemon_step d ev d' \<Longrightarrow> daemon_inv d \<Longrightarrow> daemon_inv d'"
proof (induction rule: daemon_step.induct)
  case (dm_reload e d r d')
  then show ?case using reload_inv [of d e] by simp
qed (auto intro: inv_intros simp: stop_inv)

text \<open>
  C10: Nothing leaks.  After any history of reloads that succeed or fail at any point, of failed and
  successful starts, catalogue changes and notifications, every watcher, keep-alive, server and
  listener that runs is one the daemon holds a pointer to; so stopping the daemon leaves nothing
  running and no address bound.\<close>

theorem stop_releases_everything:
  assumes "run daemon_step (snd (Daemon_Start e cfg)) evs d"
  shows "daemon_inv d \<and> idle (Daemon_Stop d) \<and> \<not> d_running (Daemon_Stop d)"
proof -
  have "daemon_inv d"
    using assms start_inv [of e cfg] daemon_step_inv by (rule run_invariant)
  with stop_inv show ?thesis
    by (simp add: Daemon_Stop_def Let_def stopDiscoveryLocked_def stopSeedServerLocked_def)
qed

subsection \<open>What a configuration asks for\<close>

text \<open>
  \<open>discovery_up d c\<close>: the watchers and the keep-alive the configuration asks for run, on the daemon's
  current catalogue, and the nudge of all of them goes to this keep-alive.  \<open>facade_up\<close> and \<open>seeder_up\<close>
  say the same of the two listeners; the facade's upstream mirror and scratch directory are separate
  arguments, because a reload treats them differently.
\<close>

definition catalogue_open :: "Daemon \<Rightarrow> DaemonConfig \<Rightarrow> bool" where
  "catalogue_open d c \<longleftrightarrow> (\<exists>r. repository d = Some r \<and> repo_dir r = cf_RepoDBDir c)"

definition discovery_up :: "Daemon \<Rightarrow> DaemonConfig \<Rightarrow> bool" where
  "discovery_up d c \<longleftrightarrow>
     (\<exists>wid rid kid ch repo port.
        d_repo d = Some repo \<and> d_client d = Some (cf_TrackerURL c) \<and> d_reannounce d = Some ch \<and>
        config_ServingPort c = Inr port \<and>
        d_watcher d = Some wid \<and>
        pc_watchers d wid = Some \<lparr>cw_dir = cf_CacheDir c, cw_repo = Some repo, cw_chan = ch\<rparr> \<and>
        d_repoWatcher d = Some rid \<and>
        pc_repoWatchers d rid = Some \<lparr>pr_dir = cf_RepoDBDir c, pr_repo = repo, pr_chan = ch\<rparr> \<and>
        d_done d = Some kid \<and>
        pc_keepalives d kid = Some \<lparr>pk_tracker = cf_TrackerURL c, pk_port = port, pk_watcher = wid, pk_chan = ch\<rparr>)"

definition facade_up :: "Daemon \<Rightarrow> DaemonConfig \<Rightarrow> string \<Rightarrow> string \<Rightarrow> bool" where
  "facade_up d c up tmp \<longleftrightarrow>
     (\<exists>hid hs. d_httpServer d = Some hid \<and> pc_http d hid = Some hs \<and> hs_addr hs = cf_FacadeAddr c \<and>
        hs_client hs = d_client d \<and> hs_repo hs = d_repo d \<and> hs_upstream hs = up \<and> hs_temp hs = tmp)"

definition seeder_up :: "Daemon \<Rightarrow> DaemonConfig \<Rightarrow> bool" where
  "seeder_up d c \<longleftrightarrow>
     (\<exists>sid lid. d_seedServer d = Some sid \<and> d_seedListener d = Some lid \<and>
        pc_listeners d lid = Some (cf_ServingAddr c) \<and>
        pc_seeders d sid = Some \<lparr>sd_source = NewCacheSource (cf_CacheDir c), sd_global = cf_MaxConcurrentSeeds c,
          sd_perIP = cf_MaxConcurrentSeedsPerIP c, sd_listener = lid\<rparr>)"

definition serving :: "Daemon \<Rightarrow> DaemonConfig \<Rightarrow> string \<Rightarrow> string \<Rightarrow> bool" where
  "serving d c up tmp \<longleftrightarrow>
     d_config d = c \<and> catalogue_open d c \<and> discovery_up d c \<and> facade_up d c up tmp \<and> seeder_up d c"

lemma openRepositories_None:
  assumes "openRepositoriesLocked e d = (None, d')"
  shows "catalogue_open d' (d_config d) \<and> d_config d' = d_config d"
  using assms OpenRepositories_dir
  by (auto simp: openRepositoriesLocked_def catalogue_open_def repository_def Let_def split: sum.splits)

lemma start_cache_watcher_None:
  assumes "start_cache_watcher e ch wid d = (None, d')"
  shows "d' = d\<lparr>d_reannounce := Some ch, d_watcher := Some wid,
    pc_watchers := (pc_watchers d)(wid \<mapsto> \<lparr>cw_dir = cf_CacheDir (d_config d), cw_repo = d_repo d, cw_chan = ch\<rparr>)\<rparr>"
  using assms by (auto simp: start_cache_watcher_def Let_def split: sum.splits)

lemma start_repo_watcher_None:
  assumes "start_repo_watcher e ch rid d = (None, d')" "d_repo d = Some repo"
  shows "d' = d\<lparr>d_repoWatcher := Some rid, pc_repoWatchers := (pc_repoWatchers d)(rid \<mapsto>
    \<lparr>pr_dir = cf_RepoDBDir (d_config d), pr_repo = repo, pr_chan = ch\<rparr>)\<rparr>"
  using assms by (auto simp: start_repo_watcher_def split: option.splits prod.splits)

lemma startDiscovery_None:
  assumes "startDiscoveryLocked e d = (None, d')" "d_repo d = Some repo"
  shows "discovery_up d' (d_config d) \<and> d_config d' = d_config d \<and> repository d' = repository d \<and>
    d_repo d' = d_repo d \<and> pc_http d' = pc_http d \<and> d_httpServer d' = d_httpServer d \<and>
    pc_seeders d' = pc_seeders d \<and> d_seedServer d' = d_seedServer d \<and>
    pc_listeners d' = pc_listeners d \<and> d_seedListener d' = d_seedListener d"
proof -
  obtain port where p: "config_ServingPort (d_config d) = Inr port"
    using assms(1) by (auto simp: startDiscoveryLocked_def split: sum.splits)
  let ?c = "pc_next d"
  obtain d1 d2 where 1: "start_cache_watcher e ?c (?c + 1) (d\<lparr>pc_next := ?c + 4\<rparr>) = (None, d1)"
    and 2: "start_repo_watcher e ?c (?c + 2) d1 = (None, d2)"
    and 3: "d' = start_keep_alive port ?c (?c + 1) (?c + 3) d2"
    using assms(1) unfolding startDiscoveryLocked_def p Let_def sum.case and_then_None by auto
  note d1 = start_cache_watcher_None [OF 1]
  then have "d_repo d1 = Some repo" using assms(2) by simp
  note d2 = start_repo_watcher_None [OF 2 this]
  show ?thesis
    unfolding 3 d2 d1 using p assms(2) by (simp add: start_keep_alive_def discovery_up_def repository_def Let_def)
qed

lemma startHTTP_None:
  assumes "startHTTPServerLocked d = (None, d')"
  shows "facade_up d' (d_config d) (cf_UpstreamURL (d_config d)) (cf_TempDir (d_config d)) \<and>
    (catalogue_open d' c \<longleftrightarrow> catalogue_open d c) \<and> (discovery_up d' c \<longleftrightarrow> discovery_up d c) \<and>
    (seeder_up d' c \<longleftrightarrow> seeder_up d c) \<and> d_config d' = d_config d"
  using assms
  by (auto simp: startHTTPServerLocked_def Let_def facade_up_def catalogue_open_def repository_def discovery_up_def
      seeder_up_def split: option.splits)

lemma startSeed_None:
  assumes "startSeedServerLocked e d = (None, d')"
  shows "seeder_up d' (d_config d) \<and> (catalogue_open d' c \<longleftrightarrow> catalogue_open d c) \<and>
    (discovery_up d' c \<longleftrightarrow> discovery_up d c) \<and> (facade_up d' c up tmp \<longleftrightarrow> facade_up d c up tmp) \<and>
    d_config d' = d_config d"
  using assms
  by (auto simp: startSeedServerLocked_def stopSeedServerLocked_def Let_def facade_up_def catalogue_open_def
      repository_def discovery_up_def seeder_up_def split: if_splits)

lemma start_serves:
  assumes "Daemon_Start e c = (None, d)"
  shows "serving d c (cf_UpstreamURL c) (cf_TempDir c)"
proof -
  obtain d1 d2 d3 where 1: "openRepositoriesLocked e (new_Daemon c) = (None, d1)"
    and 2: "startDiscoveryLocked e d1 = (None, d2)" and 3: "startHTTPServerLocked d2 = (None, d3)"
    and 4: "startSeedServerLocked e d3 = (None, d)"
    using assms unfolding Daemon_Start_def and_then_None by blast
  have c: "d_config (new_Daemon c) = c" by (simp add: new_Daemon_def)
  have o: "catalogue_open d1 c" "d_config d1 = c" using openRepositories_None [OF 1] c by simp_all
  then obtain repo where "d_repo d1 = Some repo" by (auto simp: catalogue_open_def repository_def bind_eq_Some_conv)
  from startDiscovery_None [OF 2 this] o have p: "discovery_up d2 c" "d_config d2 = c" "catalogue_open d2 c"
    by (simp_all add: catalogue_open_def)
  from startHTTP_None [OF 3, of c] p have q: "facade_up d3 c (cf_UpstreamURL c) (cf_TempDir c)" "discovery_up d3 c"
    "d_config d3 = c" "catalogue_open d3 c" by simp_all
  from startSeed_None [OF 4, of c] q show ?thesis by (simp add: serving_def)
qed

subsection \<open>Reloading\<close>

lemma reload_stages:
  assumes "apply_config e c' d = (None, d')"
  obtains d1 d2 d3 where
    "if repoDBChanged (d_config d) c' then openRepositoriesLocked e (d\<lparr>d_config := c'\<rparr>) = (None, d1)
     else d1 = d\<lparr>d_config := c'\<rparr>"
    "if trackerChanged (d_config d) c' \<or> servingChanged (d_config d) c' \<or> cacheChanged (d_config d) c' \<or>
        repoDBChanged (d_config d) c' then startDiscoveryLocked e (stopDiscoveryLocked d1) = (None, d2) else d2 = d1"
    "if facadeChanged (d_config d) c' \<or> trackerChanged (d_config d) c' \<or> repoDBChanged (d_config d) c'
     then startHTTPServerLocked d2 = (None, d3) else d3 = d2"
    "if servingChanged (d_config d) c' \<or> cacheChanged (d_config d) c' \<or> capsChanged (d_config d) c' \<or>
        trackerChanged (d_config d) c' \<or> repoDBChanged (d_config d) c'
     then startSeedServerLocked e d3 = (None, d') else d' = d3"
  using assms unfolding apply_config_def Let_def and_then_None if_stale_None by blast

lemma stopDiscovery_simps [simp]:
  "d_config (stopDiscoveryLocked d) = d_config d" "d_repo (stopDiscoveryLocked d) = d_repo d"
  "repository (stopDiscoveryLocked d) = repository d" "pc_http (stopDiscoveryLocked d) = pc_http d"
  "d_httpServer (stopDiscoveryLocked d) = d_httpServer d" "pc_seeders (stopDiscoveryLocked d) = pc_seeders d"
  "d_seedServer (stopDiscoveryLocked d) = d_seedServer d" "pc_listeners (stopDiscoveryLocked d) = pc_listeners d"
  "d_seedListener (stopDiscoveryLocked d) = d_seedListener d"
  by (simp_all add: stopDiscoveryLocked_def repository_def)

lemma restart_discovery_None:
  assumes "startDiscoveryLocked e (stopDiscoveryLocked d) = (None, d')" "catalogue_open d c"
  shows "discovery_up d' (d_config d) \<and> d_config d' = d_config d \<and> catalogue_open d' c \<and>
    d_repo d' = d_repo d \<and> pc_http d' = pc_http d \<and> d_httpServer d' = d_httpServer d \<and>
    (seeder_up d' c' \<longleftrightarrow> seeder_up d c')"
proof -
  from assms(2) obtain repo where "d_repo (stopDiscoveryLocked d) = Some repo"
    by (auto simp: catalogue_open_def repository_def bind_eq_Some_conv)
  from startDiscovery_None [OF assms(1) this] assms(2) show ?thesis
    by (simp add: catalogue_open_def seeder_up_def)
qed

lemma open_frame:
  "openRepositoriesLocked e d = (None, d') \<Longrightarrow> (seeder_up d' c \<longleftrightarrow> seeder_up d c)"
  by (auto simp: openRepositoriesLocked_def seeder_up_def Let_def split: sum.splits)

text \<open>The first two stages of a reload, each whether it ran or was skipped.\<close>

lemma reload_catalogue_stage:
  assumes "if repoDBChanged c c' then openRepositoriesLocked e (d\<lparr>d_config := c'\<rparr>) = (None, d1) else d1 = d\<lparr>d_config := c'\<rparr>"
    "catalogue_open d c"
  shows "catalogue_open d1 c'" "d_config d1 = c'" "seeder_up d1 c \<longleftrightarrow> seeder_up d c"
  using assms(1) openRepositories_None [of e "d\<lparr>d_config := c'\<rparr>" d1] open_frame [of e "d\<lparr>d_config := c'\<rparr>" d1 c] assms(2)
  by (auto simp: repoDBChanged_def catalogue_open_def repository_def seeder_up_def split: if_splits)

lemma reload_discovery_stage:
  assumes "if repoDBChanged c c' then openRepositoriesLocked e (d\<lparr>d_config := c'\<rparr>) = (None, d1) else d1 = d\<lparr>d_config := c'\<rparr>"
    "if trackerChanged c c' \<or> servingChanged c c' \<or> cacheChanged c c' \<or> repoDBChanged c c'
     then startDiscoveryLocked e (stopDiscoveryLocked d1) = (None, d2) else d2 = d1"
    "catalogue_open d c" "discovery_up d c"
  shows "catalogue_open d2 c'" "d_config d2 = c'" "seeder_up d2 c \<longleftrightarrow> seeder_up d c" "d_repo d2 = d_repo d1"
    "pc_http d2 = pc_http d1" "d_httpServer d2 = d_httpServer d1" "discovery_up d2 c'"
proof -
  note a1 = reload_catalogue_stage [OF assms(1,3)]
  show "catalogue_open d2 c'" "d_config d2 = c'" "seeder_up d2 c \<longleftrightarrow> seeder_up d c"
    "d_repo d2 = d_repo d1" "pc_http d2 = pc_http d1" "d_httpServer d2 = d_httpServer d1"
    using assms(2) restart_discovery_None [OF _ a1(1), of e d2 c] a1 by (auto split: if_splits)
  show "discovery_up d2 c'"
  proof (cases "trackerChanged c c' \<or> servingChanged c c' \<or> cacheChanged c c' \<or> repoDBChanged c c'")
    case True
    then show ?thesis using assms(2) restart_discovery_None [OF _ a1(1), of e d2] a1 by simp
  next
    case False
    with assms(1,2) have "d2 = d\<lparr>d_config := c'\<rparr>" by simp
    then show ?thesis using assms(4) False
      by (auto simp: discovery_up_def trackerChanged_def servingChanged_def cacheChanged_def repoDBChanged_def config_ServingPort_def)
  qed
qed

text \<open>
  C8: SIGHUP converges.  When a reload of a daemon that serves its configuration reports success, the
  daemon serves the new configuration: every watcher, the keep-alive, the facade and the seeder
  run with the new addresses, directories and caps, all of them on the daemon's current catalogue and
  client, and the notifications reach the keep-alive that runs now.  The one exception is the facade's
  mirror URL and scratch directory, which are taken over only when the facade's address, the tracker
  or the repository directory changed too.\<close>

theorem reload_serves_new_config:
  assumes "serving d c up tmp" "Daemon_Reload e d = (None, d')"
  shows "\<exists>c'. new_config e = Inr c' \<and>
    (if facadeChanged c c' \<or> trackerChanged c c' \<or> repoDBChanged c c'
     then serving d' c' (cf_UpstreamURL c') (cf_TempDir c') else serving d' c' up tmp)"
proof -
  obtain c' where c': "new_config e = Inr c'" and ap: "apply_config e c' d = (None, d')"
    using assms(2) by (auto simp: Daemon_Reload_def split: sum.splits)
  from assms(1) have c: "d_config d = c" and cat: "catalogue_open d c" and up: "discovery_up d c"
    and fac: "facade_up d c up tmp" and sd: "seeder_up d c" by (simp_all add: serving_def)
  from reload_stages [OF ap, unfolded c] obtain d1 d2 d3 where
    1: "if repoDBChanged c c' then openRepositoriesLocked e (d\<lparr>d_config := c'\<rparr>) = (None, d1) else d1 = d\<lparr>d_config := c'\<rparr>" and
    2: "if trackerChanged c c' \<or> servingChanged c c' \<or> cacheChanged c c' \<or> repoDBChanged c c'
        then startDiscoveryLocked e (stopDiscoveryLocked d1) = (None, d2) else d2 = d1" and
    3: "if facadeChanged c c' \<or> trackerChanged c c' \<or> repoDBChanged c c'
        then startHTTPServerLocked d2 = (None, d3) else d3 = d2" and
    4: "if servingChanged c c' \<or> cacheChanged c c' \<or> capsChanged c c' \<or> trackerChanged c c' \<or> repoDBChanged c c'
        then startSeedServerLocked e d3 = (None, d') else d' = d3" by blast
  note a1 = reload_catalogue_stage [OF 1 cat] and a2 = reload_discovery_stage [OF 1 2 cat up]
  have f2: "facade_up d2 c' up tmp" if "\<not> (facadeChanged c c' \<or> trackerChanged c c' \<or> repoDBChanged c c')"
  proof -
    from 1 that have "d1 = d\<lparr>d_config := c'\<rparr>" by simp
    moreover have "d_client d2 = d_client d"
      using a2(7) up that by (auto simp: discovery_up_def trackerChanged_def)
    ultimately show ?thesis using fac a2 that by (auto simp: facade_up_def facadeChanged_def)
  qed
  have a3: "catalogue_open d3 c'" "discovery_up d3 c'" "d_config d3 = c'" "seeder_up d3 c \<longleftrightarrow> seeder_up d2 c"
    using 3 a2 startHTTP_None [of d2 d3] by (auto split: if_splits)
  have f3: "if facadeChanged c c' \<or> trackerChanged c c' \<or> repoDBChanged c c'
      then facade_up d3 c' (cf_UpstreamURL c') (cf_TempDir c') else facade_up d3 c' up tmp"
    using 3 f2 a2 startHTTP_None [of d2 d3] by (auto split: if_splits)
  have a4: "catalogue_open d' c'" "discovery_up d' c'" "d_config d' = c'" "seeder_up d' c'"
    "\<And>x y. facade_up d' c' x y \<longleftrightarrow> facade_up d3 c' x y"
    using 4 a3 startSeed_None [of e d3 d'] sd a1 a2
    by (auto simp: seeder_up_def servingChanged_def cacheChanged_def capsChanged_def split: if_splits)
  show ?thesis using c' f3 a4 by (auto simp: serving_def)
qed

subsection \<open>What a reload does not do\<close>

lemma apply_config_config [simp]: "d_config (snd (apply_config e c d)) = c"
proof -
  let ?P = "\<lambda>d. d_config d = c"
  have o: "?P (snd (openRepositoriesLocked e d))" if "?P d" for d
    using that by (simp add: openRepositoriesLocked_def Let_def split: sum.split)
  have cwa: "?P (snd (start_cache_watcher e ch w d))" if "?P d" for ch w d
    using that by (simp add: start_cache_watcher_def Let_def split: sum.split)
  have rwa: "?P (snd (start_repo_watcher e ch w d))" if "?P d" for ch w d
    using that by (simp add: start_repo_watcher_def split: option.split prod.split)
  have s: "?P (snd (startDiscoveryLocked e (stopDiscoveryLocked d)))" if "?P d" for d
  proof (cases "config_ServingPort (d_config d)")
    case (Inr port)
    have "?P (snd (and_then (and_then (start_cache_watcher e ch w d0) (start_repo_watcher e ch w'))
        (\<lambda>d. (None, start_keep_alive port ch w k d))))" if "?P d0" for ch w w' k d0
      by (intro and_then_keeps [where P = ?P] cwa rwa) (use that in \<open>simp_all add: start_keep_alive_def Let_def\<close>)
    then show ?thesis using that Inr by (simp add: startDiscoveryLocked_def Let_def)
  qed (use that in \<open>simp add: startDiscoveryLocked_def\<close>)
  have h: "?P (snd (startHTTPServerLocked d))" if "?P d" for d
    using that by (simp add: startHTTPServerLocked_def Let_def split: option.split)
  have l: "?P (snd (startSeedServerLocked e d))" if "?P d" for d
    using that by (simp add: startSeedServerLocked_def stopSeedServerLocked_def Let_def)
  show ?thesis unfolding apply_config_def Let_def
    by (intro and_then_keeps [where P = ?P] if_stale_keeps [where P = ?P] o s h l) simp_all
qed

lemma apply_same_config: "apply_config e (d_config d) d = (None, d)"
  by (simp add: apply_config_def facadeChanged_def servingChanged_def trackerChanged_def cacheChanged_def
      repoDBChanged_def capsChanged_def if_stale_def and_then_def Let_def)

text \<open>
  A reload that fails half-way is not retried.  The new configuration counts as applied before
  anything is rebuilt, so once a reload has failed to open the catalogue, to restart discovery or to
  bind an address, the next SIGHUP with the same file reports success and changes nothing, whatever
  the machine now allows.\<close>

theorem failed_reload_is_not_retried:
  assumes "new_config e = Inr c" "Daemon_Reload e d = (Some err, d1)" "new_config e' = Inr c"
  shows "Daemon_Reload e' d1 = (None, d1)"
proof -
  have "d1 = snd (apply_config e c d)" using assms by (simp add: Daemon_Reload_def)
  then have "d_config d1 = c" by simp
  then show ?thesis using apply_same_config [of e' d1] assms(3) by (simp add: Daemon_Reload_def)
qed

text \<open>
  A new mirror URL or scratch directory alone is accepted and ignored: the reload reports success,
  nothing but the recorded configuration changes, and the facade goes on with the old ones.\<close>

theorem reload_ignores_upstream:
  assumes "serving d c (cf_UpstreamURL c) (cf_TempDir c)"
    "new_config e = Inr (c\<lparr>cf_UpstreamURL := u, cf_TempDir := t\<rparr>)"
  shows "Daemon_Reload e d = (None, d\<lparr>d_config := c\<lparr>cf_UpstreamURL := u, cf_TempDir := t\<rparr>\<rparr>) \<and>
    serving (snd (Daemon_Reload e d)) (c\<lparr>cf_UpstreamURL := u, cf_TempDir := t\<rparr>) (cf_UpstreamURL c) (cf_TempDir c)"
proof -
  let ?c = "c\<lparr>cf_UpstreamURL := u, cf_TempDir := t\<rparr>"
  have "d_config d = c" using assms(1) by (simp add: serving_def)
  then have r: "Daemon_Reload e d = (None, d\<lparr>d_config := ?c\<rparr>)"
    using assms(2) by (simp add: Daemon_Reload_def apply_config_def facadeChanged_def servingChanged_def trackerChanged_def
      cacheChanged_def repoDBChanged_def capsChanged_def if_stale_def and_then_def Let_def)
  moreover have "serving (d\<lparr>d_config := ?c\<rparr>) ?c (cf_UpstreamURL c) (cf_TempDir c)"
    using assms(1) by (auto simp: serving_def catalogue_open_def discovery_up_def facade_up_def seeder_up_def
        repository_def config_ServingPort_def)
  ultimately show ?thesis by simp
qed

text \<open>
  A daemon that got its mirror from the command line and has no file cannot reload at all: the file is
  read without the flags, and the defaults have no mirror.\<close>

lemma ValidateFields_no_upstream: "cf_UpstreamURL c = [] \<Longrightarrow> ValidateFields c \<noteq> None"
  by (auto simp: ValidateFields_def validateUpstreamURL_def split: option.splits sum.splits)

lemma reload_forgets_flags:
  assumes "de_file e = FileMissing"
  shows "\<exists>err. Daemon_Reload e d = (Some (DeConfig err), d)"
proof -
  obtain err where "ValidateFields (DefaultConfig (de_tmp e)) = Some err"
    using ValidateFields_no_upstream [of "DefaultConfig (de_tmp e)"] by (auto simp: DefaultConfig_def)
  then have "new_config e = Inl err"
    using assms by (simp add: new_config_def Load_def config_read_def settle_config_def Validate_def)
  then show ?thesis by (simp add: Daemon_Reload_def)
qed

text \<open>A file that does not parse, or that is refused, leaves a running daemon as it was.\<close>

lemma refused_reload_changes_nothing: "new_config e = Inl err \<Longrightarrow> Daemon_Reload e d = (Some (DeConfig err), d)"
  by (simp add: Daemon_Reload_def)

lemma unparsable_file_is_refused:
  assumes "de_file e = FileData data" "unmarshal_config data (DefaultConfig (de_tmp e)) = None"
  shows "\<exists>err. Daemon_Reload e d = (Some (DeConfig err), d)"
proof -
  obtain err where "ValidateFields (DefaultConfig (de_tmp e)) = Some err"
    using ValidateFields_no_upstream [of "DefaultConfig (de_tmp e)"] by (auto simp: DefaultConfig_def)
  then have "new_config e = Inl err"
    using assms by (simp add: new_config_def Load_def config_read_def settle_config_def Validate_def)
  then show ?thesis by (simp add: Daemon_Reload_def)
qed

subsection \<open>Starting\<close>

lemma url_parse_with_scheme:
  assumes "getScheme raw = Some (sch, r)" "sch \<noteq> []"
  shows "url_parse False raw = url_parse True raw"
proof -
  have "raw \<noteq> []" using assms by (auto simp: getScheme_def)
  moreover obtain rest q f where "split_query r = (rest, q, f)" by (metis prod_cases3)
  ultimately show ?thesis using assms
    by (cases "HasPrefix rest ''/''"; cases "HasPrefix rest ''//''") (simp_all add: url_parse_def Let_def)
qed

lemma url_parse_without_scheme:
  assumes "getScheme raw = Some ([], r)" "url_parse True raw = Some u"
  shows "Scheme u = []"
proof -
  obtain rest q f where q: "split_query r = (rest, q, f)" by (metis prod_cases3)
  have set_path: "setPath p v = Some w \<Longrightarrow> Scheme w = Scheme v" for p v w by (auto simp: setPath_def)
  show ?thesis
  proof (cases "raw = ''*''")
    case True
    with assms(2) have "u = empty_url\<lparr>URLPath := ''*''\<rparr>" by (simp add: url_parse_def ctl_byte_def)
    then show ?thesis by (simp add: empty_url_def)
  next
    case False
    then have "setPath rest (empty_url\<lparr>Scheme := [], RawQuery := q, ForceQuery := f\<rparr>) = Some u"
      using assms by (simp add: url_parse_def q ToLower_def Let_def split: if_splits)
    from set_path [OF this] show ?thesis by simp
  qed
qed

lemma Parse_of_request:
  assumes "ParseRequestURI raw = Some u" "CHR ''#'' \<notin> set raw" "Scheme u \<noteq> []"
  shows "Parse raw = Some u"
proof -
  have h: "\<forall>x \<in> set raw. x \<noteq> CHR ''#''" using assms(2) by auto
  then have tw: "takeWhile (\<lambda>x. x \<noteq> CHR ''#'') raw = raw" by (simp add: takeWhile_eq_all_conv)
  from h have dw: "dropWhile (\<lambda>x. x \<noteq> CHR ''#'') raw = []" by (simp add: dropWhile_eq_Nil_conv)
  have c: "cut (CHR ''#'') raw = (raw, [])" unfolding cut_def tw dw by simp
  have "raw \<noteq> ''*''" using assms by (auto simp: ParseRequestURI_def url_parse_def empty_url_def ctl_byte_def)
  have "getScheme raw \<noteq> None"
  proof
    assume "getScheme raw = None"
    with assms(1) \<open>raw \<noteq> ''*''\<close> show False by (simp add: ParseRequestURI_def url_parse_def split: if_splits)
  qed
  then obtain sch r where g: "getScheme raw = Some (sch, r)" by auto
  then have "sch \<noteq> []" using url_parse_without_scheme assms(1,3) by (auto simp: ParseRequestURI_def)
  with assms(1) url_parse_with_scheme [OF g] have "url_parse False raw = Some u" by (simp add: ParseRequestURI_def)
  then show ?thesis by (simp add: Parse_def c)
qed

lemma validated_upstream:
  assumes "ValidateFields c = None" "CHR ''#'' \<notin> set (cf_UpstreamURL c)"
  shows "\<exists>s. upstreamURL (cf_UpstreamURL c) ''/'' [] = Inr s"
proof -
  have v: "validateUpstreamURL (cf_UpstreamURL c) = None"
    using assms(1) by (auto simp: ValidateFields_def split: if_splits option.splits sum.splits)
  then obtain u where u: "ParseRequestURI (cf_UpstreamURL c) = Some u" "Scheme u = ''http'' \<or> Scheme u = ''https''"
    "Host u \<noteq> []" "cf_UpstreamURL c \<noteq> []"
    by (auto simp: validateUpstreamURL_def Let_def split: if_splits option.splits prod.splits)
  then have "Parse (cf_UpstreamURL c) = Some u" using Parse_of_request assms(2) by force
  with u show ?thesis by (auto simp: upstreamURL_def Let_def)
qed

text \<open>The facade can be built whenever there is a catalogue and the mirror URL is usable.\<close>

lemma http_progress:
  assumes "repository d \<noteq> None" "upstreamURL (cf_UpstreamURL (d_config d)) ''/'' [] = Inr s"
  shows "\<exists>d'. startHTTPServerLocked d = (None, d')"
proof -
  have "fst (startHTTPServerLocked d) = None"
    using assms by (auto simp: startHTTPServerLocked_def Let_def Check_def facade_view_def repository_def)
  then show ?thesis by (cases "startHTTPServerLocked d") auto
qed

lemma http_refused:
  assumes "repository d \<noteq> None" "upstreamURL (cf_UpstreamURL (d_config d)) ''/'' [] = Inl x"
  shows "fst (startHTTPServerLocked d) = Some (DeFacade (ErrNoUsableUpstream x))"
  using assms by (auto simp: startHTTPServerLocked_def Let_def Check_def facade_view_def repository_def)

text \<open>The two readings of the mirror URL: the validator takes no notice of a fragment, the facade unescapes it.\<close>

theorem fragment_passes_validation:
  "validateUpstreamURL ''https://a.org/x?#%zz'' = None \<and>
   upstreamURL ''https://a.org/x?#%zz'' ''/'' [] = Inl ErrUpstreamParse"
proof
  show "validateUpstreamURL ''https://a.org/x?#%zz'' = None"
    by (simp add: validateUpstreamURL_def ParseRequestURI_def CutPrefix_def url_eval)
  show "upstreamURL ''https://a.org/x?#%zz'' ''/'' [] = Inl ErrUpstreamParse"
    by (simp add: upstreamURL_def url_eval hex_digit_def)
qed

text \<open>
  C25: A validated configuration starts unless the machine prevents it, with one exception.  When the start of a
  validated configuration fails, the reason is the catalogue, a directory that cannot be watched, a serving
  address that cannot be bound, in which case no listener and no seeder is left, or a mirror URL with a \<open>#\<close> in it that the facade
  cannot parse although the validator could.  The serving port is always there, and without a \<open>#\<close> in
  the mirror URL the facade never refuses to be built.\<close>

theorem startup_failures_are_environmental:
  assumes "ValidateFields c = None" "Daemon_Start e c = (Some err, d)"
  shows "(\<exists>x. err = DeRepository x) \<or> (\<exists>x. err = DeCacheWatcher x) \<or> (\<exists>x. err = DeRepoWatcher x) \<or>
    (err = DeServingAddr (cf_ServingAddr c) \<and> d_seedListener d = None \<and> d_seedServer d = None) \<or>
    (CHR ''#'' \<in> set (cf_UpstreamURL c) \<and>
      (\<exists>x. upstreamURL (cf_UpstreamURL c) ''/'' [] = Inl x \<and> err = DeFacade (ErrNoUsableUpstream x)))"
proof -
  obtain port where port: "config_ServingPort c = Inr port" using validated_addresses [OF assms(1)] by blast
  have cache: "cf_CacheDir c \<noteq> []"
    using assms(1) by (auto simp: ValidateFields_def split: if_splits option.splits sum.splits)
  obtain r1 d1 where 1: "openRepositoriesLocked e (new_Daemon c) = (r1, d1)" by fastforce
  show ?thesis
  proof (cases r1)
    case (Some x)
    then show ?thesis using assms(2) 1
      by (auto simp: Daemon_Start_def and_then_def openRepositoriesLocked_def Let_def split: sum.splits)
  next
    case None
    have "d_config (new_Daemon c) = c" by (simp add: new_Daemon_def)
    then have o: "catalogue_open d1 c" "d_config d1 = c"
      using openRepositories_None [OF 1 [unfolded None]] by simp_all
    then obtain repo where repo: "d_repo d1 = Some repo" by (auto simp: catalogue_open_def repository_def bind_eq_Some_conv)
    obtain r2 d2 where 2: "startDiscoveryLocked e d1 = (r2, d2)" by fastforce
    show ?thesis
    proof (cases r2)
      case (Some x)
      then have "x = err" using assms(2) 1 2 None by (simp add: Daemon_Start_def and_then_def)
      moreover have "(\<exists>y. x = DeCacheWatcher y) \<or> (\<exists>y. x = DeRepoWatcher y)"
        using 2 Some port o(2)
        by (auto simp: startDiscoveryLocked_def Let_def and_then_def start_cache_watcher_def start_repo_watcher_def
            split: option.splits sum.splits prod.splits)
      ultimately show ?thesis by blast
    next
      case 3: None
      from startDiscovery_None [OF 2 [unfolded 3] repo] o
      have d2: "d_config d2 = c" "repository d2 \<noteq> None" by (auto simp: catalogue_open_def)
      show ?thesis
      proof (cases "upstreamURL (cf_UpstreamURL c) ''/'' []")
        case (Inl x)
        obtain d3 where h: "startHTTPServerLocked d2 = (Some (DeFacade (ErrNoUsableUpstream x)), d3)"
          using http_refused [OF d2(2), of x] Inl d2(1) by (cases "startHTTPServerLocked d2") auto
        then have "err = DeFacade (ErrNoUsableUpstream x)"
          using assms(2) 1 2 None 3 by (simp add: Daemon_Start_def and_then_def)
        moreover have "CHR ''#'' \<in> set (cf_UpstreamURL c)" using validated_upstream [OF assms(1)] Inl by auto
        ultimately show ?thesis using Inl by simp
      next
        case (Inr s)
        obtain d3 where h: "startHTTPServerLocked d2 = (None, d3)" using http_progress [OF d2(2)] Inr d2(1) by auto
        from startHTTP_None [OF h] d2 have "d_config d3 = c" by simp
        moreover have "startSeedServerLocked e d3 = (Some err, d)"
          using assms(2) 1 2 None 3 h by (simp add: Daemon_Start_def and_then_def)
        ultimately show ?thesis using cache
          by (auto simp: startSeedServerLocked_def stopSeedServerLocked_def Let_def split: if_splits)
      qed
    qed
  qed
qed

subsection \<open>One catalogue, one keep-alive\<close>

inductive_cases dm_cacheE: "daemon_step d (DmCacheEvent i) d'"
inductive_cases dm_not_heldE: "daemon_step d (DmNotHeld i) d'"

text \<open>A running cache watcher as its scans see it.\<close>

definition watcher_view :: "Daemon \<Rightarrow> cache_watch \<Rightarrow> Watcher" where
  "watcher_view d cw = Watcher_New (cw_dir cw) (size_view (Option.bind (cw_repo cw) (pc_repos d)))"

lemma owned_only: "owned (Some j) m \<Longrightarrow> m i = Some x \<Longrightarrow> i = j"
  by (auto simp: owned_def)

lemma nudge_serving [simp]: "serving (nudge ch d) c up tmp \<longleftrightarrow> serving d c up tmp"
  by (simp add: nudge_def serving_def catalogue_open_def repository_def discovery_up_def facade_up_def seeder_up_def)

lemma pending_serving [simp]: "serving (d\<lparr>pc_pending := s\<rparr>) c up tmp \<longleftrightarrow> serving d c up tmp"
  by (simp add: serving_def catalogue_open_def repository_def discovery_up_def facade_up_def seeder_up_def)

lemma replaced_serving:
  assumes "serving d c up tmp" "d_repo d = Some p" "repo_dir r = cf_RepoDBDir c"
  shows "serving (d\<lparr>pc_repos := (pc_repos d)(p \<mapsto> r)\<rparr>) c up tmp"
proof -
  let ?d = "d\<lparr>pc_repos := (pc_repos d)(p \<mapsto> r)\<rparr>"
  have "discovery_up ?d c \<longleftrightarrow> discovery_up d c" "facade_up ?d c up tmp \<longleftrightarrow> facade_up d c up tmp"
    "seeder_up ?d c \<longleftrightarrow> seeder_up d c"
    by (simp_all add: discovery_up_def facade_up_def seeder_up_def)
  moreover have "catalogue_open ?d c" using assms by (simp add: catalogue_open_def repository_def)
  ultimately show ?thesis using assms(1) by (simp add: serving_def)
qed

lemma serving_parts:
  assumes "serving d c up tmp" "daemon_inv d"
  obtains p r ch hid hs wid cw rid rw kid ka where
    "d_repo d = Some p" "pc_repos d p = Some r" "repo_dir r = cf_RepoDBDir c" "d_reannounce d = Some ch"
    "d_httpServer d = Some hid" "pc_http d hid = Some hs" "hs_repo hs = Some p"
    "d_watcher d = Some wid" "pc_watchers d wid = Some cw" "cw_repo cw = Some p" "cw_chan cw = ch"
    "d_repoWatcher d = Some rid" "pc_repoWatchers d rid = Some rw" "pr_repo rw = p" "pr_chan rw = ch"
    "d_done d = Some kid" "pc_keepalives d kid = Some ka" "pk_chan ka = ch"
    "\<forall>i x. pc_repoWatchers d i = Some x \<longrightarrow> x = rw" "\<forall>i x. pc_watchers d i = Some x \<longrightarrow> x = cw"
proof -
  from assms(1) have f: "catalogue_open d c" "discovery_up d c" "facade_up d c up tmp" by (simp_all add: serving_def)
  from f(2) obtain wid rid kid ch p port where
    d: "d_repo d = Some p" "d_reannounce d = Some ch"
      "d_watcher d = Some wid" "pc_watchers d wid = Some \<lparr>cw_dir = cf_CacheDir c, cw_repo = Some p, cw_chan = ch\<rparr>"
      "d_repoWatcher d = Some rid" "pc_repoWatchers d rid = Some \<lparr>pr_dir = cf_RepoDBDir c, pr_repo = p, pr_chan = ch\<rparr>"
      "d_done d = Some kid"
      "pc_keepalives d kid = Some \<lparr>pk_tracker = cf_TrackerURL c, pk_port = port, pk_watcher = wid, pk_chan = ch\<rparr>"
    unfolding discovery_up_def by blast
  from f(3) d(1) obtain hid hs where h: "d_httpServer d = Some hid" "pc_http d hid = Some hs" "hs_repo hs = Some p"
    unfolding facade_up_def by auto
  from f(1) d(1) obtain r where r: "pc_repos d p = Some r" "repo_dir r = cf_RepoDBDir c"
    by (auto simp: catalogue_open_def repository_def)
  have o: "owned (Some rid) (pc_repoWatchers d)" "owned (Some wid) (pc_watchers d)"
    using assms(2) d by (simp_all add: daemon_inv_def)
  have u1: "\<forall>i x. pc_repoWatchers d i = Some x \<longrightarrow> x = \<lparr>pr_dir = cf_RepoDBDir c, pr_repo = p, pr_chan = ch\<rparr>"
    using owned_only [OF o(1)] d(6) by fastforce
  have u2: "\<forall>i x. pc_watchers d i = Some x \<longrightarrow> x = \<lparr>cw_dir = cf_CacheDir c, cw_repo = Some p, cw_chan = ch\<rparr>"
    using owned_only [OF o(2)] d(4) by fastforce
  show thesis
    by (rule that [OF d(1) r d(2) h d(3,4) _ _ d(5,6) _ _ d(7,8) _ u1 u2]) simp_all
qed

text \<open>
  C19: A catalogue refresh reaches everything that reads the catalogue, without a restart.  When the
  repository watcher of a serving daemon reloads and a fresh open would succeed, then the facade's
  verification, the cache watcher's size check and the daemon all see that new catalogue, and the
  keep-alive that runs has been told to announce again; otherwise all of them keep the old one.
  Nothing else changes.\<close>

theorem catalogue_refresh_reaches_every_reader:
  assumes "serving d c up tmp" "daemon_inv d" "daemon_step d (DmRepoFire i w) d'"
  shows "serving d' c up tmp \<and>
    (case OpenRepositories (rww_root w) (rww_db w) (rww_order w) (cf_RepoDBDir c) of
       Inl _ \<Rightarrow> d' = d
     | Inr r \<Rightarrow>
         repository d' = Some r \<and>
         (\<exists>hs cw ka. Option.bind (d_httpServer d') (pc_http d') = Some hs \<and> f_Repo (facade_view ask d' hs) = Some r \<and>
            Option.bind (d_watcher d') (pc_watchers d') = Some cw \<and>
            repoDB (watcher_view d' cw) = Some (ExpectedFileSizeBytes r) \<and>
            Option.bind (d_done d') (pc_keepalives d') = Some ka \<and> pk_chan ka \<in> pc_pending d'))"
proof -
  obtain p r0 ch hid hs wid cw rid rw kid ka where
    s: "d_repo d = Some p" "pc_repos d p = Some r0" "repo_dir r0 = cf_RepoDBDir c" "d_reannounce d = Some ch"
      "d_httpServer d = Some hid" "pc_http d hid = Some hs" "hs_repo hs = Some p"
      "d_watcher d = Some wid" "pc_watchers d wid = Some cw" "cw_repo cw = Some p" "cw_chan cw = ch"
      "d_repoWatcher d = Some rid" "pc_repoWatchers d rid = Some rw" "pr_repo rw = p" "pr_chan rw = ch"
      "d_done d = Some kid" "pc_keepalives d kid = Some ka" "pk_chan ka = ch"
      and u: "\<forall>i x. pc_repoWatchers d i = Some x \<longrightarrow> x = rw" "\<forall>i x. pc_watchers d i = Some x \<longrightarrow> x = cw"
    by (rule serving_parts [OF assms(1,2)]) (rule that; assumption)
  let ?open = "OpenRepositories (rww_root w) (rww_db w) (rww_order w) (cf_RepoDBDir c)"
  have rel: "repo_reload w r0 = (case ?open of Inl e \<Rightarrow> (Some e, r0) | Inr r' \<Rightarrow> (None, r'))"
    by (simp add: repo_reload_def Reload_reopens s(3))
  obtain rw' r1 where st: "pc_repoWatchers d i = Some rw'" "pc_repos d (pr_repo rw') = Some r1"
    "d' = (let d1 = d\<lparr>pc_repos := (pc_repos d)(pr_repo rw' \<mapsto> snd (repo_reload w r1))\<rparr>
           in if fst (repo_reload w r1) = None then nudge (pr_chan rw') d1 else d1)"
    using assms(3) by (elim dm_repo_fireE) simp_all
  have "rw' = rw" using u(1) st(1) by blast
  then have step: "d' = (let d1 = d\<lparr>pc_repos := (pc_repos d)(p \<mapsto> snd (repo_reload w r0))\<rparr>
           in if fst (repo_reload w r0) = None then nudge ch d1 else d1)"
  proof -
    have e: "pr_chan rw' = ch" "pr_repo rw' = p" "r1 = r0" using \<open>rw' = rw\<close> s st(2) by simp_all
    show ?thesis using st(3) unfolding e .
  qed
  show ?thesis
  proof (cases ?open)
    case (Inl e)
    then have "d' = d\<lparr>pc_repos := (pc_repos d)(p \<mapsto> r0)\<rparr>" using step rel by simp
    then have "d' = d" using s(2) by (simp add: fun_upd_idem)
    then show ?thesis using assms(1) Inl by simp
  next
    case (Inr r)
    then have d': "d' = nudge ch (d\<lparr>pc_repos := (pc_repos d)(p \<mapsto> r)\<rparr>)" using step rel by simp
    have "serving d' c up tmp"
      unfolding d' using replaced_serving [OF assms(1) s(1) OpenRepositories_dir [OF Inr]] by simp
    then show ?thesis using s Inr
      by (simp add: d' nudge_def repository_def facade_view_def watcher_view_def size_view_def Watcher_New_def)
  qed
qed

text \<open>
  C35: No notification is lost and none is queued twice.  In a serving daemon a change in the cache
  and a request for a package the seeder does not hold both leave one value waiting for the
  keep-alive that runs now, however many came before, and taking it is enabled and leaves none.\<close>

theorem notifications_reach_the_keepalive:
  assumes "serving d c up tmp" "daemon_inv d" "daemon_step d ev d'" "ev = DmCacheEvent i \<or> ev = DmNotHeld i"
  shows "\<exists>kid ka. d_done d' = Some kid \<and> pc_keepalives d' kid = Some ka \<and>
    d' = d\<lparr>pc_pending := insert (pk_chan ka) (pc_pending d)\<rparr> \<and> serving d' c up tmp \<and>
    daemon_step d' (DmAnnounce kid) (d\<lparr>pc_pending := pc_pending d - {pk_chan ka}\<rparr>)"
proof -
  obtain p r0 ch hid hs wid cw rid rw kid ka where
    s: "d_repo d = Some p" "pc_repos d p = Some r0" "repo_dir r0 = cf_RepoDBDir c" "d_reannounce d = Some ch"
      "d_httpServer d = Some hid" "pc_http d hid = Some hs" "hs_repo hs = Some p"
      "d_watcher d = Some wid" "pc_watchers d wid = Some cw" "cw_repo cw = Some p" "cw_chan cw = ch"
      "d_repoWatcher d = Some rid" "pc_repoWatchers d rid = Some rw" "pr_repo rw = p" "pr_chan rw = ch"
      "d_done d = Some kid" "pc_keepalives d kid = Some ka" "pk_chan ka = ch"
      and u: "\<forall>i x. pc_repoWatchers d i = Some x \<longrightarrow> x = rw" "\<forall>i x. pc_watchers d i = Some x \<longrightarrow> x = cw"
    by (rule serving_parts [OF assms(1,2)]) (rule that; assumption)
  have d': "d' = nudge ch d"
  proof (cases "ev = DmCacheEvent i")
    case True
    with assms(3) obtain cw' where "pc_watchers d i = Some cw'" "d' = nudge (cw_chan cw') d"
      by (auto elim: dm_cacheE)
    with u(2) s show ?thesis by blast
  next
    case False
    with assms(3,4) have "d' = requestReannounce d" by (auto elim: dm_not_heldE)
    with s(4) show ?thesis by (simp add: requestReannounce_def)
  qed
  have "daemon_step d' (DmAnnounce kid) (d'\<lparr>pc_pending := pc_pending d' - {pk_chan ka}\<rparr>)"
    by (rule dm_announce) (use s in \<open>simp_all add: d' nudge_def\<close>)
  moreover have "d'\<lparr>pc_pending := pc_pending d' - {pk_chan ka}\<rparr> = d\<lparr>pc_pending := pc_pending d - {pk_chan ka}\<rparr>"
    using s by (simp add: d' nudge_def)
  ultimately show ?thesis using s assms(1) by (intro exI [of _ kid] exI [of _ ka]) (simp add: d' nudge_def)
qed

subsection \<open>Witnesses\<close>

definition demo_daemon_config :: DaemonConfig where
  "demo_daemon_config = demo_config\<lparr>cf_CacheDir := ''/r'', cf_RepoDBDir := ''/r''\<rparr>"

text \<open>\<open>bind\<close>: whether addresses can be bound; \<open>c\<close>: the configuration in the file.\<close>

definition demo_daemon_env :: "bool \<Rightarrow> DaemonConfig \<Rightarrow> daemon_env" where
  "demo_daemon_env bind c =
     \<lparr>de_tmp = ''/tmp'', de_legacy = legacyKeys, de_file = FileData (print_config c),
      de_host = \<lparr>he_mkdir = \<lambda>_. True, he_temp = \<lambda>_. Some ''/tmp/t'', he_root = demo_repo_root\<rparr>,
      de_abi = None, de_world = demo_world, de_cw_create = True, de_cw_add = \<lambda>_. True,
      de_rw_create = True, de_bind = \<lambda>_. bind\<rparr>"

lemma demo_daemon_config_simps [simp]:
  "cf_CacheDir demo_daemon_config = ''/r''" "cf_RepoDBDir demo_daemon_config = ''/r''"
  "cf_UpstreamURL demo_daemon_config = ''https://a.org/x''" "cf_ServingAddr demo_daemon_config = ''0.0.0.0:9002''"
  "cf_FacadeAddr demo_daemon_config = ''127.0.0.1:9001''" "cf_TempDir demo_daemon_config = ''/tmp''"
  "cf_MaxConcurrentSeeds demo_daemon_config = 0" "cf_MaxConcurrentSeedsPerIP demo_daemon_config = 0"
  by (simp_all add: demo_daemon_config_def demo_config_def DefaultConfig_def)

lemma demo_daemon_config_valid: "ValidateFields demo_daemon_config = None"
  using demo_config_valid
  by (simp add: demo_daemon_config_def ValidateFields_def demo_config_def DefaultConfig_def split: if_splits option.splits sum.splits)

lemma demo_r_dir: "\<exists>n. os_Stat demo_repo_root ''/r'' = Some n \<and> IsDir n"
  by (simp add: os_Stat_def rooted_segs_def demo_repo_root_def IsDir_def)

lemma new_config_demo:
  assumes "ValidateFields c = None" "config_text_ok c" "cf_CacheDir c = ''/r''" "cf_RepoDBDir c = ''/r''"
    "cf_UpstreamURL c = ''https://a.org/x'' \<or> cf_UpstreamURL c = ''https://b.org/x''"
  shows "new_config (demo_daemon_env b c) = Inr c"
proof -
  have "\<not> Contains (cf_UpstreamURL c) ''${''" "\<not> Contains (cf_UpstreamURL c) ABIPlaceholder"
    using assms(5) by (auto simp: ABIPlaceholder_def HasPrefix_def)
  from ExpandUpstream_literal [OF this] have "settle_config (demo_daemon_env b c) c = Inr c"
    using Validate_ok [of "de_host (demo_daemon_env b c)" c] assms demo_r_dir
    by (simp add: settle_config_def demo_daemon_env_def)
  then show ?thesis
    using config_read_print [OF assms(2), of legacyKeys "''/tmp''"]
    by (simp add: new_config_def Load_def demo_daemon_env_def)
qed

lemma demo_open: "\<exists>r. OpenRepositories demo_repo_root demo_sqlite (\<lambda>_. [''zip-3'']) ''/r'' = Inr r"
  using demo_reload_ok by (auto simp: Reload_reopens demo_repo_def split: sum.splits)

lemma demo_watch: "\<exists>ds. Watcher_Start True (\<lambda>_. True) demo_repo_root (Watcher_New ''/r'' db) = Inr ds"
  by (simp add: Watcher_Start_def Watcher_New_def os_Stat_def os_Lstat_def rooted_segs_def demo_repo_root_def IsDir_def
      Join2_def Clean_def)

lemma demo_repo_watch: "fst (RepoWatcher_Start True demo_world (NewRepoWatcher ''/r'' (c :: nat))) = None"
  by (simp add: RepoWatcher_Start_def NewRepoWatcher_def addWatches_def demo_world_def os_Stat_def os_Lstat_def
      rooted_segs_def demo_repo_root_def IsDir_def Join2_def Clean_def Let_def)

lemma demo_discovery:
  assumes "d_config d = demo_daemon_config" "d_repo d = Some p"
  shows "\<exists>d'. startDiscoveryLocked (demo_daemon_env b c) d = (None, d')"
proof -
  obtain port where "config_ServingPort demo_daemon_config = Inr port"
    using validated_addresses [OF demo_daemon_config_valid] by blast
  moreover obtain ds where "Watcher_Start True (\<lambda>_. True) demo_repo_root (Watcher_New ''/r'' (size_view (repository
      (d\<lparr>pc_next := pc_next d + 4, d_reannounce := Some (pc_next d), d_watcher := Some (pc_next d + 1)\<rparr>)))) = Inr ds"
    using demo_watch by blast
  moreover obtain st where "RepoWatcher_Start True demo_world (NewRepoWatcher ''/r'' p) = (None, st)"
    using demo_repo_watch [of p] by (metis prod.collapse)
  moreover have "rww_root demo_world = demo_repo_root" by (simp add: demo_world_def)
  ultimately show ?thesis using assms
    by (simp add: startDiscoveryLocked_def demo_daemon_env_def and_then_def start_cache_watcher_def
        start_repo_watcher_def Let_def)
qed

lemma demo_start_stages:
  obtains d3 where "Daemon_Start (demo_daemon_env b c) demo_daemon_config = startSeedServerLocked (demo_daemon_env b c) d3"
    "pc_listeners d3 = Map.empty" "d_config d3 = demo_daemon_config" "\<forall>hs \<in> ran (pc_http d3). \<not> hs_listening hs"
proof -
  let ?e = "demo_daemon_env b c"
  obtain d1 where 1: "openRepositoriesLocked ?e (new_Daemon demo_daemon_config) = (None, d1)"
    using demo_open by (auto simp: openRepositoriesLocked_def demo_daemon_env_def demo_world_def new_Daemon_def)
  have f1: "pc_listeners d1 = Map.empty" "pc_http d1 = Map.empty" "d_httpServer d1 = None"
    using 1 by (auto simp: openRepositoriesLocked_def new_Daemon_def Let_def split: sum.splits)
  have c1: "d_config d1 = demo_daemon_config" "catalogue_open d1 demo_daemon_config"
    using openRepositories_None [OF 1] by (simp_all add: new_Daemon_def)
  then obtain p where p: "d_repo d1 = Some p" by (auto simp: catalogue_open_def repository_def bind_eq_Some_conv)
  obtain d2 where 2: "startDiscoveryLocked ?e d1 = (None, d2)" using demo_discovery [OF c1(1) p] by blast
  from startDiscovery_None [OF 2 p] f1 c1 have f2: "pc_listeners d2 = Map.empty" "pc_http d2 = Map.empty"
    "d_httpServer d2 = None" "d_config d2 = demo_daemon_config" "repository d2 \<noteq> None"
    by (auto simp: catalogue_open_def)
  obtain s where "upstreamURL ''https://a.org/x'' ''/'' [] = Inr s"
    using validated_upstream [OF demo_daemon_config_valid] by auto
  then obtain d3 where 3: "startHTTPServerLocked d2 = (None, d3)" using http_progress [OF f2(5)] f2(4) by auto
  have "pc_listeners d3 = Map.empty" "d_config d3 = demo_daemon_config" "\<forall>hs \<in> ran (pc_http d3). \<not> hs_listening hs"
    using 3 f2 by (auto simp: startHTTPServerLocked_def Let_def drop_at_def split: option.splits)
  moreover have "Daemon_Start ?e demo_daemon_config = startSeedServerLocked ?e d3"
    unfolding Daemon_Start_def and_then_def by (simp add: 1 2 3)
  ultimately show thesis by (intro that)
qed

lemma demo_listen:
  assumes "pc_listeners d = Map.empty" "\<forall>hs \<in> ran (pc_http d). \<not> hs_listening hs"
  shows "net_Listen (demo_daemon_env b c) (stopSeedServerLocked d) addr \<longleftrightarrow> b"
  using assms by (auto simp: net_Listen_def stopSeedServerLocked_def drop_at_def demo_daemon_env_def split: option.splits)

lemma demo_start:
  obtains d where "Daemon_Start (demo_daemon_env True c) demo_daemon_config = (None, d)"
    "serving d demo_daemon_config ''https://a.org/x'' ''/tmp''" "daemon_inv d"
proof -
  obtain d3 where d3: "Daemon_Start (demo_daemon_env True c) demo_daemon_config = startSeedServerLocked (demo_daemon_env True c) d3"
    "pc_listeners d3 = Map.empty" "d_config d3 = demo_daemon_config" "\<forall>hs \<in> ran (pc_http d3). \<not> hs_listening hs"
    by (rule demo_start_stages)
  have "d_config (stopSeedServerLocked d3) = demo_daemon_config" using d3(3) by (simp add: stopSeedServerLocked_def)
  then obtain d where d: "Daemon_Start (demo_daemon_env True c) demo_daemon_config = (None, d)"
    unfolding d3(1) by (auto simp: startSeedServerLocked_def demo_listen [OF d3(2,4)] Let_def)
  show thesis
    using that [OF d] start_serves [OF d] start_inv [of "demo_daemon_env True c" demo_daemon_config]
    by (simp add: d)
qed

theorem stop_releases_everything_witness:
  "\<exists>d. run daemon_step (snd (Daemon_Start (demo_daemon_env True demo_config) demo_daemon_config)) [DmStop] d \<and> idle (Daemon_Stop d)"
proof -
  have r: "run daemon_step (snd (Daemon_Start (demo_daemon_env True demo_config) demo_daemon_config)) [DmStop]
      (Daemon_Stop (snd (Daemon_Start (demo_daemon_env True demo_config) demo_daemon_config)))"
    by (blast intro: run.intros dm_stop)
  from stop_releases_everything [OF r]
  have i: "idle (Daemon_Stop (Daemon_Stop (snd (Daemon_Start (demo_daemon_env True demo_config) demo_daemon_config))))" by simp
  show ?thesis by (rule exI) (rule conjI [OF r i])
qed

theorem startup_failures_are_environmental_witness:
  "\<exists>d. Daemon_Start (demo_daemon_env False demo_config) demo_daemon_config = (Some (DeServingAddr ''0.0.0.0:9002''), d) \<and>
     d_seedListener d = None"
proof -
  obtain d3 where d3: "Daemon_Start (demo_daemon_env False demo_config) demo_daemon_config =
      startSeedServerLocked (demo_daemon_env False demo_config) d3"
    "pc_listeners d3 = Map.empty" "d_config d3 = demo_daemon_config" "\<forall>hs \<in> ran (pc_http d3). \<not> hs_listening hs"
    by (rule demo_start_stages)
  have "d_config (stopSeedServerLocked d3) = demo_daemon_config" using d3(3) by (simp add: stopSeedServerLocked_def)
  then obtain d where d: "Daemon_Start (demo_daemon_env False demo_config) demo_daemon_config =
      (Some (DeServingAddr ''0.0.0.0:9002''), d)"
    unfolding d3(1) by (auto simp: startSeedServerLocked_def demo_listen [OF d3(2,4)] Let_def)
  from startup_failures_are_environmental [OF demo_daemon_config_valid d] d show ?thesis by simp
qed

text \<open>The daemon's own listener never keeps the seeder from taking its address again.\<close>

lemma own_listener_does_not_block:
  assumes "daemon_inv d" "facade_up d c up tmp" "addr \<noteq> cf_FacadeAddr c"
  shows "net_Listen e (stopSeedServerLocked d) addr \<longleftrightarrow> de_bind e addr"
proof -
  obtain hid hs where h: "d_httpServer d = Some hid" "pc_http d hid = Some hs" "hs_addr hs = cf_FacadeAddr c"
    using assms(2) by (auto simp: facade_up_def)
  have "owned (Some hid) (pc_http d)" using assms(1) h(1) by (simp add: daemon_inv_def)
  from owned_only [OF this] h have "\<And>x. x \<in> ran (pc_http d) \<Longrightarrow> hs_addr x = cf_FacadeAddr c"
    by (fastforce simp: ran_def)
  then have "addr \<notin> hs_addr ` {hs \<in> ran (pc_http d). hs_listening hs}" using assms(3) by auto
  then show ?thesis using assms(1) by (simp add: net_Listen_def stopSeedServerLocked_def daemon_inv_def)
qed

definition demo_caps_config :: DaemonConfig where
  "demo_caps_config = demo_daemon_config\<lparr>cf_MaxConcurrentSeeds := 4\<rparr>"

lemma demo_caps_config_ok: "new_config (demo_daemon_env b demo_caps_config) = Inr demo_caps_config"
proof (rule new_config_demo)
  show "ValidateFields demo_caps_config = None"
    using demo_daemon_config_valid
    by (simp add: demo_caps_config_def ValidateFields_def split: if_splits option.splits sum.splits)
  show "config_text_ok demo_caps_config"
    using demo_config_text by (simp add: config_text_ok_def demo_caps_config_def demo_daemon_config_def int64_def valid_utf8_plain plain_char_def)
qed (simp_all add: demo_caps_config_def)

lemma demo_caps_reload:
  assumes "serving d demo_daemon_config ''https://a.org/x'' ''/tmp''"
  shows "Daemon_Reload (demo_daemon_env b demo_caps_config) d =
    startSeedServerLocked (demo_daemon_env b demo_caps_config) (d\<lparr>d_config := demo_caps_config\<rparr>)"
proof -
  have "d_config d = demo_daemon_config" using assms by (simp add: serving_def)
  moreover have "facadeChanged demo_daemon_config demo_caps_config = False" "servingChanged demo_daemon_config demo_caps_config = False"
    "trackerChanged demo_daemon_config demo_caps_config = False" "cacheChanged demo_daemon_config demo_caps_config = False"
    "repoDBChanged demo_daemon_config demo_caps_config = False" "capsChanged demo_daemon_config demo_caps_config = True"
    by (simp_all add: demo_caps_config_def facadeChanged_def servingChanged_def trackerChanged_def cacheChanged_def
        repoDBChanged_def capsChanged_def)
  ultimately show ?thesis
    by (simp add: Daemon_Reload_def demo_caps_config_ok apply_config_def if_stale_def and_then_def Let_def)
qed

lemma demo_caps_listen:
  assumes "serving d demo_daemon_config ''https://a.org/x'' ''/tmp''" "daemon_inv d"
  shows "net_Listen (demo_daemon_env b c) (stopSeedServerLocked (d\<lparr>d_config := demo_caps_config\<rparr>)) ''0.0.0.0:9002'' \<longleftrightarrow> b"
proof -
  have "facade_up (d\<lparr>d_config := demo_caps_config\<rparr>) demo_daemon_config ''https://a.org/x'' ''/tmp''"
    using assms(1) by (simp add: serving_def facade_up_def)
  from own_listener_does_not_block [OF config_inv [OF assms(2)] this, of "''0.0.0.0:9002''"]
  show ?thesis by (simp add: demo_daemon_env_def)
qed

theorem reload_serves_new_config_witness:
  "\<exists>d d'. Daemon_Reload (demo_daemon_env True demo_caps_config) d = (None, d') \<and>
     serving d demo_daemon_config ''https://a.org/x'' ''/tmp'' \<and> serving d' demo_caps_config ''https://a.org/x'' ''/tmp''"
proof -
  let ?e = "demo_daemon_env True demo_caps_config"
  obtain d where d: "serving d demo_daemon_config ''https://a.org/x'' ''/tmp''" "daemon_inv d"
    using demo_start [of demo_config] by metis
  let ?d = "d\<lparr>d_config := demo_caps_config\<rparr>"
  have c: "d_config (stopSeedServerLocked ?d) = demo_caps_config" "cf_CacheDir demo_caps_config = ''/r''"
    "cf_ServingAddr demo_caps_config = ''0.0.0.0:9002''" by (simp_all add: stopSeedServerLocked_def demo_caps_config_def)
  obtain d' where r: "Daemon_Reload ?e d = (None, d')"
    unfolding demo_caps_reload [OF d(1)] startSeedServerLocked_def Let_def c demo_caps_listen [OF d] by simp
  have "\<not> (facadeChanged demo_daemon_config demo_caps_config \<or> trackerChanged demo_daemon_config demo_caps_config \<or>
      repoDBChanged demo_daemon_config demo_caps_config)"
    by (simp add: demo_caps_config_def facadeChanged_def trackerChanged_def repoDBChanged_def)
  with reload_serves_new_config [OF d(1) r] have "serving d' demo_caps_config ''https://a.org/x'' ''/tmp''"
    by (simp add: demo_caps_config_ok)
  with d(1) r show ?thesis by blast
qed

text \<open>The address is taken for a moment; afterwards the seeder is gone and a second SIGHUP does not bring it back.\<close>

theorem failed_reload_is_not_retried_witness:
  "\<exists>d d1. Daemon_Reload (demo_daemon_env False demo_caps_config) d = (Some (DeServingAddr ''0.0.0.0:9002''), d1) \<and>
     serving d demo_daemon_config ''https://a.org/x'' ''/tmp'' \<and> d_seedServer d1 = None \<and>
     Daemon_Reload (demo_daemon_env True demo_caps_config) d1 = (None, d1)"
proof -
  let ?e = "demo_daemon_env False demo_caps_config"
  obtain d where d: "serving d demo_daemon_config ''https://a.org/x'' ''/tmp''" "daemon_inv d"
    using demo_start [of demo_config] by metis
  let ?d = "d\<lparr>d_config := demo_caps_config\<rparr>"
  have c: "d_config (stopSeedServerLocked ?d) = demo_caps_config" "cf_CacheDir demo_caps_config = ''/r''"
    "cf_ServingAddr demo_caps_config = ''0.0.0.0:9002''" by (simp_all add: stopSeedServerLocked_def demo_caps_config_def)
  have r: "Daemon_Reload ?e d = (Some (DeServingAddr ''0.0.0.0:9002''), stopSeedServerLocked ?d)"
    unfolding demo_caps_reload [OF d(1)] startSeedServerLocked_def Let_def c demo_caps_listen [OF d] by simp
  have s: "d_seedServer (stopSeedServerLocked ?d) = None" by (simp add: stopSeedServerLocked_def)
  from failed_reload_is_not_retried [OF demo_caps_config_ok r demo_caps_config_ok, of True]
  show ?thesis using d(1) r s by blast
qed

theorem reload_ignores_upstream_witness:
  "\<exists>d. serving d demo_daemon_config ''https://a.org/x'' ''/tmp'' \<and>
     Daemon_Reload (demo_daemon_env True (demo_daemon_config\<lparr>cf_UpstreamURL := ''https://b.org/x'', cf_TempDir := ''/tmp''\<rparr>)) d =
       (None, d\<lparr>d_config := demo_daemon_config\<lparr>cf_UpstreamURL := ''https://b.org/x'', cf_TempDir := ''/tmp''\<rparr>\<rparr>)"
proof -
  let ?c = "demo_daemon_config\<lparr>cf_UpstreamURL := ''https://b.org/x'', cf_TempDir := ''/tmp''\<rparr>"
  obtain d where d: "serving d demo_daemon_config ''https://a.org/x'' ''/tmp''"
    using demo_start [of demo_config] by metis
  have "validateUpstreamURL ''https://b.org/x'' = None"
    by (simp add: validateUpstreamURL_def ParseRequestURI_def config_url_eval CutPrefix_def)
  then have v: "ValidateFields ?c = None"
    using demo_daemon_config_valid by (simp add: ValidateFields_def split: if_splits option.splits sum.splits)
  have t: "config_text_ok ?c"
    using demo_config_text by (simp add: config_text_ok_def demo_daemon_config_def valid_utf8_plain plain_char_def)
  have n: "new_config (demo_daemon_env True ?c) = Inr ?c" by (rule new_config_demo [OF v t]) simp_all
  from reload_ignores_upstream [of d demo_daemon_config, OF _ n] d show ?thesis by auto
qed

theorem catalogue_refresh_reaches_every_reader_witness:
  "\<exists>d i d' r. daemon_step d (DmRepoFire i demo_world) d' \<and> repository d' = Some r \<and>
     OpenRepositories demo_repo_root demo_sqlite (\<lambda>_. [''zip-3'']) ''/r'' = Inr r"
proof -
  obtain d where d: "serving d demo_daemon_config ''https://a.org/x'' ''/tmp''" "daemon_inv d"
    using demo_start [of demo_config] by metis
  obtain r where r: "OpenRepositories demo_repo_root demo_sqlite (\<lambda>_. [''zip-3'']) ''/r'' = Inr r"
    using demo_open by blast
  obtain p r0 rid rw where s: "pc_repos d p = Some r0" "repo_dir r0 = cf_RepoDBDir demo_daemon_config"
    "pc_repoWatchers d rid = Some rw" "pr_repo rw = p"
    by (rule serving_parts [OF d]) (rule that; assumption)
  have "repo_reload demo_world r0 = (None, r)"
    using r s(2) by (simp add: repo_reload_def Reload_reopens demo_world_def)
  with s have "\<exists>d'. daemon_step d (DmRepoFire rid demo_world) d'" using dm_repo_ok by blast
  then obtain d' where st: "daemon_step d (DmRepoFire rid demo_world) d'" ..
  have "repository d' = Some r"
    using catalogue_refresh_reaches_every_reader [OF d st] r by (simp add: demo_world_def)
  with st r show ?thesis by blast
qed

theorem notifications_reach_the_keepalive_witness:
  "\<exists>d i d' kid. daemon_step d (DmCacheEvent i) d' \<and> d_done d' = Some kid \<and> (\<exists>d''. daemon_step d' (DmAnnounce kid) d'')"
proof -
  obtain d where d: "serving d demo_daemon_config ''https://a.org/x'' ''/tmp''" "daemon_inv d"
    using demo_start [of demo_config] by metis
  obtain wid cw where "pc_watchers d wid = Some cw"
    by (rule serving_parts [OF d]) (rule that; assumption)
  then have st: "daemon_step d (DmCacheEvent wid) (nudge (cw_chan cw) d)" by (rule dm_cache)
  have "DmCacheEvent wid = DmCacheEvent wid \<or> DmCacheEvent wid = DmNotHeld wid" by simp
  from notifications_reach_the_keepalive [OF d st this] st show ?thesis by blast
qed

end
