(* ===== verification/Peer_URL.thy ===== *)
theory Peer_URL
  imports Seed_Server Go_URL
begin

text \<open>
  The request of the peer wire as text (\<open>FetchFromPeer\<close> in \<open>src/internal/peer/fetch.go\<close>): the URL the
  requester builds from a peer's address and a package name, how \<open>net/http\<close> reads it back, the request
  target it puts on the wire, and the path the seeder's \<open>net/http\<close> decodes from that target.

  The lemmas show that nothing is lost or reinterpreted on the way: every name, with whatever bytes, is
  asked for at the address the tracker gave and arrives at the handler as it was.
\<close>

definition peer_url :: "string \<Rightarrow> string \<Rightarrow> string" where
  "peer_url addr p = URL_String (empty_url\<lparr>Scheme := ''http'', Host := addr, URLPath := p\<rparr>)"

text \<open>\<open>URL.RequestURI\<close>: the target of a request line.\<close>

definition RequestURI :: "URL \<Rightarrow> string" where
  "RequestURI u =
     (let p = (if EscapedPath u = [] then ''/'' else EscapedPath u)
      in p @ (if ForceQuery u \<or> RawQuery u \<noteq> [] then CHR ''?'' # RawQuery u else []))"

text \<open>
  One GET from a requester to a seeder.  A target the server cannot parse is answered by \<open>net/http\<close> itself.
\<close>

definition http_get :: "Server \<Rightarrow> string \<Rightarrow> string \<Rightarrow> string \<Rightarrow> peer_reply" where
  "http_get s remote addr p =
     (case Parse (peer_url addr p) of
        None \<Rightarrow> NoRequest
      | Some u \<Rightarrow>
          (case ParseRequestURI (RequestURI u) of
             None \<Rightarrow> Reply \<lparr>StatusCode = 400, ContentLength = -1, Header = [], Body = Finite [] False\<rparr>
           | Some v \<Rightarrow> seeder_reply s remote (URLPath v)))"

subsection \<open>Escaped paths\<close>

lemma escape1_path_ctl: "x \<in> set (escape1 encodePath c) \<Longrightarrow> \<not> ctl_byte x"
proof (cases "shouldEscape encodePath c")
  case True
  have "(of_char c :: nat) div 16 < 16" "(of_char c :: nat) mod 16 < 16" by (simp_all add: less_mult_imp_div_less)
  then have "hex_digit (upper_hex (of_char c div 16)) \<noteq> None" "hex_digit (upper_hex (of_char c mod 16)) \<noteq> None"
    by (simp_all add: hex_digit_upper)
  moreover have "\<not> ctl_byte x" if "hex_digit x \<noteq> None" for x
    using that by (auto simp: hex_digit_def ctl_byte_def Let_def split: if_splits)
  moreover have "\<not> ctl_byte (CHR ''%'')" by (simp add: ctl_byte_def)
  moreover assume "x \<in> set (escape1 encodePath c)"
  ultimately show ?thesis using True by (auto simp: escape1_def)
next
  case False
  assume x: "x \<in> set (escape1 encodePath c)"
  have "\<not> ctl_byte c"
  proof
    assume ctl: "ctl_byte c"
    then have "\<not> alnum c" by (auto simp: ctl_byte_def alnum_def Let_def)
    moreover have "c \<notin> set ''-_.~''" "c \<notin> set ''$&+,/:;=?@''" using ctl by (auto simp: ctl_byte_def)
    ultimately show False using False by (simp add: shouldEscape_def)
  qed
  with x False show ?thesis by (simp add: escape1_def)
qed

lemma escape_path_ctl: "\<not> list_ex ctl_byte (escape encodePath s)"
  using escape1_path_ctl by (fastforce simp: escape_def list_ex_iff)

lemma escape_path_slash: "escape encodePath (CHR ''/'' # s) = CHR ''/'' # escape encodePath s"
  by (simp add: escape_def escape1_def shouldEscape_def alnum_def)

lemma split_query_none: "CHR ''?'' \<notin> set s \<Longrightarrow> split_query s = (s, [], False)"
proof -
  assume q: "CHR ''?'' \<notin> set s"
  then have "\<not> HasSuffix s ''?''" by (auto simp: HasSuffix_iff)
  moreover have tw: "takeWhile (\<lambda>x. x \<noteq> CHR ''?'') s = s" and dw: "dropWhile (\<lambda>x. x \<noteq> CHR ''?'') s = []"
    using q by (auto simp: takeWhile_eq_all_conv dropWhile_eq_Nil_conv)
  ultimately show ?thesis unfolding split_query_def cut_def tw dw by simp
qed

lemma getScheme_rooted: "getScheme (CHR ''/'' # s) = Some ([], CHR ''/'' # s)"
  by (simp add: getScheme_def scheme_char_def is_letter_def is_digit_def)

text \<open>The seeder decodes the target it is sent to the path that was asked for.\<close>

lemma ParseRequestURI_escaped:
  assumes "\<not> HasPrefix p ''//''" "HasPrefix p ''/''"
  shows "ParseRequestURI (escape encodePath p) = Some (empty_url\<lparr>URLPath := p\<rparr>)"
proof -
  obtain q where p: "p = CHR ''/'' # q" using assms(2) by (auto simp: HasPrefix_iff)
  let ?e = "CHR ''/'' # escape encodePath q"
  have e: "escape encodePath p = ?e" by (simp add: p escape_path_slash)
  have "\<not> list_ex ctl_byte ?e" using escape_path_ctl [of p] e by simp
  moreover have "split_query ?e = (?e, [], False)"
    using escape_path_delims(1) [of p] e by (intro split_query_none) simp
  moreover have "unescape encodePath ?e = Some p" using unescape_escape_path [of p] e by simp
  ultimately show ?thesis unfolding e ParseRequestURI_def url_parse_def
    by (simp add: getScheme_rooted ToLower_def setPath_def HasPrefix_iff empty_url_def)
qed

subsection \<open>Addresses\<close>

text \<open>An address as the tracker's clients write it: an IP literal and a decimal port.\<close>

lemma ip_char_host:
  assumes "ip_char c"
  shows "c \<noteq> CHR ''%''" "\<not> shouldEscape encodeHost c" "c \<notin> set ''/?#@[]''" "\<not> ctl_byte c"
proof -
  consider "c = CHR ''.''" | "c = CHR '':''" | "48 \<le> (of_char c :: nat) \<and> (of_char c :: nat) \<le> 57"
    | "65 \<le> (of_char c :: nat) \<and> (of_char c :: nat) \<le> 70" | "97 \<le> (of_char c :: nat) \<and> (of_char c :: nat) \<le> 102"
    using assms by (auto simp: ip_char_def is_hex_def hex_digit_def Let_def split: if_splits)
  then show "c \<noteq> CHR ''%''" "\<not> shouldEscape encodeHost c" "c \<notin> set ''/?#@[]''" "\<not> ctl_byte c"
    by (cases; auto simp: shouldEscape_def alnum_def ctl_byte_def)+
qed

lemma host_escape_id: "\<forall>c \<in> set s. \<not> shouldEscape encodeHost c \<Longrightarrow> escape encodeHost s = s"
  by (induction s) (auto simp: escape_def escape1_def)

lemma host_unescape_id: "\<forall>c \<in> set s. c \<noteq> CHR ''%'' \<and> \<not> shouldEscape encodeHost c \<Longrightarrow> unescape encodeHost s = Some s"
  by (induction s) auto

lemma nat_dec_digit: "c \<in> set (nat_dec n) \<Longrightarrow> is_digit c"
  using nat_dec_digits [of n] by (simp add: list_all_iff)

lemma JoinHostPort_chars:
  assumes "ParseIP ip = Some v" "c \<in> set (JoinHostPort ip (nat_dec n))"
  shows "ip_char c \<or> c \<in> set ''[]''"
  using assms(2) ParseIP_chars [OF assms(1)] nat_dec_digit [of c n]
  by (auto simp: JoinHostPort_def list_all_iff ip_char_def is_digit_hex split: if_splits)

lemma parseHost_address:
  assumes "ParseIP ip = Some v"
  shows "parseHost (JoinHostPort ip (nat_dec n)) = Some (JoinHostPort ip (nat_dec n))"
proof (cases "CHR '':'' \<in> set ip")
  case True
  let ?h = "CHR ''['' # ip @ CHR '']'' # CHR '':'' # nat_dec n"
  have j: "JoinHostPort ip (nat_dec n) = ?h" using True by (simp add: JoinHostPort_def)
  have "parseIPv6 ip \<noteq> None"
  proof (rule ccontr)
    assume "\<not> parseIPv6 ip \<noteq> None"
    then have "parseIPv4 ip \<noteq> None" using assms by (auto simp: ParseIP_def split: option.splits if_splits)
    then obtain w where "list_all v4_field (Split ip (CHR ''.''))"
      by (auto simp: parseIPv4_def Let_def split: if_splits)
    then have "\<forall>c \<in> set (Join (Split ip (CHR ''.'')) ''.''). is_digit c \<or> c = CHR ''.''"
      using set_Join [of "Split ip (CHR ''.'')" "''.''"] by (auto simp: list_all_iff v4_field_def)
    with True show False by (auto simp: is_digit_def)
  qed
  moreover have "LastIndex ((CHR ''['' # ip) @ CHR '']'' # CHR '':'' # nat_dec n) (CHR '']'') = Some (length (CHR ''['' # ip))"
    using nat_dec_digit [of "CHR '']''" n] by (intro LastIndex_append) (auto simp: is_digit_def)
  moreover have "validOptionalPort (CHR '':'' # nat_dec n)" using nat_dec_digits by (simp add: validOptionalPort_def)
  ultimately show ?thesis unfolding j by (simp add: parseHost_def HasPrefix_iff)
next
  case False
  let ?h = "ip @ CHR '':'' # nat_dec n"
  have j: "JoinHostPort ip (nat_dec n) = ?h" using False by (simp add: JoinHostPort_def)
  have ch: "ip_char c" if "c \<in> set ?h" for c
    using that ParseIP_chars [OF assms] nat_dec_digit [of c n] by (auto simp: list_all_iff ip_char_def is_digit_hex)
  then have "CHR ''['' \<notin> set ?h" using ip_char_host(3) [of "CHR ''[''"] by auto
  moreover from this have "\<not> HasPrefix ?h ''[''" by (cases ip) (auto simp: HasPrefix_def)
  moreover have "LastIndex ?h (CHR '':'') = Some (length ip)"
    using nat_dec_digit [of "CHR '':''" n] by (intro LastIndex_append) (auto simp: is_digit_def)
  moreover have "validOptionalPort (CHR '':'' # nat_dec n)" using nat_dec_digits by (simp add: validOptionalPort_def)
  moreover have "unescape encodeHost ?h = Some ?h"
    using ch ip_char_host(1,2) by (intro host_unescape_id) blast
  ultimately show ?thesis unfolding j by (simp add: parseHost_def)
qed

subsection \<open>The request\<close>

lemma address_host:
  assumes "ParseIP ip = Some v" "c \<in> set (JoinHostPort ip (nat_dec n))"
  shows "\<not> shouldEscape encodeHost c" "\<not> ctl_byte c" "c \<notin> set ''/?#@''"
proof -
  from JoinHostPort_chars [OF assms] consider (ip) "ip_char c" | (left) "c = CHR ''[''" | (right) "c = CHR '']''" by auto
  then have "\<not> shouldEscape encodeHost c \<and> \<not> ctl_byte c \<and> c \<notin> set ''/?#@''"
    by cases (use ip_char_host [of c] in \<open>simp_all add: shouldEscape_def ctl_byte_def\<close>)
  then show "\<not> shouldEscape encodeHost c" "\<not> ctl_byte c" "c \<notin> set ''/?#@''" by simp_all
qed

lemma peer_url_text:
  assumes "ParseIP ip = Some v"
  shows "peer_url (JoinHostPort ip (nat_dec n)) (CHR ''/'' # p) =
    ''http:'' @ ''//'' @ JoinHostPort ip (nat_dec n) @ CHR ''/'' # escape encodePath p"
proof -
  have "escape encodeHost (JoinHostPort ip (nat_dec n)) = JoinHostPort ip (nat_dec n)"
    using address_host(1) [OF assms] by (intro host_escape_id) blast
  then show ?thesis
    by (simp add: peer_url_def URL_String_def EscapedPath_def empty_url_def userinfo_str_def escape_path_slash)
qed

lemma Parse_peer_url:
  assumes "ParseIP ip = Some v"
  shows "Parse (peer_url (JoinHostPort ip (nat_dec n)) (CHR ''/'' # p)) =
    Some (empty_url\<lparr>Scheme := ''http'', Host := JoinHostPort ip (nat_dec n), URLPath := CHR ''/'' # p\<rparr>)"
proof -
  let ?a = "JoinHostPort ip (nat_dec n)" and ?e = "escape encodePath (CHR ''/'' # p)"
  let ?raw = "''http:'' @ ''//'' @ ?a @ ?e"
  have raw: "peer_url ?a (CHR ''/'' # p) = ?raw" using peer_url_text [OF assms] by (simp add: escape_path_slash)
  note host = address_host [OF assms, of _ n]
  have hash: "CHR ''#'' \<notin> set ?raw" using host(3) [of "CHR ''#''"] escape_path_delims(2) [of "CHR ''/'' # p"] by auto
  have c: "cut (CHR ''#'') ?raw = (?raw, [])"
  proof -
    have tw: "takeWhile (\<lambda>x. x \<noteq> CHR ''#'') ?raw = ?raw" and dw: "dropWhile (\<lambda>x. x \<noteq> CHR ''#'') ?raw = []"
      using hash by (subst takeWhile_eq_all_conv dropWhile_eq_Nil_conv, blast)+
    show ?thesis unfolding cut_def tw dw by simp
  qed
  have ctl: "\<not> list_ex ctl_byte ?raw"
    using host(2) escape_path_ctl [of "CHR ''/'' # p"] by (auto simp: list_ex_iff) (auto simp: ctl_byte_def)
  have scheme: "getScheme ?raw = Some (''http'', ''//'' @ ?a @ ?e)"
    by (simp add: getScheme_def scheme_char_def is_letter_def is_digit_def)
  have query: "split_query (''//'' @ ?a @ ?e) = (''//'' @ ?a @ ?e, [], False)"
    using host(3) [of "CHR ''?''"] escape_path_delims(1) [of "CHR ''/'' # p"] by (intro split_query_none) auto
  have noslash: "\<forall>x \<in> set ?a. x \<noteq> CHR ''/''" using host(3) [of "CHR ''/''"] by auto
  have split: "takeWhile (\<lambda>c. c \<noteq> CHR ''/'') (?a @ ?e) = ?a" "dropWhile (\<lambda>c. c \<noteq> CHR ''/'') (?a @ ?e) = ?e"
    using noslash by (simp_all add: takeWhile_append2 dropWhile_append2 escape_path_slash)
  have "LastIndex ?a (CHR ''@'') = None" using host(3) [of "CHR ''@''"] by (auto simp: LastIndex_None)
  then have auth: "parseAuthority ?a = Some (None, ?a)"
    using parseHost_address [OF assms] by (simp add: parseAuthority_def)
  have "url_parse False ?raw = Some (empty_url\<lparr>Scheme := ''http'', Host := ?a, URLPath := CHR ''/'' # p\<rparr>)"
    unfolding url_parse_def Let_def scheme
    using ctl query split auth unescape_escape_path [of "CHR ''/'' # p"]
    by (simp add: HasPrefix_def setPath_def ToLower_def ascii_lower_def empty_url_def)
  then show ?thesis unfolding raw Parse_def c by simp
qed

text \<open>A GET over the wire is the GET the handler sees.\<close>

lemma http_get_seeder:
  assumes "ParseIP ip = Some v" "0 \<le> port"
  shows "http_get s remote (JoinHostPort ip (Itoa port)) (''/pkg/'' @ nv) = seeder_reply s remote (''/pkg/'' @ nv)"
proof -
  have "ParseRequestURI (escape encodePath (''/pkg/'' @ nv)) = Some (empty_url\<lparr>URLPath := ''/pkg/'' @ nv\<rparr>)"
    by (rule ParseRequestURI_escaped) (simp_all add: HasPrefix_iff)
  then show ?thesis
    using assms(2) Parse_peer_url [OF assms(1), of "nat port" "''pkg/'' @ nv"]
    by (simp add: http_get_def Itoa_def RequestURI_def EscapedPath_def empty_url_def escape_path_slash)
qed

text \<open>
  C14: The name on the wire.  For an address that is an IP literal with a port, and any name the requester accepts,
  the URL it builds is read back as a plain HTTP URL of exactly that address with that path and no query,
  and the request target is decoded to the very same path, whatever bytes the name consists of: percent
  signs, question marks, spaces or bytes beyond ASCII included.  What the seeder makes of the path depends on
  slashes only: without one it reads the very name that was asked for, and with one, which \<open>validName\<close> lets
  through, it answers 400.\<close>

theorem peer_request_roundtrip:
  assumes "ParseIP ip = Some v" "0 \<le> port" "validName nv"
  shows "\<exists>u w. Parse (peer_url (JoinHostPort ip (Itoa port)) (packagePathPrefix @ nv)) = Some u \<and>
    Scheme u = ''http'' \<and> User u = None \<and> Host u = JoinHostPort ip (Itoa port) \<and> RawQuery u = [] \<and>
    ParseRequestURI (RequestURI u) = Some w \<and> RawQuery w = [] \<and> URLPath w = ''/pkg/'' @ nv \<and>
    packagePath (URLPath w) = (if CHR ''/'' \<in> set nv then None else Some nv) \<and>
    (CHR ''/'' \<in> set nv \<longrightarrow>
      StatusCode (fst (ServeHTTP \<lparr>Method = ''GET'', URL_Path = URLPath w, RemoteAddr = remote\<rparr> s)) = 400)"
proof -
  have "ParseRequestURI (escape encodePath (''/pkg/'' @ nv)) = Some (empty_url\<lparr>URLPath := ''/pkg/'' @ nv\<rparr>)"
    by (rule ParseRequestURI_escaped) (simp_all add: HasPrefix_iff)
  moreover have pp: "packagePath (''/pkg/'' @ nv) = (if CHR ''/'' \<in> set nv then None else Some nv)"
    using packagePath_eq [of "''/pkg/'' @ nv"] validName_not_Nil [OF assms(3)]
    by (cases "packagePath (''/pkg/'' @ nv)") auto
  moreover have "StatusCode (fst (ServeHTTP \<lparr>Method = ''GET'', URL_Path = ''/pkg/'' @ nv, RemoteAddr = remote\<rparr> s)) = 400"
    if "CHR ''/'' \<in> set nv"
    using pp that by (simp add: ServeHTTP_def seed_admit_def peerError_def Let_def)
  ultimately show ?thesis
    using assms(2) Parse_peer_url [OF assms(1), of "nat port" "''pkg/'' @ nv"]
    by (simp add: packagePathPrefix_def Itoa_def RequestURI_def EscapedPath_def empty_url_def escape_path_slash)
qed

theorem peer_request_roundtrip_witness:
  "(\<exists>w. packagePath (URLPath w) = Some ''a%?#b-1'' \<and>
      (\<exists>u. Parse (peer_url (JoinHostPort ''10.0.0.1'' (Itoa 9002)) (packagePathPrefix @ ''a%?#b-1'')) = Some u \<and>
           ParseRequestURI (RequestURI u) = Some w)) \<and>
   (\<exists>w. StatusCode (fst (ServeHTTP \<lparr>Method = ''GET'', URL_Path = URLPath w, RemoteAddr = ''r''\<rparr> demo_server)) = 400 \<and>
      (\<exists>u. Parse (peer_url (JoinHostPort ''10.0.0.1'' (Itoa 9002)) (packagePathPrefix @ ''a/b-1'')) = Some u \<and>
           ParseRequestURI (RequestURI u) = Some w))"
proof -
  have "ParseIP ''10.0.0.1'' \<noteq> None"
    by (simp add: ParseIP_def parseIPv4_def v4_field_def Let_def dec_value_def is_digit_def)
  then obtain v where v: "ParseIP ''10.0.0.1'' = Some v" by blast
  have names: "validName ''a%?#b-1''" "validName ''a/b-1''" by (simp_all add: validName_def control_char_def)
  have slash: "CHR ''/'' \<notin> set ''a%?#b-1''" "CHR ''/'' \<in> set ''a/b-1''" by simp_all
  show ?thesis
    using peer_request_roundtrip [OF v _ names(1), of 9002 "''r''" demo_server]
      peer_request_roundtrip [OF v _ names(2), of 9002 "''r''" demo_server]
    unfolding if_not_P [OF slash(1)] using slash(2) by (simp del: append.simps) blast
qed

end
