(* ===== verification/Delivery.thy ===== *)
theory Delivery
  imports Discovery Facade Peer_URL
begin

text \<open>
  The parts put together: a daemon that announces its cache through the tracker, and another one whose
  facade pkg asks for a package.  Everything between the two caches is the modelled code: the scan, the
  keep-alive, the codec, the tracker server, the client, the fetch loop, the seeder and the facade.
\<close>

text \<open>What a registered announce leaves in the registry, deadline included.\<close>

lemma announce_registers:
  assumes "swarm_inv sw" "sw_net sw = NetUp" "swarm_ip sw = Some ip" "swarm_scan sw = (Some nvs, sw1)"
    "announceable (ka_port k) nvs" "nvs \<noteq> []"
    "KeepAlive_announce swarm_scan swarm_announce (k, sw) = (k', sw')"
  shows "tr_peers (sw_server sw') = (tr_peers (sw_server sw))(ip \<mapsto>
    \<lparr>rec_ServingPort = ka_port k, rec_Deadline = sw_now sw + tr_timeout (sw_server sw), rec_Packages = set nvs\<rparr>)"
proof -
  have s1: "sw1 = sw\<lparr>sw_watcher := sw_watcher sw1\<rparr>" by (rule swarm_scan_frame [OF assms(4)])
  have f: "swarm_inv sw1" "sw_net sw1 = NetUp" "swarm_ip sw1 = Some ip" "sw_now sw1 = sw_now sw" "sw_server sw1 = sw_server sw"
    by (subst s1, use assms(1-3) in \<open>simp add: swarm_ip_def\<close>)+
  obtain sw2 where a: "swarm_announce (ka_port k) nvs sw1 = (None, sw2)"
    using swarm_announce_up [OF f(1,2) assms(5)] by (cases "swarm_announce (ka_port k) nvs sw1") auto
  have "sw' = sw2" using assms(4,7) a by (simp add: KeepAlive_announce_def)
  moreover have "list_all wire_name nvs" using assms(5) by (simp add: announceable_def)
  ultimately show ?thesis
    using swarm_announce_ok [OF f(1) a] f assms(6) by (auto simp: Announce_peers spec_Announce_def)
qed

text \<open>The peer lister of a facade: the tracker client over the wire.\<close>

definition wire_lister :: "swarm \<Rightarrow> string \<Rightarrow> string list option" where
  "wire_lister sw nv = (case fst (swarm_peers nv sw) of Inl _ \<Rightarrow> None | Inr addrs \<Rightarrow> Some addrs)"

lemma wire_lister_names_holder:
  assumes "swarm_inv sw" "sw_net sw = NetUp" "valid_name_version nv"
    "\<forall>p \<in> set (tracker_answer sw nv). dialable (IP p)"
    "3 < card (live_holders (tr_peers (sw_server sw)) nv (sw_now sw)) \<Longrightarrow> ip \<in> IP ` set (tracker_answer sw nv)"
    "tr_peers (sw_server sw) ip = Some rec" "nv \<in> rec_Packages rec" "sw_now sw \<le> rec_Deadline rec"
  shows "dialable ip \<and> (\<exists>addrs. wire_lister sw nv = Some addrs \<and> JoinHostPort ip (Itoa (rec_ServingPort rec)) \<in> set addrs \<and>
    (live_holders (tr_peers (sw_server sw)) nv (sw_now sw) = {ip} \<longrightarrow> addrs = [JoinHostPort ip (Itoa (rec_ServingPort rec))]))"
proof -
  let ?L = "live_holders (tr_peers (sw_server sw)) nv (sw_now sw)" and ?ps = "tracker_answer sw nv"
  let ?a = "JoinHostPort ip (Itoa (rec_ServingPort rec))"
  have ti: "tracker_inv (sw_server sw)" using assms(1) by (simp add: swarm_inv_def server_inv_def)
  note st = tracker_answer_step [OF assms(1), of nv]
  have "find (\<lambda>p. ParseIP (IP p) = None) ?ps = None" using assms(4) by (auto simp: find_None_iff dialable_def)
  moreover have "\<forall>p \<in> set ?ps. wire_ip (IP p)" using assms(4) dialable_wire by blast
  ultimately have w: "wire_lister sw nv = Some (map Addr ?ps)"
    using client_lookup [OF assms(1-3)] by (simp add: wire_lister_def)
  have addr: "Addr p = ?a" if "p \<in> set ?ps" "IP p = ip" for p
    using tracker_answer_sound(2) [OF assms(1) that(1)] that(2) assms(6) by (simp add: Addr_def)
  have "ip \<in> ?L" using assms(6-8) by (auto simp: live_holders_def)
  then have listed: "\<exists>p \<in> set ?ps. IP p = ip"
    using trk.lookup_lists_holder [OF ti st _ _ live_holders_finite [OF ti]] assms(5)
    by (cases "3 < card ?L") (auto simp: MaxPeers_def)
  then have "?a \<in> set (map Addr ?ps)" using addr by force
  moreover have "map Addr ?ps = [?a]" if "?L = {ip}"
  proof -
    have "length ?ps = 1" using trk.peers_card [OF ti st] that by (simp add: MaxPeers_def)
    then obtain p where "?ps = [p]" by (cases ?ps) auto
    then show ?thesis using addr [of p] tracker_answer_sound(1) [OF assms(1), of p nv] that by simp
  qed
  moreover have "dialable ip" using listed assms(4) by blast
  ultimately show ?thesis using w by simp
qed

lemma servePeers_arrives:
  assumes "f_Peers f = Some lister" "lister nv = Some addrs" "addrs \<noteq> []"
    "FetchFirst (fetch_envs e) addrs nv want (f_TempDir f) (Some (f_Blacklist f)) fs = (Inr fl, bl, is, fs1)"
  shows "\<exists>f' fs'. servePeers e f nv want fs =
    (Answered (package_answer (Size want) (Finite (case fs1 fl of None \<Rightarrow> [] | Some bs \<Rightarrow> bs) False)), f', fs')"
  using assms by (simp add: servePeers_def)

text \<open>
  C6: End to end, under these conditions.  A daemon scans a cache whose names and number the protocol can carry
  (valid UTF-8 names, at most 4096, an announce of at most 1 MiB) and announces it over a working network.
  Another daemon, whose tracker client reaches the same tracker before the deadline, is asked by pkg for one of
  the packages; the tracker names no holder whose address is not an IP literal, for such an answer is refused
  whole; if more than three live hosts hold the package, the announcing one is among the three the tracker
  picks; its address is not blacklisted; its seeder has a free slot and the cached file is the one the
  asking daemon's repository database describes; and the asking daemon's temporary directory works.  Then pkg gets
  a 200 with exactly the expected length and a body with the expected SHA-256, without the upstream mirror,
  whatever the other holders in the list send.\<close>

theorem announced_package_reaches_pkg:
  assumes \<comment> \<open>the holder announces\<close>
    "swarm_inv A" "sw_net A = NetUp" "swarm_ip A = Some ip" "swarm_scan A = (Some nvs, A1)"
    "announceable (ka_port k) nvs" "nv \<in> set nvs"
    "KeepAlive_announce swarm_scan swarm_announce (k, A) = (k', A')"
  and \<comment> \<open>its seeder\<close>
    "Source s = Some (CacheSource_Open (sw_root A) (NewCacheSource (cacheDir (sw_watcher A))))"
    "cache_holds (sw_root A) (NewCacheSource (cacheDir (sw_watcher A))) nv bs"
    "acquire (remoteIP \<lparr>Method = ''GET'', URL_Path = ''/pkg/'' @ nv, RemoteAddr = remote\<rparr>) (the_limiter s) = Inr l'"
  and \<comment> \<open>the requester's tracker client\<close>
    "swarm_inv B" "sw_net B = NetUp" "sw_server B = sw_server A'" "sw_now B \<le> sw_now A + tr_timeout (sw_server A)"
    "\<forall>p \<in> set (tracker_answer B nv). dialable (IP p)"
    "3 < card (live_holders (tr_peers (sw_server B)) nv (sw_now B)) \<Longrightarrow> ip \<in> IP ` set (tracker_answer B nv)"
  and \<comment> \<open>its facade, asked by pkg\<close>
    "f_Peers f = Some (wire_lister B)" "fr_Method r = ''GET''" "packageRequest (fr_Path r) = Some nv"
    "expected f e nv = Some want" "int (length bs) = Size want" "sha256_hex bs = Hash want" "Size want < 2 ^ 63 - 1"
    "\<not> Blocked (Some (f_Blacklist f)) (JoinHostPort ip (Itoa (ka_port k)))"
    "\<And>j. reply (fetch_envs e j) (JoinHostPort ip (Itoa (ka_port k))) (''/pkg/'' @ nv) =
        http_get s remote (JoinHostPort ip (Itoa (ka_port k))) (''/pkg/'' @ nv)"
    "\<And>j. local_ok (fetch_envs e j) (f_TempDir f) fs" "discard_ok e"
  shows "\<exists>ans f' body. Facade_ServeHTTP e f r fs = (Some ans, f', fs) \<and> StatusCode ans = 200 \<and>
    ContentLength ans = Size want \<and> Body ans = Finite body False \<and>
    int (length body) = Size want \<and> sha256_hex body = Hash want \<and>
    (live_holders (tr_peers (sw_server B)) nv (sw_now B) = {ip} \<longrightarrow> body = bs)"
proof -
  let ?addr = "JoinHostPort ip (Itoa (ka_port k))"
  have "nvs \<noteq> []" using assms(6) by auto
  from announce_registers [OF assms(1-5) this assms(7)] assms(13)
  have reg: "tr_peers (sw_server B) ip = Some \<lparr>rec_ServingPort = ka_port k,
      rec_Deadline = sw_now A + tr_timeout (sw_server A), rec_Packages = set nvs\<rparr>" by simp
  have nv: "validName nv" "valid_name_version nv" "nv \<noteq> []"
    using assms(5,6) by (auto simp: announceable_def validName_iff list_all_iff valid_name_version_def)
  obtain addrs where addrs: "dialable ip" "wire_lister B nv = Some addrs" "?addr \<in> set addrs"
    "live_holders (tr_peers (sw_server B)) nv (sw_now B) = {ip} \<longrightarrow> addrs = [?addr]"
    using wire_lister_names_holder [OF assms(11,12) nv(2) assms(15,16) reg] assms(6,14) by auto
  note addrs = addrs(2-4) and dial = addrs(1)
  from dial obtain v where v: "ParseIP ip = Some v" by (auto simp: dialable_def)
  have "0 \<le> ka_port k" using assms(5) by (auto simp: announceable_def ValidatePort_None)
  from http_get_seeder [OF v this] assms(25)
  have wire: "reply (fetch_envs e j) ?addr (''/pkg/'' @ nv) = seeder_reply s remote (''/pkg/'' @ nv)" for j by simp
  obtain fl bl "is" fs1 where run:
    "FetchFirst (fetch_envs e) addrs nv want (f_TempDir f) (Some (f_Blacklist f)) fs = (Inr fl, bl, is, fs1)"
    "addrs = [?addr] \<longrightarrow> fs1 = fs(fl \<mapsto> bs)"
    using seeded_package_arrives [where env = "fetch_envs e", OF assms(8,9) nv(1) assms(10) wire assms(21,22,23) addrs(2) assms(24,26)] by blast
  define body where "body = (case fs1 fl of None \<Rightarrow> [] | Some b \<Rightarrow> b)"
  have "addrs \<noteq> []" using addrs(2) by auto
  from servePeers_arrives [OF assms(17) addrs(1) this run(1)]
  obtain f' fs' where sp: "servePeers e f nv want fs = (Answered (package_answer (Size want) (Finite body False)), f', fs')"
    unfolding body_def by blast
  have "remove_ok (fetch_envs e j)" for j using assms(26) [of j] by (simp add: local_ok_def)
  from servePeers_cases [OF sp _ this assms(27)] assms(17) have body: "fs' = fs"
    "int (length body) = Size want" "sha256_hex body = Hash want"
    by (auto simp: package_answer_def)
  have only: "live_holders (tr_peers (sw_server B)) nv (sw_now B) = {ip} \<longrightarrow> body = bs"
    using addrs(3) run(2) by (simp add: body_def)
  have "Facade_ServeHTTP e f r fs = (Some (package_answer (Size want) (Finite body False)), f', fs)"
    using sp body(1) assms(18-20) nv(3) by (simp add: Facade_ServeHTTP_def servePackage_def)
  with body only show ?thesis by (simp add: package_answer_def)
qed

subsection \<open>A concrete delivery\<close>

definition demo_keepalive :: KeepAlive where "demo_keepalive = NewKeepAlive 9002"

definition demo_announced :: swarm where
  "demo_announced = snd (KeepAlive_announce swarm_scan swarm_announce (demo_keepalive, demo_swarm NetUp Tracker_New))"

definition demo_requester :: swarm where
  "demo_requester = (demo_swarm NetUp (sw_server demo_announced))\<lparr>sw_from := ''10.0.0.9:5''\<rparr>"

definition demo_wire_facade :: Facade where
  "demo_wire_facade = demo_facade\<lparr>f_Peers := Some (wire_lister demo_requester)\<rparr>"

definition demo_wire_peer :: fetch_env where
  "demo_wire_peer = demo_peer_env\<lparr>reply := http_get demo_server ''10.0.0.9:5''\<rparr>"

definition demo_wire_env :: facade_env where
  "demo_wire_env = demo_facade_env\<lparr>fetch_envs := \<lambda>_. demo_wire_peer\<rparr>"

lemma demo_A:
  "swarm_inv (demo_swarm NetUp Tracker_New)" "sw_root (demo_swarm NetUp Tracker_New) = demo_root"
  "cacheDir (sw_watcher (demo_swarm NetUp Tracker_New)) = ''/cache''"
  by (simp_all add: demo_swarm_inv NewWithTimeout_server_inv Tracker_New_def, simp_all add: demo_swarm_def demo_watcher_def Watcher_New_def)

lemma demo_holder_announced:
  obtains k' A1 where "swarm_scan (demo_swarm NetUp Tracker_New) = (Some [''zip-3''], A1)"
    "KeepAlive_announce swarm_scan swarm_announce (demo_keepalive, demo_swarm NetUp Tracker_New) = (k', demo_announced)"
    "tr_peers (sw_server demo_announced) = [''10.0.0.1'' \<mapsto>
       \<lparr>rec_ServingPort = 9002, rec_Deadline = 60000000050, rec_Packages = {''zip-3''}\<rparr>]"
proof -
  let ?A = "demo_swarm NetUp Tracker_New"
  obtain A1 where sc: "swarm_scan ?A = (Some [''zip-3''], A1)" using demo_swarm_scan by blast
  obtain k' where ka: "KeepAlive_announce swarm_scan swarm_announce (demo_keepalive, ?A) = (k', demo_announced)"
    unfolding demo_announced_def by (metis prod.collapse)
  have port: "ka_port demo_keepalive = 9002" by (simp add: demo_keepalive_def NewKeepAlive_def)
  have "tr_peers (sw_server demo_announced) = (tr_peers (sw_server ?A))(''10.0.0.1'' \<mapsto>
    \<lparr>rec_ServingPort = ka_port demo_keepalive, rec_Deadline = sw_now ?A + tr_timeout (sw_server ?A),
     rec_Packages = set [''zip-3'']\<rparr>)"
    by (rule announce_registers [OF demo_A(1) _ demo_swarm_ip sc _ _ ka]) (simp_all add: port demo_announceable)
  then show thesis using that [OF sc ka] by (simp add: port Tracker_New_def NewWithTimeout_def Timeout_def)
qed

lemma demo_requester_inv: "swarm_inv demo_requester"
proof -
  obtain k' where ka: "KeepAlive_announce swarm_scan swarm_announce (demo_keepalive, demo_swarm NetUp Tracker_New) = (k', demo_announced)"
    by (rule demo_holder_announced)
  obtain A1 where "swarm_scan (demo_swarm NetUp Tracker_New) = (Some [''zip-3''], A1)" by (rule demo_holder_announced)
  from announce_heals [OF demo_A(1) _ this _ ka] have "swarm_inv demo_announced"
    by (simp add: demo_keepalive_def NewKeepAlive_def demo_announceable)
  then have "server_inv (sw_server demo_announced)" by (simp add: swarm_inv_def)
  from demo_swarm_inv [OF this] show ?thesis
    by (simp add: swarm_inv_def demo_requester_def swarm_ip_def SplitHostPort_def demo_swarm_def)
qed

lemma demo_dialable: "dialable ''10.0.0.1''"
  by (simp add: dialable_def ParseIP_def parseIPv4_def v4_field_def Let_def dec_value_def is_digit_def)

theorem announced_package_reaches_pkg_witness:
  "\<exists>ans f'. Facade_ServeHTTP demo_wire_env demo_wire_facade (demo_pkg_get ''/All/zip-3.pkg'') Map.empty = (Some ans, f', Map.empty) \<and>
     StatusCode ans = 200 \<and> Body ans = Finite [1, 2, 3] False"
proof -
  let ?A = "demo_swarm NetUp Tracker_New"
  obtain k' A1 where sc: "swarm_scan ?A = (Some [''zip-3''], A1)"
    and ka: "KeepAlive_announce swarm_scan swarm_announce (demo_keepalive, ?A) = (k', demo_announced)"
    and reg: "tr_peers (sw_server demo_announced) = [''10.0.0.1'' \<mapsto>
       \<lparr>rec_ServingPort = 9002, rec_Deadline = 60000000050, rec_Packages = {''zip-3''}\<rparr>]" by (rule demo_holder_announced)
  have port: "ka_port demo_keepalive = 9002" by (simp add: demo_keepalive_def NewKeepAlive_def)
  have B: "sw_net demo_requester = NetUp" "sw_server demo_requester = sw_server demo_announced" "sw_now demo_requester = 50"
    by (simp_all add: demo_requester_def)
  have live: "live_holders (tr_peers (sw_server demo_requester)) ''zip-3'' (sw_now demo_requester) = {''10.0.0.1''}"
    by (auto simp: B reg live_holders_def split: if_splits)
  have ans: "\<forall>p \<in> set (tracker_answer demo_requester ''zip-3''). dialable (IP p)"
    using tracker_answer_sound(1) [OF demo_requester_inv, of _ "''zip-3''"] live demo_dialable by auto
  have ok: "local_ok demo_wire_peer ''/t'' Map.empty"
    by (simp add: local_ok_def demo_wire_peer_def demo_peer_env_def demo_fetch_env_def) (rule exI [of _ 0], simp)
  have src: "Source demo_server = Some (CacheSource_Open (sw_root ?A) (NewCacheSource (cacheDir (sw_watcher ?A))))"
    "cache_holds (sw_root ?A) (NewCacheSource (cacheDir (sw_watcher ?A))) ''zip-3'' [1, 2, 3]"
    unfolding demo_A by (fact demo_source demo_holds)+
  have ex: "expected demo_wire_facade demo_wire_env ''zip-3'' = Some demo_want"
    by (simp add: expected_def demo_wire_facade_def demo_wire_env_def demo_facade_def demo_facade_env_def demo_snapshot_def
        ExpectedHash_def ExpectedFileSizeBytes_def demo_want_def)
  have "\<exists>ans f' body. Facade_ServeHTTP demo_wire_env demo_wire_facade (demo_pkg_get ''/All/zip-3.pkg'') Map.empty =
      (Some ans, f', Map.empty) \<and> StatusCode ans = 200 \<and> ContentLength ans = Size demo_want \<and> Body ans = Finite body False \<and>
      int (length body) = Size demo_want \<and> sha256_hex body = Hash demo_want \<and>
      (live_holders (tr_peers (sw_server demo_requester)) ''zip-3'' (sw_now demo_requester) = {''10.0.0.1''} \<longrightarrow> body = [1, 2, 3])"
    by (rule announced_package_reaches_pkg
        [OF demo_A(1) _ demo_swarm_ip sc _ _ ka src demo_acquire [of "remoteIP \<lparr>Method = ''GET'', URL_Path = ''/pkg/'' @ ''zip-3'', RemoteAddr = ''10.0.0.9:5''\<rparr>"] demo_requester_inv B(1,2) _ _ _ _ _ _ ex])
      (simp_all add: port demo_announceable B(3) Tracker_New_def NewWithTimeout_def Timeout_def live [unfolded B(3)] ans
        demo_wire_facade_def demo_wire_env_def demo_package_request demo_want_def demo_body_def demo_facade_def Blocked_def
        demo_wire_peer_def ok [unfolded demo_wire_peer_def])
  then show ?thesis using live by blast
qed

end
