(* ===== verification/Fetch_Parallel.thy ===== *)
theory Fetch_Parallel
  imports Fetch
begin

text \<open>
  Package requests at the same time.  \<open>net/http\<close> runs the facade's handler in a goroutine per request; the
  requests share the temporary directory and the blacklist, and nothing else orders them.  A request is
  followed through \<open>FetchFirst\<close> and \<open>FetchFromPeer\<close> (\<open>src/internal/peer/download.go\<close>, \<open>fetch.go\<close>), the copy to
  pkg and the deferred \<open>Discard\<close> (\<open>servePeers\<close> in \<open>src/internal/daemon/facade.go\<close>), one step for each access to
  what is shared: the question to the blacklist, the creation of the temporary file, the writes to it,
  its verification, its removal, the entry in the blacklist, the copy to the client.

  The lemmas show that requests do not disturb each other, and that the sequential model of \<open>Fetch\<close> is the
  run of one request alone.
\<close>

subsection \<open>One attempt in two halves\<close>

text \<open>Up to and including \<open>os.CreateTemp\<close>: the temporary file and the body to copy into it.\<close>

definition attempt_begin ::
  "fetch_env \<Rightarrow> string \<Rightarrow> string \<Rightarrow> Want \<Rightarrow> string \<Rightarrow> tmpfs \<Rightarrow> peer_error + string \<times> reader" where
  "attempt_begin e addr nameVersion want tempDir fs =
     (if \<not> validName nameVersion then Inl ErrBadName
      else case reply e addr (packagePathPrefix @ nameVersion) of
        NoRequest \<Rightarrow> Inl ErrRequest
      | NoReply \<Rightarrow> Inl ErrDo
      | Reply resp \<Rightarrow>
          if StatusCode resp \<noteq> 200 then Inl (ErrPeerError (StatusCode resp))
          else if ContentLength resp \<ge> 0 \<and> ContentLength resp \<noteq> Size want
            then Inl (ErrSizeMismatch (ContentLength resp))
          else case CreateTemp e tempDir fs of None \<Rightarrow> Inl ErrSpool | Some tmp \<Rightarrow> Inr (tmp, Body resp))"

lemma FetchFromPeer_halves:
  "FetchFromPeer e addr nv want dir fs =
     (case attempt_begin e addr nv want dir fs of
        Inl err \<Rightarrow> (Inl err, fs)
      | Inr (tmp, body) \<Rightarrow>
          (case spool_body e want body of
             (None, bs) \<Rightarrow> (Inr tmp, fs(tmp \<mapsto> bs))
           | (Some err, bs) \<Rightarrow> (Inl err, Remove (remove_ok e) tmp (fs(tmp \<mapsto> bs)))))"
  by (simp add: FetchFromPeer_def attempt_begin_def split: peer_reply.split option.split)

lemma attempt_begin_Inr:
  assumes "attempt_begin e addr nv want dir fs = Inr (tmp, body)"
  shows "fs tmp = None" "offer e addr nv want = Some body" "validName nv"
  using assms CreateTemp_fresh
  by (auto simp: attempt_begin_def offer_def split: if_splits peer_reply.splits option.splits)

lemma attempt_begin_Inl: "attempt_begin e addr nv want dir fs = Inl err \<Longrightarrow> err \<noteq> ErrHashMismatch"
  by (auto simp: attempt_begin_def split: if_splits peer_reply.splits option.splits)

subsection \<open>Requests as processes\<close>

text \<open>What is fixed about a request: its package, the row of the repository, the holders, the world it meets.\<close>

record job =
  jb_name :: string
  jb_want :: Want
  jb_addrs :: "string list"
  jb_env :: "nat \<Rightarrow> fetch_env"
  jb_discard :: bool

datatype phase =
    Waiting
  | Walking nat "string list"              \<comment> \<open>at the head of the loop\<close>
  | Contacting nat string "string list"    \<comment> \<open>the peer is not blocked\<close>
  | Spooling nat string "string list" string reader
  | Blaming nat string "string list"       \<comment> \<open>corrupt bytes, file removed, not yet blacklisted\<close>
  | Verified string                        \<comment> \<open>\<open>FetchFirst\<close> has returned the file\<close>
  | Copied string "byte list"              \<comment> \<open>pkg has the bytes, the file is still there\<close>
  | Finished "byte list"
  | Gave_up peer_error

record fetches =
  fp_fs :: tmpfs
  fp_bl :: "Blacklist option"
  fp_phase :: "nat \<Rightarrow> phase"

definition moved :: "fetches \<Rightarrow> nat \<Rightarrow> phase \<Rightarrow> fetches" where
  "moved s i p = s\<lparr>fp_phase := (fp_phase s)(i := p)\<rparr>"

definition after_failure :: "peer_error \<Rightarrow> nat \<Rightarrow> string \<Rightarrow> string list \<Rightarrow> phase" where
  "after_failure err k a as =
     (if err = ErrSpool then Gave_up ErrSpool
      else if err = ErrHashMismatch then Blaming k a as
      else Walking (Suc k) as)"

inductive fetch_step :: "string \<Rightarrow> (nat \<Rightarrow> job) \<Rightarrow> fetches \<Rightarrow> nat \<Rightarrow> fetches \<Rightarrow> bool" for dir J where
  fs_enter: "fp_phase s i = Waiting \<Longrightarrow>
    fetch_step dir J s i (moved s i (if validName (jb_name (J i)) then Walking 0 (jb_addrs (J i)) else Gave_up ErrBadName))"
| fs_exhausted: "fp_phase s i = Walking k [] \<Longrightarrow> fetch_step dir J s i (moved s i (Gave_up ErrNoPeers))"
| fs_skip: "fp_phase s i = Walking k (a # as) \<Longrightarrow> Blocked (fp_bl s) a \<Longrightarrow>
    fetch_step dir J s i (moved s i (Walking (Suc k) as))"
| fs_pass: "fp_phase s i = Walking k (a # as) \<Longrightarrow> \<not> Blocked (fp_bl s) a \<Longrightarrow>
    fetch_step dir J s i (moved s i (Contacting k a as))"
| fs_refused: "fp_phase s i = Contacting k a as \<Longrightarrow>
    attempt_begin (jb_env (J i) k) a (jb_name (J i)) (jb_want (J i)) dir (fp_fs s) = Inl err \<Longrightarrow>
    fetch_step dir J s i (moved s i (after_failure err k a as))"
| fs_opened: "fp_phase s i = Contacting k a as \<Longrightarrow>
    attempt_begin (jb_env (J i) k) a (jb_name (J i)) (jb_want (J i)) dir (fp_fs s) = Inr (tmp, body) \<Longrightarrow>
    fetch_step dir J s i (moved (s\<lparr>fp_fs := (fp_fs s)(tmp \<mapsto> [])\<rparr>) i (Spooling k a as tmp body))"
| fs_write: "fp_phase s i = Spooling k a as tmp body \<Longrightarrow>
    fetch_step dir J s i
      (s\<lparr>fp_fs := (fp_fs s)(tmp \<mapsto> take n (snd (spool_body (jb_env (J i) k) (jb_want (J i)) body)))\<rparr>)"
| fs_kept: "fp_phase s i = Spooling k a as tmp body \<Longrightarrow>
    spool_body (jb_env (J i) k) (jb_want (J i)) body = (None, bs) \<Longrightarrow>
    fetch_step dir J s i (moved (s\<lparr>fp_fs := (fp_fs s)(tmp \<mapsto> bs)\<rparr>) i (Verified tmp))"
| fs_rejected: "fp_phase s i = Spooling k a as tmp body \<Longrightarrow>
    spool_body (jb_env (J i) k) (jb_want (J i)) body = (Some err, bs) \<Longrightarrow>
    fetch_step dir J s i
      (moved (s\<lparr>fp_fs := Remove (remove_ok (jb_env (J i) k)) tmp ((fp_fs s)(tmp \<mapsto> bs))\<rparr>) i (after_failure err k a as))"
| fs_blame: "fp_phase s i = Blaming k a as \<Longrightarrow>
    fetch_step dir J s i (moved (s\<lparr>fp_bl := Block a (fp_bl s)\<rparr>) i (Walking (Suc k) as))"
| fs_copy: "fp_phase s i = Verified tmp \<Longrightarrow> fp_fs s tmp = Some bs \<Longrightarrow> fetch_step dir J s i (moved s i (Copied tmp bs))"
| fs_discard: "fp_phase s i = Copied tmp bs \<Longrightarrow>
    fetch_step dir J s i (moved (s\<lparr>fp_fs := Discard (jb_discard (J i)) (Some tmp) (fp_fs s)\<rparr>) i (Finished bs))"

text \<open>Requests that have not arrived yet wait; \<open>fs\<close> and \<open>bl\<close> are what the daemon starts with.\<close>

definition fetch_start :: "tmpfs \<Rightarrow> Blacklist option \<Rightarrow> fetches" where
  "fetch_start fs bl = \<lparr>fp_fs = fs, fp_bl = bl, fp_phase = \<lambda>_. Waiting\<rparr>"

subsection \<open>What a request owns\<close>

definition holds :: "phase \<Rightarrow> string option" where
  "holds p = (case p of Spooling _ _ _ tmp _ \<Rightarrow> Some tmp | Verified tmp \<Rightarrow> Some tmp | Copied tmp _ \<Rightarrow> Some tmp | _ \<Rightarrow> None)"

lemma holds_simps [simp]:
  "holds Waiting = None" "holds (Walking k as) = None" "holds (Contacting k a as) = None"
  "holds (Spooling k a as tmp body) = Some tmp" "holds (Blaming k a as) = None" "holds (Verified tmp) = Some tmp"
  "holds (Copied tmp bs) = Some tmp" "holds (Finished bs) = None" "holds (Gave_up err) = None"
  "holds (after_failure err k a as) = None"
  by (simp_all add: holds_def after_failure_def)

lemma moved_simps [simp]:
  "fp_fs (moved s i p) = fp_fs s" "fp_bl (moved s i p) = fp_bl s"
  "fp_phase (moved s i p) = (fp_phase s)(i := p)"
  by (simp_all add: moved_def)

definition verified :: "Want \<Rightarrow> byte list \<Rightarrow> bool" where
  "verified want bs \<longleftrightarrow> int (length bs) = Size want \<and> sha256_hex bs = Hash want"

definition job_ok :: "job \<Rightarrow> bool" where
  "job_ok j \<longleftrightarrow> (\<forall>k. remove_ok (jb_env j k)) \<and> jb_discard j"

text \<open>What is true of a request in a phase, given the temporary directory.\<close>

definition phase_ok :: "job \<Rightarrow> tmpfs \<Rightarrow> phase \<Rightarrow> bool" where
  "phase_ok j fs p =
     (case p of
        Walking k as \<Rightarrow> as = drop k (jb_addrs j) \<and> validName (jb_name j)
      | Contacting k a as \<Rightarrow> a # as = drop k (jb_addrs j) \<and> validName (jb_name j)
      | Spooling k a as tmp body \<Rightarrow> a # as = drop k (jb_addrs j) \<and> validName (jb_name j) \<and> fs tmp \<noteq> None \<and>
          offer (jb_env j k) a (jb_name j) (jb_want j) = Some body
      | Blaming k a as \<Rightarrow> a # as = drop k (jb_addrs j) \<and> validName (jb_name j) \<and>
          corrupt (jb_env j k) a (jb_name j) (jb_want j)
      | Verified tmp \<Rightarrow> (\<exists>bs. fs tmp = Some bs \<and> verified (jb_want j) bs)
      | Copied tmp bs \<Rightarrow> fs tmp \<noteq> None \<and> verified (jb_want j) bs
      | Finished bs \<Rightarrow> verified (jb_want j) bs
      | _ \<Rightarrow> True)"

lemma phase_ok_simps [simp]:
  "phase_ok j fs Waiting"
  "phase_ok j fs (Walking k as) \<longleftrightarrow> as = drop k (jb_addrs j) \<and> validName (jb_name j)"
  "phase_ok j fs (Contacting k a as) \<longleftrightarrow> a # as = drop k (jb_addrs j) \<and> validName (jb_name j)"
  "phase_ok j fs (Spooling k a as tmp body) \<longleftrightarrow> a # as = drop k (jb_addrs j) \<and> validName (jb_name j) \<and> fs tmp \<noteq> None \<and>
     offer (jb_env j k) a (jb_name j) (jb_want j) = Some body"
  "phase_ok j fs (Blaming k a as) \<longleftrightarrow> a # as = drop k (jb_addrs j) \<and> validName (jb_name j) \<and>
     corrupt (jb_env j k) a (jb_name j) (jb_want j)"
  "phase_ok j fs (Verified tmp) \<longleftrightarrow> (\<exists>bs. fs tmp = Some bs \<and> verified (jb_want j) bs)"
  "phase_ok j fs (Copied tmp bs) \<longleftrightarrow> fs tmp \<noteq> None \<and> verified (jb_want j) bs"
  "phase_ok j fs (Finished bs) \<longleftrightarrow> verified (jb_want j) bs"
  "phase_ok j fs (Gave_up err)"
  by (simp_all add: phase_ok_def)

text \<open>A phase depends on no file but its own.\<close>

lemma phase_ok_frame: "(\<And>x. holds p = Some x \<Longrightarrow> fs' x = fs x) \<Longrightarrow> phase_ok j fs p \<Longrightarrow> phase_ok j fs' p"
  by (cases p) auto

lemma drop_Suc_tail: "a # as = drop k xs \<Longrightarrow> as = drop (Suc k) xs"
  by (metis drop_Suc tl_drop list.sel(3))

lemma after_failure_ok:
  assumes "a # as = drop k (jb_addrs j)" "validName (jb_name j)"
    "err = ErrHashMismatch \<Longrightarrow> corrupt (jb_env j k) a (jb_name j) (jb_want j)"
  shows "phase_ok j fs (after_failure err k a as)"
  using assms drop_Suc_tail [OF assms(1)] by (simp add: after_failure_def)

text \<open>One step of a request keeps what is true of it, touches no file but its own, and leaves none behind.\<close>

lemma fetch_step_local:
  assumes "fetch_step dir J s i s'" "phase_ok (J i) (fp_fs s) (fp_phase s i)" "job_ok (J i)"
  shows "phase_ok (J i) (fp_fs s') (fp_phase s' i)"
    and "\<And>j. j \<noteq> i \<Longrightarrow> fp_phase s' j = fp_phase s j"
    and "\<And>x. holds (fp_phase s i) \<noteq> Some x \<Longrightarrow> holds (fp_phase s' i) \<noteq> Some x \<Longrightarrow> fp_fs s' x = fp_fs s x"
    and "\<And>x. holds (fp_phase s i) = Some x \<Longrightarrow> holds (fp_phase s' i) \<noteq> Some x \<Longrightarrow> fp_fs s' x = None"
    and "\<And>x. holds (fp_phase s' i) = Some x \<Longrightarrow> holds (fp_phase s i) = Some x \<or> fp_fs s x = None"
proof -
  have own: "phase_ok (J i) (fp_fs s') (fp_phase s' i)" using assms(1)
  proof cases
    case (fs_skip k a as)
    then show ?thesis using assms(2) drop_Suc_tail by auto
  next
    case (fs_refused k a as err)
    then show ?thesis using assms(2) attempt_begin_Inl [OF fs_refused(3)] by (auto intro!: after_failure_ok)
  next
    case (fs_opened k a as tmp body)
    then show ?thesis using assms(2) attempt_begin_Inr [OF fs_opened(3)] by auto
  next
    case (fs_kept k a as tmp body bs)
    then show ?thesis using assms(2) spool_body_accept by (auto simp: verified_def)
  next
    case (fs_rejected k a as tmp body err bs)
    then show ?thesis using assms(2) by (auto intro!: after_failure_ok simp: corrupt_iff)
  next
    case (fs_blame k a as)
    then show ?thesis using assms(2) drop_Suc_tail by auto
  qed (use assms(2) in auto)
  then show "phase_ok (J i) (fp_fs s') (fp_phase s' i)" .
  show "fp_phase s' j = fp_phase s j" if "j \<noteq> i" for j using assms(1) that by cases auto
  show "fp_fs s' x = fp_fs s x" if "holds (fp_phase s i) \<noteq> Some x" "holds (fp_phase s' i) \<noteq> Some x" for x
    using assms(1) that by cases (auto simp: Remove_def Discard_def)
  show "fp_fs s' x = None" if "holds (fp_phase s i) = Some x" "holds (fp_phase s' i) \<noteq> Some x" for x
    using assms(1,3) that by cases (auto simp: Remove_def Discard_def job_ok_def)
  show "holds (fp_phase s i) = Some x \<or> fp_fs s x = None" if "holds (fp_phase s' i) = Some x" for x
    using assms(1) that attempt_begin_Inr(1) by cases (auto split: if_splits)
qed

lemma held_exists: "phase_ok j fs p \<Longrightarrow> holds p = Some x \<Longrightarrow> fs x \<noteq> None"
  by (cases p) auto

subsection \<open>All requests together\<close>

definition blamed :: "(nat \<Rightarrow> job) \<Rightarrow> string set" where
  "blamed J = {jb_addrs (J i) ! k | i k. k < length (jb_addrs (J i)) \<and> validName (jb_name (J i)) \<and>
     corrupt (jb_env (J i) k) (jb_addrs (J i) ! k) (jb_name (J i)) (jb_want (J i))}"

definition fetches_inv :: "(nat \<Rightarrow> job) \<Rightarrow> tmpfs \<Rightarrow> Blacklist option \<Rightarrow> fetches \<Rightarrow> bool" where
  "fetches_inv J fs bl s \<longleftrightarrow>
     (\<forall>i. phase_ok (J i) (fp_fs s) (fp_phase s i)) \<and>
     (\<forall>i j x. holds (fp_phase s i) = Some x \<and> holds (fp_phase s j) = Some x \<longrightarrow> i = j) \<and>
     (\<forall>i x. holds (fp_phase s i) = Some x \<longrightarrow> fs x = None) \<and>
     (\<forall>x. (\<nexists>i. holds (fp_phase s i) = Some x) \<longrightarrow> fp_fs s x = fs x) \<and>
     blocked_set (fp_bl s) \<subseteq> blocked_set bl \<union> blamed J"

lemma fetch_start_inv: "fetches_inv J fs bl (fetch_start fs bl)"
  by (simp add: fetches_inv_def fetch_start_def)

lemma fetch_step_blacklist:
  assumes "fetch_step dir J s i s'" "phase_ok (J i) (fp_fs s) (fp_phase s i)"
  shows "blocked_set (fp_bl s') \<subseteq> blocked_set (fp_bl s) \<union> blamed J"
  using assms(1)
proof cases
  case (fs_blame k a as)
  then have p: "a # as = drop k (jb_addrs (J i))" "validName (jb_name (J i))"
    "corrupt (jb_env (J i) k) a (jb_name (J i)) (jb_want (J i))" using assms(2) by simp_all
  from p(1) have k: "k < length (jb_addrs (J i))" by (metis drop_all leI list.discI)
  with p(1) have "a = jb_addrs (J i) ! k" by (metis Cons_nth_drop_Suc list.inject)
  with p k have "a \<in> blamed J" unfolding blamed_def by blast
  then show ?thesis using fs_blame by (auto simp: blocked_set_Block split: if_splits)
qed auto

lemma fetch_step_inv:
  assumes "fetch_step dir J s i s'" "fetches_inv J fs bl s" "\<And>i. job_ok (J i)"
  shows "fetches_inv J fs bl s'"
proof -
  let ?h = "\<lambda>s j. holds (fp_phase s j)"
  from assms(2) have ok: "phase_ok (J j) (fp_fs s) (fp_phase s j)"
    and uniq: "?h s j = Some x \<Longrightarrow> ?h s l = Some x \<Longrightarrow> j = l"
    and new: "?h s j = Some x \<Longrightarrow> fs x = None"
    and rest: "(\<And>j. ?h s j \<noteq> Some x) \<Longrightarrow> fp_fs s x = fs x"
    and bl: "blocked_set (fp_bl s) \<subseteq> blocked_set bl \<union> blamed J" for j l x
    unfolding fetches_inv_def by blast+
  note local = fetch_step_local [OF assms(1) ok assms(3)]
  have others: "?h s' j = ?h s j" if "j \<noteq> i" for j using local(2) that by simp
  have foreign: "?h s' i \<noteq> Some x" if "?h s j = Some x" "j \<noteq> i" for j x
    using local(5) [of x] uniq [of j x i] held_exists [OF ok that(1)] that by auto
  have "phase_ok (J j) (fp_fs s') (fp_phase s' j)" for j
  proof (cases "j = i")
    case False
    then have "fp_fs s' x = fp_fs s x" if "?h s j = Some x" for x
      using local(3) [of x] uniq [of j x i] foreign that by blast
    then show ?thesis using phase_ok_frame [OF _ ok] local(2) [OF False] by simp
  qed (use local(1) in simp)
  moreover have "j = l" if "?h s' j = Some x" "?h s' l = Some x" for j l x
    using that others foreign uniq by (cases "j = i"; cases "l = i") auto
  moreover have "fs x = None" if "?h s' j = Some x" for j x
  proof (cases "\<exists>l. ?h s l = Some x")
    case False
    then have "j = i" using that others by force
    then show ?thesis using local(5) [of x] rest [of x] that False by auto
  qed (use new in blast)
  moreover have "fp_fs s' x = fs x" if "\<nexists>j. ?h s' j = Some x" for x
  proof (cases "?h s i = Some x")
    case True
    then show ?thesis using local(4) [of x] new [of i x] that by simp
  next
    case False
    moreover have "?h s j \<noteq> Some x" for j using that others [of j] False by (cases "j = i") auto
    ultimately show ?thesis using local(3) [of x] rest [of x] that by auto
  qed
  moreover have "blocked_set (fp_bl s') \<subseteq> blocked_set bl \<union> blamed J"
    using fetch_step_blacklist [OF assms(1) ok] bl by blast
  ultimately show ?thesis unfolding fetches_inv_def by blast
qed

lemma fetch_run_inv:
  assumes "run (fetch_step dir J) (fetch_start fs bl) is s" "\<And>i. job_ok (J i)"
  shows "fetches_inv J fs bl s"
  by (rule run_invariant [where P = "fetches_inv J fs bl", OF assms(1) fetch_start_inv]) (rule fetch_step_inv [OF _ _ assms(2)])

text \<open>
  C7: Package requests do not disturb each other.  However any number of them interleave, every client gets
  exactly the bytes its own repository row describes, no two requests ever use the same temporary file,
  no file that was there before is touched, nothing is left in the directory by the requests that
  have ended, and every address on the blacklist was there before or sent corrupt bytes to one of them.\<close>

theorem parallel_requests_do_not_interfere:
  assumes "run (fetch_step dir J) (fetch_start fs bl) is s" "\<And>i. job_ok (J i)"
  shows "(\<forall>i bs. fp_phase s i = Finished bs \<or> (\<exists>tmp. fp_phase s i = Copied tmp bs) \<longrightarrow>
      int (length bs) = Size (jb_want (J i)) \<and> sha256_hex bs = Hash (jb_want (J i))) \<and>
    (\<forall>i j x. holds (fp_phase s i) = Some x \<and> holds (fp_phase s j) = Some x \<longrightarrow> i = j) \<and>
    (\<forall>x. fs x \<noteq> None \<longrightarrow> fp_fs s x = fs x) \<and>
    ((\<forall>i. holds (fp_phase s i) = None) \<longrightarrow> fp_fs s = fs) \<and>
    blocked_set (fp_bl s) \<subseteq> blocked_set bl \<union> blamed J"
proof -
  have inv: "fetches_inv J fs bl s" by (rule fetch_run_inv [OF assms])
  then have ok: "phase_ok (J i) (fp_fs s) (fp_phase s i)" for i by (simp add: fetches_inv_def)
  have "verified (jb_want (J i)) bs" if "fp_phase s i = Finished bs \<or> (\<exists>tmp. fp_phase s i = Copied tmp bs)" for i bs
    using ok [of i] that by auto
  moreover have "fp_fs s x = fs x" if "fs x \<noteq> None" for x
    using inv that unfolding fetches_inv_def by (metis (no_types))
  moreover have "fp_fs s = fs" if "\<forall>i. holds (fp_phase s i) = None"
    using inv that by (auto simp: fetches_inv_def)
  ultimately show ?thesis using inv by (simp add: fetches_inv_def verified_def)
qed

text \<open>How far a request that has an honest holder at position \<open>k\<close> can get without its file.\<close>

definition not_past :: "nat \<Rightarrow> phase \<Rightarrow> bool" where
  "not_past k p =
     (case p of
        Walking m _ \<Rightarrow> m \<le> k | Contacting m _ _ \<Rightarrow> m \<le> k | Spooling m _ _ _ _ \<Rightarrow> m \<le> k | Blaming m _ _ \<Rightarrow> m < k
      | Gave_up err \<Rightarrow> err = ErrSpool | _ \<Rightarrow> True)"

lemma not_past_simps [simp]:
  "not_past k Waiting" "not_past k (Walking m as) \<longleftrightarrow> m \<le> k" "not_past k (Contacting m a as) \<longleftrightarrow> m \<le> k"
  "not_past k (Spooling m a as tmp body) \<longleftrightarrow> m \<le> k" "not_past k (Blaming m a as) \<longleftrightarrow> m < k"
  "not_past k (Verified tmp)" "not_past k (Copied tmp bs)" "not_past k (Finished bs)"
  "not_past k (Gave_up err) \<longleftrightarrow> err = ErrSpool"
  by (simp_all add: not_past_def)

lemma not_past_after: "m < k \<or> err = ErrSpool \<Longrightarrow> not_past k (after_failure err m a as)"
  by (auto simp: after_failure_def)

definition sure_holder :: "job \<Rightarrow> nat \<Rightarrow> bool" where
  "sure_holder j k \<longleftrightarrow> k < length (jb_addrs j) \<and> validName (jb_name j) \<and> Size (jb_want j) < 2 ^ 63 - 1 \<and>
     honest (jb_env j k) (jb_addrs j ! k) (jb_name j) (jb_want j) \<and> disk_room (jb_env j k) = None"

text \<open>The attempt at an honest holder fails only when \<open>temp_dir\<close> does.\<close>

lemma sure_holder_begin:
  assumes "sure_holder j k" "attempt_begin (jb_env j k) (jb_addrs j ! k) (jb_name j) (jb_want j) dir fs = Inl err"
  shows "err = ErrSpool"
  using assms
  by (auto simp: sure_holder_def honest_def attempt_begin_def offer_def split: if_splits peer_reply.splits option.splits)

lemma sure_holder_spool:
  assumes "sure_holder j k" "offer (jb_env j k) (jb_addrs j ! k) (jb_name j) (jb_want j) = Some body"
    "spool_body (jb_env j k) (jb_want j) body = (Some err, bs)"
  shows "err = ErrSpool"
proof -
  obtain cs where cs: "body = Finite cs False" "int (length cs) = Size (jb_want j)" "sha256_hex cs = Hash (jb_want j)"
    using assms(1,2) by (auto simp: sure_holder_def honest_def)
  have "wrap64 (Size (jb_want j) + 1) = Size (jb_want j) + 1"
    using assms(1) cs(2) unfolding sure_holder_def by (intro wrap64_id) linarith+
  then show ?thesis
    using assms(1,3) cs by (simp add: spool_body_def limit_copy_Finite spool_copy_def sure_holder_def split: if_splits)
qed

lemma drop_head: "a # as = drop k xs \<Longrightarrow> a = xs ! k"
  by (metis Cons_nth_drop_Suc drop_all leI list.discI list.inject)

lemma not_past_step:
  assumes "fetch_step dir J s l s'" "fetches_inv J fs bl s" "sure_holder (J i) k"
    "jb_addrs (J i) ! k \<notin> blocked_set bl \<union> blamed J" "not_past k (fp_phase s i)"
  shows "not_past k (fp_phase s' i)"
proof (cases "l = i")
  case False
  from assms(1) have "fp_phase s' i = fp_phase s i" using False by cases auto
  with assms(5) show ?thesis by simp
next
  case True
  have ok: "phase_ok (J i) (fp_fs s) (fp_phase s i)" and bl: "\<not> Blocked (fp_bl s) (jb_addrs (J i) ! k)"
    using assms(2,4) by (auto simp: fetches_inv_def Blocked_iff)
  have name: "validName (jb_name (J i))" "k < length (jb_addrs (J i))" using assms(3) by (simp_all add: sure_holder_def)
  have off: "\<not> corrupt (jb_env (J i) k) (jb_addrs (J i) ! k) (jb_name (J i)) (jb_want (J i))"
    using assms(4) name by (auto simp: blamed_def)
  from assms(1) show ?thesis unfolding True
  proof cases
    case fs_enter
    then show ?thesis using name by simp
  next
    case (fs_exhausted m)
    then show ?thesis using ok assms(5) name(2) by simp
  next
    case (fs_skip m a as)
    then have "m \<noteq> k" using ok bl drop_head by fastforce
    then show ?thesis using fs_skip assms(5) by simp
  next
    case (fs_refused m a as err)
    have "m < k \<or> err = ErrSpool"
    proof (cases "m = k")
      case True
      then have "a = jb_addrs (J i) ! k" using fs_refused(2) ok drop_head [of a as k "jb_addrs (J i)"] True by simp
      then show ?thesis using sure_holder_begin [OF assms(3)] fs_refused(3) True by blast
    qed (use fs_refused(2) assms(5) in simp)
    then show ?thesis using fs_refused by (simp add: not_past_after)
  next
    case (fs_rejected m a as tmp body err bs)
    have "m < k \<or> err = ErrSpool"
    proof (cases "m = k")
      case True
      then have "a = jb_addrs (J i) ! k" using fs_rejected(2) ok drop_head [of a as k "jb_addrs (J i)"] True by simp
      then show ?thesis using sure_holder_spool [OF assms(3)] fs_rejected(2,3) ok True by auto
    qed (use fs_rejected(2) assms(5) in simp)
    then show ?thesis using fs_rejected by (simp add: not_past_after)
  next
    case (fs_blame m a as)
    then show ?thesis using assms(5) by simp
  qed (use assms(5) in auto)
qed

text \<open>
  C12: One honest holder is enough under any load.  A request whose list names a holder that sends the right
  bytes, and that nobody has caught sending wrong ones, can end without a verified file only because the
  daemon's own \<open>temp_dir\<close> failed: no interleaving with other requests, whatever their peers send and
  whomever they put on the shared blacklist, makes it give up on its peers.\<close>

theorem honest_holder_suffices_in_parallel:
  assumes "run (fetch_step dir J) (fetch_start fs bl) is s" "\<And>i. job_ok (J i)"
    "sure_holder (J i) k" "jb_addrs (J i) ! k \<notin> blocked_set bl \<union> blamed J" "fp_phase s i = Gave_up err"
  shows "err = ErrSpool"
proof -
  let ?P = "\<lambda>s. fetches_inv J fs bl s \<and> not_past k (fp_phase s i)"
  have "?P (fetch_start fs bl)" by (simp add: fetch_start_inv) (simp add: fetch_start_def)
  moreover have "?P x'" if "fetch_step dir J x l x'" "?P x" for x l x'
    using fetch_step_inv [OF that(1) conjunct1 [OF that(2)] assms(2)]
      not_past_step [OF that(1) conjunct1 [OF that(2)] assms(3,4) conjunct2 [OF that(2)]] by blast
  ultimately have "?P s" by (rule run_invariant [where P = ?P, OF assms(1)])
  then show ?thesis using assms(5) by simp
qed

subsection \<open>One request alone\<close>

definition at_phase :: "fetches \<Rightarrow> nat \<Rightarrow> tmpfs \<Rightarrow> Blacklist option \<Rightarrow> phase \<Rightarrow> fetches" where
  "at_phase s i fs bl p = s\<lparr>fp_fs := fs, fp_bl := bl, fp_phase := (fp_phase s)(i := p)\<rparr>"

definition alone :: "string \<Rightarrow> (nat \<Rightarrow> job) \<Rightarrow> nat \<Rightarrow> fetches \<Rightarrow> fetches \<Rightarrow> bool" where
  "alone dir J i s s' \<longleftrightarrow> (\<exists>n. run (fetch_step dir J) s (replicate n i) s')"

lemma alone_refl: "alone dir J i s s"
  unfolding alone_def by (rule exI [of _ 0]) simp

lemma alone_step: "fetch_step dir J s i s1 \<Longrightarrow> alone dir J i s1 s' \<Longrightarrow> alone dir J i s s'"
  unfolding alone_def by (metis replicate_Suc run_Cons)

lemma at_phase_simps [simp]:
  "fp_fs (at_phase s i fs bl p) = fs" "fp_bl (at_phase s i fs bl p) = bl"
  "fp_phase (at_phase s i fs bl p) = (fp_phase s)(i := p)"
  "at_phase (at_phase s i fs bl p) i fs' bl' p' = at_phase s i fs' bl' p'"
  "moved (at_phase s i fs bl p) i q = at_phase s i fs bl q"
  "(at_phase s i fs bl p)\<lparr>fp_fs := fs'\<rparr> = at_phase s i fs' bl p"
  "(at_phase s i fs bl p)\<lparr>fp_bl := bl'\<rparr> = at_phase s i fs bl' p"
  by (simp_all add: at_phase_def moved_def)

definition outcome :: "peer_error + string \<Rightarrow> phase" where
  "outcome r = (case r of Inr f \<Rightarrow> Verified f | Inl err \<Rightarrow> Gave_up err)"

text \<open>One attempt, from the head of the loop to the next head, to the verified file, or to the end.\<close>

lemma alone_attempt:
  assumes "\<not> Blocked bl a" "FetchFromPeer (jb_env (J i) k) a (jb_name (J i)) (jb_want (J i)) dir fs = (r, fs1)"
    "\<And>file. r = Inr file \<Longrightarrow> alone dir J i (at_phase s i fs1 bl (Verified file)) s'"
    "r = Inl ErrSpool \<Longrightarrow> alone dir J i (at_phase s i fs1 bl (Gave_up ErrSpool)) s'"
    "\<And>err. r = Inl err \<Longrightarrow> err \<noteq> ErrSpool \<Longrightarrow>
       alone dir J i (at_phase s i fs1 (if err = ErrHashMismatch then Block a bl else bl) (Walking (Suc k) as)) s'"
  shows "alone dir J i (at_phase s i fs bl (Walking k (a # as))) s'"
proof -
  let ?at = "at_phase s i"
  have pass: "fetch_step dir J (?at fs bl (Walking k (a # as))) i (?at fs bl (Contacting k a as))"
    using fs_pass [of "?at fs bl (Walking k (a # as))" i k a as dir J] assms(1) by simp
  have fail: "alone dir J i (?at fs1 bl (after_failure err k a as)) s'" if r: "r = Inl err" for err
  proof (cases "err = ErrHashMismatch")
    case True
    have "fetch_step dir J (?at fs1 bl (Blaming k a as)) i (?at fs1 (Block a bl) (Walking (Suc k) as))"
      using fs_blame [of "?at fs1 bl (Blaming k a as)" i k a as dir J] by simp
    then show ?thesis using assms(5) [OF r] True by (auto simp: after_failure_def intro: alone_step)
  next
    case False
    then show ?thesis using assms(4) assms(5) [OF r] r by (auto simp: after_failure_def)
  qed
  have "alone dir J i (?at fs bl (Contacting k a as)) s'"
  proof (cases "attempt_begin (jb_env (J i) k) a (jb_name (J i)) (jb_want (J i)) dir fs")
    case (Inl err)
    then have "r = Inl err" "fs1 = fs" using assms(2) by (simp_all add: FetchFromPeer_halves)
    moreover have "fetch_step dir J (?at fs bl (Contacting k a as)) i (?at fs bl (after_failure err k a as))"
      using fs_refused [of "?at fs bl (Contacting k a as)" i k a as J dir err] Inl by simp
    ultimately show ?thesis using fail by (blast intro: alone_step)
  next
    case (Inr tb)
    obtain tmp body where tb: "tb = (tmp, body)" by (cases tb)
    let ?spool = "?at (fs(tmp \<mapsto> [])) bl (Spooling k a as tmp body)"
    have open_it: "fetch_step dir J (?at fs bl (Contacting k a as)) i ?spool"
      using fs_opened [of "?at fs bl (Contacting k a as)" i k a as J dir tmp body] Inr tb by simp
    obtain v bs where v: "spool_body (jb_env (J i) k) (jb_want (J i)) body = (v, bs)" by (cases "spool_body (jb_env (J i) k) (jb_want (J i)) body")
    have "alone dir J i ?spool s'"
    proof (cases v)
      case None
      then have "r = Inr tmp" "fs1 = fs(tmp \<mapsto> bs)" using assms(2) Inr tb v by (simp_all add: FetchFromPeer_halves)
      moreover have "fetch_step dir J ?spool i (?at (fs(tmp \<mapsto> bs)) bl (Verified tmp))"
        using fs_kept [of ?spool i k a as tmp body J bs dir] v None by simp
      ultimately show ?thesis using assms(3) by (blast intro: alone_step)
    next
      case (Some err)
      let ?fs = "Remove (remove_ok (jb_env (J i) k)) tmp (fs(tmp \<mapsto> bs))"
      have "r = Inl err" "fs1 = ?fs" using assms(2) Inr tb v Some by (simp_all add: FetchFromPeer_halves)
      moreover have "fetch_step dir J ?spool i (?at ?fs bl (after_failure err k a as))"
        using fs_rejected [of ?spool i k a as tmp body J err bs dir] v Some by simp
      ultimately show ?thesis using fail by (blast intro: alone_step)
    qed
    then show ?thesis by (rule alone_step [OF open_it])
  qed
  then show ?thesis by (rule alone_step [OF pass])
qed

lemma alone_loop:
  assumes "fetch_loop (jb_env (J i)) k as (jb_name (J i)) (jb_want (J i)) dir bl fs = (r, bl', is, fs')"
  shows "alone dir J i (at_phase s i fs bl (Walking k as)) (at_phase s i fs' bl' (outcome r))"
  using assms
proof (induction as arbitrary: k bl fs "is")
  case Nil
  then have "fetch_step dir J (at_phase s i fs bl (Walking k [])) i (at_phase s i fs' bl' (outcome r))"
    using fs_exhausted [of "at_phase s i fs bl (Walking k [])" i k dir J] by (auto simp: outcome_def)
  then show ?case by (blast intro: alone_step alone_refl)
next
  case (Cons a as)
  let ?goal = "alone dir J i (at_phase s i fs bl (Walking k (a # as))) (at_phase s i fs' bl' (outcome r))"
  from Cons.prems show ?goal
  proof (cases rule: fetch_loop_Cons_cases)
    case skip
    have "fetch_step dir J (at_phase s i fs bl (Walking k (a # as))) i (at_phase s i fs bl (Walking (Suc k) as))"
      using fs_skip [of "at_phase s i fs bl (Walking k (a # as))" i k a as dir J] skip by (simp add: Blocked_iff)
    then show ?thesis using Cons.IH [OF skip(2)] by (rule alone_step)
  next
    case (hit f)
    show ?thesis by (rule alone_attempt [where J = J and i = i, OF _ hit(2)]) (use hit in \<open>auto simp: Blocked_iff outcome_def intro: alone_refl\<close>)
  next
    case stop
    show ?thesis by (rule alone_attempt [where J = J and i = i, OF _ stop(2)]) (use stop in \<open>auto simp: Blocked_iff outcome_def intro: alone_refl\<close>)
  next
    case (move err fs1 is1)
    show ?thesis by (rule alone_attempt [where J = J and i = i, OF _ move(3)]) (use move Cons.IH [OF move(5)] in \<open>auto simp: Blocked_iff\<close>)
  qed
qed

text \<open>The sequential model is the run of one request that has the daemon to itself.\<close>

theorem sequential_fetch_is_a_run:
  assumes "FetchFirst (jb_env (J i)) (jb_addrs (J i)) (jb_name (J i)) (jb_want (J i)) dir bl fs = (r, bl', is, fs')"
  shows "alone dir J i (fetch_start fs bl) \<lparr>fp_fs = fs', fp_bl = bl', fp_phase = (\<lambda>_. Waiting)(i := outcome r)\<rparr>"
proof -
  let ?s = "fetch_start fs bl"
  have e: "\<lparr>fp_fs = fs', fp_bl = bl', fp_phase = (\<lambda>_. Waiting)(i := outcome r)\<rparr> = at_phase ?s i fs' bl' (outcome r)"
    by (simp add: at_phase_def fetch_start_def)
  have enter: "fetch_step dir J ?s i (moved ?s i (if validName (jb_name (J i)) then Walking 0 (jb_addrs (J i)) else Gave_up ErrBadName))"
    by (rule fs_enter) (simp add: fetch_start_def)
  show ?thesis
  proof (cases "validName (jb_name (J i))")
    case True
    then have "moved ?s i (Walking 0 (jb_addrs (J i))) = at_phase ?s i fs bl (Walking 0 (jb_addrs (J i)))"
      by (simp add: moved_def at_phase_def fetch_start_def)
    then show ?thesis unfolding e using enter True alone_loop [of J i 0 _ dir bl fs r bl' "is" fs' ?s] assms
      by (auto simp: FetchFirst_def intro: alone_step)
  next
    case False
    then have "at_phase ?s i fs' bl' (outcome r) = moved ?s i (Gave_up ErrBadName)"
      using assms by (auto simp: FetchFirst_def moved_def at_phase_def fetch_start_def outcome_def)
    then show ?thesis unfolding e using enter False by (auto intro: alone_step alone_refl)
  qed
qed

subsection \<open>Concrete runs\<close>

definition demo_job :: "bool \<Rightarrow> nat \<Rightarrow> job" where
  "demo_job room i = \<lparr>jb_name = ''zip-3'', jb_want = demo_want, jb_addrs = [''down'', ''good''],
     jb_env = (\<lambda>_. (demo_fetch_env None)\<lparr>temp_ok := room\<rparr>), jb_discard = True\<rparr>"

lemma demo_job_ok: "job_ok (demo_job room i)"
  by (simp add: job_ok_def demo_job_def)

lemma demo_room: "(demo_fetch_env None)\<lparr>temp_ok := True\<rparr> = demo_fetch_env None"
  by (simp add: demo_fetch_env_def)

lemma demo_job_fetch:
  "FetchFirst (jb_env (demo_job True i)) (jb_addrs (demo_job True i)) (jb_name (demo_job True i)) (jb_want (demo_job True i))
     ''/t'' None Map.empty = (Inr demo_tmp, None, [0, 1], [demo_tmp \<mapsto> demo_body])"
  by (simp add: demo_job_def demo_room demo_fetch_good)

lemma demo_job_no_room:
  "FetchFirst (jb_env (demo_job False i)) (jb_addrs (demo_job False i)) (jb_name (demo_job False i)) (jb_want (demo_job False i))
     ''/t'' None Map.empty = (Inl ErrSpool, None, [0, 1], Map.empty)"
  by (simp add: demo_job_def FetchFirst_def demo_validName FetchFromPeer_def Blocked_def CreateTemp_def demo_resp_def)

lemma demo_no_blame: "blamed (demo_job room) = {}"
proof -
  have s: "spool_body ((demo_fetch_env None)\<lparr>temp_ok := room\<rparr>) demo_want body = spool_body (demo_fetch_env None) demo_want body" for body
    by (simp add: spool_body_def)
  have "\<not> corrupt ((demo_fetch_env None)\<lparr>temp_ok := room\<rparr>) ([''down'', ''good''] ! k) ''zip-3'' demo_want" if "k < 2" for k
  proof (cases "k = 0")
    case True
    then show ?thesis by (simp add: corrupt_iff offer_def)
  next
    case False
    then have "k = 1" using that by simp
    then show ?thesis by (simp add: corrupt_iff offer_def demo_resp_def s demo_spool)
  qed
  then show ?thesis by (simp add: blamed_def demo_job_def)
qed

lemma demo_served:
  "\<exists>is s. run (fetch_step ''/t'' (demo_job True)) (fetch_start Map.empty None) is s \<and>
     fp_phase s 0 = Finished demo_body \<and> (\<forall>i. holds (fp_phase s i) = None)"
proof -
  let ?J = "demo_job True" and ?v = "\<lparr>fp_fs = [demo_tmp \<mapsto> demo_body], fp_bl = None, fp_phase = (\<lambda>_. Waiting)(0 := Verified demo_tmp)\<rparr>"
  define c where "c = moved ?v 0 (Copied demo_tmp demo_body)"
  define d where "d = moved (c\<lparr>fp_fs := Discard (jb_discard (?J 0)) (Some demo_tmp) (fp_fs c)\<rparr>) 0 (Finished demo_body)"
  obtain n where v: "run (fetch_step ''/t'' ?J) (fetch_start Map.empty None) (replicate n 0) ?v"
    using sequential_fetch_is_a_run [where J = "demo_job True" and i = 0, OF demo_job_fetch] by (auto simp: alone_def outcome_def)
  have "fetch_step ''/t'' ?J ?v 0 c" unfolding c_def by (rule fs_copy) simp_all
  moreover have "fetch_step ''/t'' ?J c 0 d" unfolding d_def by (rule fs_discard) (simp add: c_def)
  ultimately have "run (fetch_step ''/t'' ?J) (fetch_start Map.empty None) ((replicate n 0 @ [0]) @ [0]) d"
    by (rule run_snoc [OF run_snoc [OF v]])
  moreover have "fp_phase d = (\<lambda>_. Waiting)(0 := Finished demo_body)" by (simp add: d_def c_def)
  ultimately show ?thesis by (intro exI conjI allI) (assumption | simp)+
qed

theorem parallel_requests_do_not_interfere_witness:
  "\<exists>is s. run (fetch_step ''/t'' (demo_job True)) (fetch_start Map.empty None) is s \<and> fp_phase s 0 = Finished demo_body \<and>
     fp_fs s = Map.empty \<and> sha256_hex demo_body = Hash (jb_want (demo_job True 0))"
proof -
  obtain "is" s where r: "run (fetch_step ''/t'' (demo_job True)) (fetch_start Map.empty None) is s"
    "fp_phase s 0 = Finished demo_body" "\<forall>i. holds (fp_phase s i) = None" using demo_served by blast
  note p = parallel_requests_do_not_interfere [OF r(1) demo_job_ok]
  have "fp_fs s = Map.empty" using p r(3) by blast
  moreover have "sha256_hex demo_body = Hash (jb_want (demo_job True 0))" using p r(2) by blast
  ultimately show ?thesis using r(1,2) by blast
qed

theorem honest_holder_suffices_in_parallel_witness:
  "\<exists>is s err. run (fetch_step ''/t'' (demo_job False)) (fetch_start Map.empty None) is s \<and>
     fp_phase s 0 = Gave_up err \<and> err = ErrSpool"
proof -
  obtain n s err where r: "run (fetch_step ''/t'' (demo_job False)) (fetch_start Map.empty None) (replicate n 0) s"
    "fp_phase s 0 = Gave_up err"
    using sequential_fetch_is_a_run [where J = "demo_job False" and i = 0, OF demo_job_no_room] by (auto simp: alone_def outcome_def)
  have off: "offer ((demo_fetch_env None)\<lparr>temp_ok := False\<rparr>) a nv want = offer (demo_fetch_env None) a nv want" for a nv want
    by (simp add: offer_def)
  have "sure_holder (demo_job False 0) 1"
    by (simp add: sure_holder_def demo_job_def demo_validName demo_want_def honest_def off demo_offer) (simp add: demo_body_def)
  moreover have "jb_addrs (demo_job False 0) ! 1 \<notin> blocked_set None \<union> blamed (demo_job False)"
    by (simp add: blocked_set_def demo_no_blame)
  ultimately have "err = ErrSpool" by (rule honest_holder_suffices_in_parallel [OF r(1) demo_job_ok _ _ r(2)])
  then show ?thesis using r by blast
qed

end
