(* ===== verification/Sweeper.thy ===== *)
theory Sweeper
  imports Tracker
begin

text \<open>
  The sweeper goroutine of the tracker (\<open>RunSweeper\<close> in \<open>src/internal/tracker/tracker.go\<close>) beside the handlers: a
  ticker, the channel of capacity one it sends to, the loop that receives from the channel and sweeps, and
  the handlers' calls, which take the registry's lock in between.

  The lemmas bound what the registry can hold: only hosts that were heard of recently, although
  nothing ever tells the tracker that a host is gone.
\<close>

subsection \<open>The loop, the ticker and the handlers\<close>

text \<open>The first and the last reading of the clock in a call.\<close>

fun ev_begin :: "tracker_event \<Rightarrow> int" where
  "ev_begin (EvAnnounce ip req now) = now"
| "ev_begin (EvPing ip now now' b) = now"
| "ev_begin (EvPeers nv now ps) = now"
| "ev_begin (EvSweep now n) = now"

fun ev_end :: "tracker_event \<Rightarrow> int" where
  "ev_end (EvPing ip now now' b) = now'"
| "ev_end e = ev_begin e"

text \<open>The registry, the clock, when the ticker fires next, and the tick that waits in its channel.\<close>

record sweeper =
  sp_tracker :: Tracker
  sp_clock :: int
  sp_due :: int
  sp_chan :: "int option"

definition NewTicker :: "int \<Rightarrow> Tracker \<Rightarrow> sweeper" where
  "NewTicker start t = \<lparr>sp_tracker = t, sp_clock = start, sp_due = start + SweepInterval, sp_chan = None\<rparr>"

datatype sweeper_event = Passes int | Ticks | Sweeps nat | Calls tracker_event

text \<open>
  Time passes, but not beyond a tick that is due.  A tick goes into the channel, and is dropped when the
  one before it still waits there.  The loop takes the tick and sweeps, at whatever moment it gets to it.  A
  handler's call begins now and may end later, past a tick even.
\<close>

inductive RunSweeper :: "sweeper \<Rightarrow> sweeper_event \<Rightarrow> sweeper \<Rightarrow> bool" where
  rs_time: "sp_clock s \<le> c \<Longrightarrow> c \<le> sp_due s \<Longrightarrow> RunSweeper s (Passes c) (s\<lparr>sp_clock := c\<rparr>)"
| rs_tick: "sp_due s \<le> sp_clock s \<Longrightarrow> RunSweeper s Ticks
    (s\<lparr>sp_chan := (case sp_chan s of None \<Rightarrow> Some (sp_due s) | Some c \<Rightarrow> Some c), sp_due := sp_due s + SweepInterval\<rparr>)"
| rs_sweep: "sp_chan s = Some c \<Longrightarrow> tracker_step (sp_tracker s) (EvSweep (sp_clock s) n) t' \<Longrightarrow>
    RunSweeper s (Sweeps n) (s\<lparr>sp_tracker := t', sp_chan := None\<rparr>)"
| rs_call: "sp_clock s \<le> sp_due s \<Longrightarrow> ev_begin e = sp_clock s \<Longrightarrow> \<forall>now n. e \<noteq> EvSweep now n \<Longrightarrow>
    tracker_step (sp_tracker s) e t' \<Longrightarrow>
    RunSweeper s (Calls e) (s\<lparr>sp_tracker := t', sp_clock := ev_end e\<rparr>)"

inductive_cases rs_callE: "RunSweeper s (Calls e) s'"

text \<open>
  What is assumed of the scheduler: the loop gets to a tick, and the ticker to firing, at most \<open>lag\<close> after
  the moment it was due.
\<close>

definition on_time :: "int \<Rightarrow> sweeper \<Rightarrow> bool" where
  "on_time lag s \<longleftrightarrow> sp_clock s \<le> (case sp_chan s of Some c \<Rightarrow> c | None \<Rightarrow> sp_due s) + lag"

definition timely_step :: "int \<Rightarrow> sweeper \<Rightarrow> sweeper_event \<Rightarrow> sweeper \<Rightarrow> bool" where
  "timely_step lag s e s' \<longleftrightarrow> RunSweeper s e s' \<and> on_time lag s'"

text \<open>The calls by which a host makes itself known: an announce, and a ping that is answered with success.\<close>

fun heard_from :: "string \<Rightarrow> tracker_event \<Rightarrow> bool" where
  "heard_from ip (EvAnnounce ip' req now) = (ip' = ip)"
| "heard_from ip (EvPing ip' now now' b) = (ip' = ip \<and> b)"
| "heard_from ip e = False"

subsection \<open>Deadlines\<close>

definition fresh :: "int \<Rightarrow> registry \<Rightarrow> bool" where
  "fresh s R \<longleftrightarrow> (\<forall>ip r. R ip = Some r \<longrightarrow> s \<le> rec_Deadline r)"

text \<open>No step leaves a deadline that lies before the latest sweep.\<close>

lemma fresh_step:
  assumes "tracker_inv t" "tracker_step t e t'" "fresh s (tr_peers t)" "0 \<le> tr_timeout t" "s \<le> ev_begin e" "ev_begin e \<le> ev_end e"
  shows "fresh (case e of EvSweep now n \<Rightarrow> now | _ \<Rightarrow> s) (tr_peers t')"
proof (cases e)
  case (EvAnnounce ip req now)
  then show ?thesis using assms trk.announce_view [of t ip req now t']
    by (auto simp: fresh_def spec_Announce_def)
next
  case (EvPing ip now now' b)
  then have "tr_peers t' = snd (spec_Ping (tr_timeout t) ip now now' (tr_peers t))"
    using assms(1,2) trk.ping_view by blast
  then show ?thesis using EvPing assms by (auto simp: fresh_def spec_Ping_def split: option.splits if_splits)
next
  case (EvPeers nv now ps)
  then show ?thesis using assms trk.peers_view by fastforce
next
  case (EvSweep now n)
  then have "tr_peers t' = spec_Sweep now (tr_peers t)" using assms(1,2) trk.sweep_view by blast
  then show ?thesis using EvSweep by (auto simp: fresh_def spec_Sweep_def expired_def split: if_splits)
qed

text \<open>Every deadline was set by a call of its own host.\<close>

definition accounted :: "int \<Rightarrow> tracker_event set \<Rightarrow> registry \<Rightarrow> bool" where
  "accounted T E R \<longleftrightarrow> (\<forall>ip r. R ip = Some r \<longrightarrow> (\<exists>e \<in> E. heard_from ip e \<and> rec_Deadline r = ev_end e + T))"

lemma accounted_step:
  assumes "tracker_inv t" "tracker_step t e t'" "accounted (tr_timeout t) E (tr_peers t)"
  shows "accounted (tr_timeout t) (insert e E) (tr_peers t')"
proof (cases e)
  case (EvAnnounce ip req now)
  then show ?thesis using assms trk.announce_view [of t ip req now t']
    by (auto simp: accounted_def spec_Announce_def)
next
  case (EvPing ip now now' b)
  then have "tr_peers t' = snd (spec_Ping (tr_timeout t) ip now now' (tr_peers t))"
    "b = fst (spec_Ping (tr_timeout t) ip now now' (tr_peers t))"
    using assms(1,2) trk.ping_view by blast+
  then show ?thesis using EvPing assms(3) by (auto simp: accounted_def spec_Ping_def split: option.splits if_splits)
next
  case (EvPeers nv now ps)
  then show ?thesis using assms trk.peers_view by (fastforce simp: accounted_def)
next
  case (EvSweep now n)
  then have "tr_peers t' = spec_Sweep now (tr_peers t)" using assms(1,2) trk.sweep_view by blast
  then show ?thesis using EvSweep assms(3) by (fastforce simp: accounted_def spec_Sweep_def split: if_splits)
qed

lemma accounted_mono: "accounted T E R \<Longrightarrow> E \<subseteq> E' \<Longrightarrow> accounted T E' R"
  by (fastforce simp: accounted_def)

lemma call_interval: "tracker_step t e t' \<Longrightarrow> ev_begin e \<le> ev_end e"
  by (cases e) (auto elim: tracker_stepEs)

text \<open>
  The invariant of the loop, with \<open>l\<close> the time of the latest sweep: no deadline lies before it, the next sweep
  answers a tick due at most an interval after it, and every deadline was set by one of the calls \<open>E\<close>.
\<close>

definition swept :: "int \<Rightarrow> tracker_event set \<Rightarrow> int \<Rightarrow> sweeper \<Rightarrow> bool" where
  "swept T E l s \<longleftrightarrow> tracker_inv (sp_tracker s) \<and> tr_timeout (sp_tracker s) = T \<and>
     l \<le> sp_clock s \<and> fresh l (tr_peers (sp_tracker s)) \<and> accounted T E (tr_peers (sp_tracker s)) \<and>
     sp_due s \<le> sp_clock s + SweepInterval \<and>
     (case sp_chan s of Some c \<Rightarrow> c | None \<Rightarrow> sp_due s) \<le> l + SweepInterval"

lemma swept_step:
  assumes "RunSweeper s e s'" "swept T E l s" "0 \<le> T"
  shows "\<exists>l'. swept T (E \<union> {c. e = Calls c}) l' s'"
  using assms(1)
proof cases
  case (rs_time c)
  then show ?thesis using assms(2) by (intro exI [of _ l]) (auto simp: swept_def split: option.splits)
next
  case rs_tick
  then show ?thesis using assms(2)
    by (intro exI [of _ l]) (auto simp: swept_def SweepInterval_def split: option.splits)
next
  case (rs_sweep c n t')
  have inv: "tracker_inv (sp_tracker s)" "tr_timeout (sp_tracker s) = T" "l \<le> sp_clock s"
    "fresh l (tr_peers (sp_tracker s))" "accounted T E (tr_peers (sp_tracker s))"
    using assms(2) by (simp_all add: swept_def)
  have "tracker_inv t'" "tr_timeout t' = tr_timeout (sp_tracker s)"
    using rs_sweep(4) inv(1) trk.invar_step trk.ttl_step by blast+
  moreover have "fresh (sp_clock s) (tr_peers t')"
    using fresh_step [OF inv(1) rs_sweep(4) inv(4)] inv(2,3) assms(3) by simp
  moreover have "tr_peers t' = spec_Sweep (sp_clock s) (tr_peers (sp_tracker s))"
    using inv(1) rs_sweep(4) trk.sweep_view by blast
  then have "accounted T E (tr_peers t')" using inv(5) by (auto simp: accounted_def spec_Sweep_def split: if_splits)
  ultimately show ?thesis using rs_sweep(1,2) inv(2) assms(2)
    by (intro exI [of _ "sp_clock s"]) (auto simp: swept_def split: option.splits)
next
  case (rs_call c t')
  have inv: "tracker_inv (sp_tracker s)" "tr_timeout (sp_tracker s) = T" "l \<le> sp_clock s"
    "fresh l (tr_peers (sp_tracker s))" "accounted T E (tr_peers (sp_tracker s))"
    using assms(2) by (simp_all add: swept_def)
  note iv = call_interval [OF rs_call(6)]
  have "tracker_inv t'" "tr_timeout t' = tr_timeout (sp_tracker s)"
    using rs_call(6) inv(1) trk.invar_step trk.ttl_step by blast+
  moreover have "fresh l (tr_peers t')"
    using fresh_step [OF inv(1) rs_call(6) inv(4)] inv(2,3) assms(3) rs_call(4,5) iv
    by (auto split: tracker_event.splits)
  moreover have "accounted T (insert c E) (tr_peers t')"
    using accounted_step [OF inv(1) rs_call(6)] inv(2,5) by simp
  ultimately show ?thesis using rs_call(1-4) iv inv(2) assms(2)
    by (intro exI [of _ l]) (auto simp: swept_def split: option.splits)
qed

lemma sweeper_run:
  assumes "run (timely_step lag) s es s'" "swept T E l s" "0 \<le> T" "on_time lag s"
  shows "\<exists>l'. swept T (E \<union> {c. Calls c \<in> set es}) l' s' \<and> on_time lag s'"
  using assms(1,2,4)
proof (induction arbitrary: l E rule: run.induct)
  case (run_Nil s)
  then show ?case by auto
next
  case (run_Cons s e s1 es s2)
  obtain l1 where "swept T (E \<union> {c. e = Calls c}) l1 s1"
    using swept_step [OF _ run_Cons.prems(1) assms(3)] run_Cons.hyps(1) by (auto simp: timely_step_def)
  moreover have "on_time lag s1" using run_Cons.hyps(1) by (simp add: timely_step_def)
  ultimately obtain l2 where "swept T (E \<union> {c. e = Calls c} \<union> {c. Calls c \<in> set es}) l2 s2" "on_time lag s2"
    using run_Cons.IH by blast
  moreover have "E \<union> {c. e = Calls c} \<union> {c. Calls c \<in> set es} = E \<union> {c. Calls c \<in> set (e # es)}" by auto
  ultimately show ?case by metis
qed

text \<open>
  C16: The registry holds nothing but hosts that were heard of recently.  While the loop gets to its ticks within
  a lag, whoever is registered announced or was successfully pinged at most one timeout, one sweep interval and
  one lag ago, whatever the other hosts did in between; so the memory of the tracker is bounded by the
  recent traffic, and a host that died is forgotten without anybody asking for its packages.\<close>

theorem sweeper_bounds_registry:
  assumes "run (timely_step lag) (NewTicker start (NewWithTimeout T)) es s" "0 \<le> T" "0 \<le> lag"
  shows "dom (tr_peers (sp_tracker s)) \<subseteq>
      {ip. \<exists>e. Calls e \<in> set es \<and> heard_from ip e \<and> sp_clock s \<le> ev_end e + T + SweepInterval + lag} \<and>
    card (dom (tr_peers (sp_tracker s))) \<le>
      length (filter (\<lambda>x. case x of Calls e \<Rightarrow> sp_clock s \<le> ev_end e + T + SweepInterval + lag | _ \<Rightarrow> False) es)"
proof -
  let ?recent = "\<lambda>e. sp_clock s \<le> ev_end e + T + SweepInterval + lag"
  let ?Recent = "\<lambda>x. case x of Calls e \<Rightarrow> ?recent e | _ \<Rightarrow> False"
  define who where
    "who x = (case x of Calls (EvAnnounce ip req now) \<Rightarrow> ip | Calls (EvPing ip now now' b) \<Rightarrow> ip | _ \<Rightarrow> [])" for x
  have "swept T {} start (NewTicker start (NewWithTimeout T))" "on_time lag (NewTicker start (NewWithTimeout T))"
    using NewWithTimeout_inv [of T] assms(3)
    by (simp_all add: swept_def on_time_def NewTicker_def NewWithTimeout_def fresh_def accounted_def SweepInterval_def)
  from sweeper_run [OF assms(1) this(1) assms(2) this(2)] obtain l where
    l: "swept T {c. Calls c \<in> set es} l s" "on_time lag s" by auto
  then have late: "sp_clock s \<le> l + SweepInterval + lag" by (auto simp: swept_def on_time_def split: option.splits)
  have dom: "dom (tr_peers (sp_tracker s)) \<subseteq> {ip. \<exists>e. Calls e \<in> set es \<and> heard_from ip e \<and> ?recent e}"
  proof
    fix ip assume "ip \<in> dom (tr_peers (sp_tracker s))"
    then obtain r where r: "tr_peers (sp_tracker s) ip = Some r" by blast
    then obtain e where "Calls e \<in> set es" "heard_from ip e" "rec_Deadline r = ev_end e + T"
      using l(1) by (auto simp: swept_def accounted_def)
    moreover have "l \<le> rec_Deadline r" using l(1) r by (simp add: swept_def fresh_def)
    ultimately show "ip \<in> {ip. \<exists>e. Calls e \<in> set es \<and> heard_from ip e \<and> ?recent e}" using late by auto
  qed
  have "dom (tr_peers (sp_tracker s)) \<subseteq> who ` set (filter ?Recent es)"
  proof
    fix ip assume "ip \<in> dom (tr_peers (sp_tracker s))"
    then obtain e where e: "Calls e \<in> set es" "heard_from ip e" "?recent e" using dom by blast
    from e(2) have "ip = who (Calls e)" by (cases e) (simp_all add: who_def)
    then show "ip \<in> who ` set (filter ?Recent es)" using e by force
  qed
  then have "card (dom (tr_peers (sp_tracker s))) \<le> card (who ` set (filter ?Recent es))" by (rule card_mono [rotated]) simp
  also have "\<dots> \<le> card (set (filter ?Recent es))" by (rule card_image_le) simp
  also have "\<dots> \<le> length (filter ?Recent es)" by (rule card_length)
  finally show ?thesis using dom by blast
qed

theorem sweeper_bounds_registry_witness:
  "\<exists>s. run (timely_step 5) (NewTicker 0 (NewWithTimeout 60))
      [Calls (EvAnnounce ''10.0.0.1'' demo_req 0), Passes SweepInterval, Ticks, Passes (SweepInterval + 3), Sweeps 1] s \<and>
    sp_tracker s = NewWithTimeout 60 \<and> card (dom (tr_peers (sp_tracker s))) \<le> 1"
proof -
  let ?es = "[Calls (EvAnnounce ''10.0.0.1'' demo_req 0), Passes SweepInterval, Ticks, Passes (SweepInterval + 3), Sweeps 1]"
  define s1 where "s1 = (NewTicker 0 (NewWithTimeout 60))\<lparr>sp_tracker := demo_tracker 60\<rparr>"
  define s2 where "s2 = s1\<lparr>sp_clock := SweepInterval\<rparr>"
  define s3 where "s3 = s2\<lparr>sp_chan := Some SweepInterval, sp_due := SweepInterval + SweepInterval\<rparr>"
  define s4 where "s4 = s3\<lparr>sp_clock := SweepInterval + 3\<rparr>"
  define s5 where "s5 = s4\<lparr>sp_tracker := NewWithTimeout 60, sp_chan := None\<rparr>"
  note defs = s5_def s4_def s3_def s2_def s1_def NewTicker_def
  have "Tracker_Sweep [''10.0.0.1''] (\<lambda>ip. if ip = ''10.0.0.1'' then [''nginx-1.24.0''] else []) (SweepInterval + 3)
      (demo_tracker 60) = (NewWithTimeout 60, 1)"
    by (simp add: Tracker_Sweep_def sweep_one_def removeFromIndex_def drop_holder_def demo_defs fun_eq_iff SweepInterval_def)
  then have sweep: "tracker_step (demo_tracker 60) (EvSweep (SweepInterval + 3) 1) (NewWithTimeout 60)"
    by (rule step_Sweep [rotated 2])
      (auto simp: range_order_def sweep_orders_def pkgs_of_def demo_defs split: option.splits)
  have "RunSweeper (NewTicker 0 (NewWithTimeout 60)) (Calls (EvAnnounce ''10.0.0.1'' demo_req 0))
      ((NewTicker 0 (NewWithTimeout 60))\<lparr>sp_tracker := demo_tracker 60, sp_clock := ev_end (EvAnnounce ''10.0.0.1'' demo_req 0)\<rparr>)"
    by (rule rs_call) (simp_all add: NewTicker_def demo_announce SweepInterval_def)
  then have r1: "RunSweeper (NewTicker 0 (NewWithTimeout 60)) (Calls (EvAnnounce ''10.0.0.1'' demo_req 0)) s1"
    by (simp add: s1_def NewTicker_def)
  have r2: "RunSweeper s1 (Passes SweepInterval) s2"
    unfolding s2_def by (rule rs_time) (simp_all add: s1_def NewTicker_def SweepInterval_def)
  have r3: "RunSweeper s2 Ticks s3"
    using rs_tick [of s2] by (simp add: defs)
  have r4: "RunSweeper s3 (Passes (SweepInterval + 3)) s4"
    unfolding s4_def by (rule rs_time) (simp_all add: defs SweepInterval_def)
  have r5: "RunSweeper s4 (Sweeps 1) s5"
    unfolding s5_def by (rule rs_sweep [where c = SweepInterval]) (use sweep in \<open>simp_all add: defs\<close>)
  have "on_time 5 s1" "on_time 5 s2" "on_time 5 s3" "on_time 5 s4" "on_time 5 s5"
    by (simp_all add: on_time_def defs SweepInterval_def)
  with r1 r2 r3 r4 r5 have r: "run (timely_step 5) (NewTicker 0 (NewWithTimeout 60)) ?es s5"
    by (auto intro!: run.intros simp: timely_step_def)
  have "card (dom (tr_peers (sp_tracker s5))) \<le> length (filter (\<lambda>x. case x of
      Calls e \<Rightarrow> sp_clock s5 \<le> ev_end e + 60 + SweepInterval + 5 | _ \<Rightarrow> False) ?es)"
    using sweeper_bounds_registry [OF r] by simp
  also have "\<dots> \<le> 1" by simp
  finally show ?thesis using r by (intro exI [of _ s5]) (simp add: s5_def)
qed

end
