(* ===== verification/Demo.thy ===== *)
theory Demo
  imports Peer_URL
begin

text \<open>
  The demonstration program (\<open>src/cmd/demo/main.go\<close>): one process that seeds a package from a stand-in cache,
  fetches it over the wire, verifies it, and asks for a package that is not held.  It runs the production
  seeder, cache source and fetch routine.

  The outside is a record: the temporary directory, the file tree after the stand-in package is written,
  the address the listener gets, the temporary files of the two fetches.  \<open>log.Fatal\<close> ends the process
  without running the deferred calls, so a failed run keeps its files.
\<close>

record demo_world =
  dw_cache :: "string option"                       \<comment> \<open>\<open>os.MkdirTemp\<close>\<close>
  dw_write :: "string \<Rightarrow> byte list \<Rightarrow> node option"   \<comment> \<open>the tree after \<open>os.WriteFile\<close>\<close>
  dw_listen :: "string option"                      \<comment> \<open>\<open>net.Listen\<close>: the listener's address\<close>
  dw_remote :: string                               \<comment> \<open>the requester's end of the connection\<close>
  dw_first :: fetch_env
  dw_second :: fetch_env
  dw_temp :: string                                 \<comment> \<open>\<open>os.TempDir\<close>\<close>
  dw_read_ok :: bool
  dw_discard_ok :: bool

datatype demo_exit =
    Fatal_setup
  | Fatal_fetch peer_error
  | Fatal_read
  | Fatal_not_refused
  | Demo_done "byte list" peer_error                \<comment> \<open>the verified bytes, and how the second fetch was refused\<close>

definition demo_name :: string where "demo_name = ''nginx-1.24.0_2''"

definition demo_content :: "byte list" where
  "demo_content = bytes_of ''pretend this is a real .pkg archive payload''"

definition demo_expectation :: Want where
  "demo_expectation = \<lparr>Hash = sha256_hex demo_content, Size = int (length demo_content)\<rparr>"

definition demo_seeder :: "node \<Rightarrow> string \<Rightarrow> Server" where
  "demo_seeder root cache_dir =
     \<lparr>Source = Some (CacheSource_Open root (NewCacheSource cache_dir)),
      MaxConcurrentSeeds = 0, MaxConcurrentSeedsPerIP = 0, OnNotHeld = False, limiter = None\<rparr>"

definition demo_main :: "demo_world \<Rightarrow> tmpfs \<Rightarrow> demo_exit \<times> tmpfs" where
  "demo_main w fs =
     (case dw_cache w of
        None \<Rightarrow> (Fatal_setup, fs)
      | Some cache_dir \<Rightarrow>
          (case dw_write w (Join2 cache_dir (demo_name @ ''.pkg'')) demo_content of
             None \<Rightarrow> (Fatal_setup, fs)
           | Some root \<Rightarrow>
               (case dw_listen w of
                  None \<Rightarrow> (Fatal_setup, fs)
                | Some addr \<Rightarrow>
                    let s = demo_seeder root cache_dir;
                        wire = http_get s (dw_remote w)
                    in case FetchFromPeer ((dw_first w)\<lparr>reply := wire\<rparr>) addr demo_name demo_expectation (dw_temp w) fs of
                         (Inl err, fs1) \<Rightarrow> (Fatal_fetch err, fs1)
                       | (Inr tmp, fs1) \<Rightarrow>
                           if \<not> dw_read_ok w then (Fatal_read, fs1)
                           else
                             case FetchFromPeer ((dw_second w)\<lparr>reply := wire\<rparr>) addr ''notheld-1.0'' demo_expectation (dw_temp w) fs1 of
                               (Inr other, fs2) \<Rightarrow> (Fatal_not_refused, fs2)
                             | (Inl err, fs2) \<Rightarrow>
                                 (Demo_done (case fs1 tmp of None \<Rightarrow> [] | Some bs \<Rightarrow> bs) err,
                                  Discard (dw_discard_ok w) (Some tmp) fs2))))"

subsection \<open>What the seeder answers\<close>

lemma demo_acquires: "\<exists>l'. acquire ip (the_limiter (demo_seeder root d)) = Inr l'"
  by (simp add: the_limiter_def limits_def demo_seeder_def newSeedLimiter_def acquire_def Let_def)

text \<open>A seeder without caps, asked for something else than it holds.\<close>

lemma demo_not_held:
  assumes "wire_request r nv" "CacheSource_Open root (NewCacheSource d) nv = None"
  shows "StatusCode (fst (ServeHTTP r (demo_seeder root d))) = 404"
proof -
  obtain l' where "acquire (remoteIP r) (the_limiter (demo_seeder root d)) = Inr l'" using demo_acquires by blast
  then show ?thesis using assms
    by (simp add: ServeHTTP_wire seed_transfer_def Server_open_def demo_seeder_def)
qed

text \<open>The directory as \<open>os.MkdirTemp\<close> and \<open>os.WriteFile\<close> leave it: one file.\<close>

definition demo_tree_ok :: "demo_world \<Rightarrow> string \<Rightarrow> node \<Rightarrow> bool" where
  "demo_tree_ok w d root \<longleftrightarrow> dw_cache w = Some d \<and> HasPrefix d ''/'' \<and>
     dw_write w (Join2 d (demo_name @ ''.pkg'')) demo_content = Some root \<and>
     lookup root (rooted_segs d) = Some (Directory True [(demo_name @ ''.pkg'', Regular demo_content)])"

lemma demo_names: "validName demo_name" "safe_name demo_name" "CHR ''/'' \<notin> set demo_name"
  "validName ''notheld-1.0''" "CHR ''/'' \<notin> set ''notheld-1.0''"
  by (simp_all add: demo_name_def validName_def control_char_def safe_name_def)

lemma demo_cache:
  assumes "demo_tree_ok w d root"
  shows "cache_holds root (NewCacheSource d) demo_name demo_content"
    and "CacheSource_Open root (NewCacheSource d) ''notheld-1.0'' = None"
proof -
  have c: "cs_dir (NewCacheSource d) = d" by (simp add: NewCacheSource_def)
  have t: "HasPrefix (cs_dir (NewCacheSource d)) ''/''"
    "lookup root (rooted_segs (cs_dir (NewCacheSource d))) = Some (Directory True [(demo_name @ ''.pkg'', Regular demo_content)])"
    using assms by (simp_all add: demo_tree_ok_def c)
  have "map_of [(demo_name @ ''.pkg'', Regular demo_content)] (''notheld-1.0'' @ ''.pkg'') = None" by (simp add: demo_name_def)
  then show "CacheSource_Open root (NewCacheSource d) ''notheld-1.0'' = None"
    using cache_open_iff [OF t, of "''notheld-1.0''"] by (cases "CacheSource_Open root (NewCacheSource d) ''notheld-1.0''") auto
  show "cache_holds root (NewCacheSource d) demo_name demo_content"
    using cache_entry [OF t(1,2) demo_names(2)]
      resolve_entry [OF t(2) safe_name_plain [OF demo_names(2)], of "maxSymlinks - 1"] demo_names(2)
    by (simp add: cache_holds_def maxSymlinks_def packageFileExtension_def)
qed

text \<open>A local environment, whatever the peer replies.\<close>

lemma local_ok_reply [simp]: "local_ok (e\<lparr>reply := r\<rparr>) d fs \<longleftrightarrow> local_ok e d fs"
  by (simp add: local_ok_def)

lemma demo_first_fetch:
  assumes "demo_tree_ok w d root" "ParseIP ip = Some v" "0 \<le> port" "local_ok e dir fs"
  shows "\<exists>tmp. FetchFromPeer (e\<lparr>reply := http_get (demo_seeder root d) remote\<rparr>) (JoinHostPort ip (Itoa port)) demo_name
      demo_expectation dir fs = (Inr tmp, fs(tmp \<mapsto> demo_content)) \<and> fs tmp = None"
proof -
  let ?s = "demo_seeder root d" and ?e = "e\<lparr>reply := http_get (demo_seeder root d) remote\<rparr>" and ?a = "JoinHostPort ip (Itoa port)"
  obtain l' where acq: "acquire (remoteIP \<lparr>Method = ''GET'', URL_Path = ''/pkg/'' @ demo_name, RemoteAddr = remote\<rparr>) (the_limiter ?s) = Inr l'"
    using demo_acquires by blast
  have src: "Source ?s = Some (CacheSource_Open root (NewCacheSource d))" by (simp add: demo_seeder_def)
  have off: "offer ?e ?a demo_name demo_expectation = Some (Finite demo_content False)"
  proof (rule seeder_offer [OF src demo_cache(1) [OF assms(1)] demo_names(1) acq])
    show "reply ?e ?a (''/pkg/'' @ demo_name) = seeder_reply ?s remote (''/pkg/'' @ demo_name)"
      using http_get_seeder [OF assms(2,3), of ?s remote demo_name] by simp
  qed (simp add: demo_expectation_def)
  have len: "length demo_content = 43" by (simp add: demo_content_def bytes_of_def)
  have "honest ?e ?a demo_name demo_expectation"
    using off by (simp add: honest_def demo_expectation_def)
  then obtain tmp where tmp: "fst (FetchFromPeer ?e ?a demo_name demo_expectation dir fs) = Inr tmp"
    using FetchFromPeer_honest [of ?e ?a demo_name demo_expectation dir fs] assms(4) demo_names(1)
    by (auto simp: demo_expectation_def len)
  show ?thesis
  proof (rule FetchFromPeer_cases [of ?e ?a demo_name demo_expectation dir fs])
    fix tmp' body bs
    assume acc: "FetchFromPeer ?e ?a demo_name demo_expectation dir fs = (Inr tmp', fs(tmp' \<mapsto> bs))"
      "offer ?e ?a demo_name demo_expectation = Some body" "spool_body ?e demo_expectation body = (None, bs)" "fs tmp' = None"
    have "bs = demo_content"
      using acc(2,3) off assms(4)
      by (auto simp: spool_body_def spool_copy_def local_ok_def demo_expectation_def len limit_copy_Finite wrap64_id Let_def split: if_splits)
    with acc show ?thesis by blast
  qed (use tmp in auto)
qed

lemma demo_second_fetch:
  assumes "demo_tree_ok w d root" "ParseIP ip = Some v" "0 \<le> port"
  shows "FetchFromPeer (e\<lparr>reply := http_get (demo_seeder root d) remote\<rparr>) (JoinHostPort ip (Itoa port)) ''notheld-1.0'' want dir fs =
    (Inl (ErrPeerError 404), fs)"
proof -
  let ?r = "\<lparr>Method = ''GET'', URL_Path = ''/pkg/'' @ ''notheld-1.0'', RemoteAddr = remote\<rparr>"
  have "wire_request ?r ''notheld-1.0''" using demo_names(4,5) by (simp add: wire_request_def)
  from demo_not_held [OF this demo_cache(2) [OF assms(1)]]
  have "StatusCode (fst (ServeHTTP ?r (demo_seeder root d))) = 404" .
  then show ?thesis using http_get_seeder [OF assms(2,3), of "demo_seeder root d" remote "''notheld-1.0''"] demo_names(4)
    by (simp add: FetchFromPeer_def packagePathPrefix_def seeder_reply_def)
qed

text \<open>
  The demonstration demonstrates.  When the system gives the process its directory, its file, a listening
  address and room for a temporary file, the run ends by itself with the package verified byte for byte and
  the other one refused with a 404, and no temporary file is left.\<close>

theorem demo_demonstrates:
  assumes "demo_tree_ok w d root" "dw_listen w = Some (JoinHostPort ip (Itoa port))" "ParseIP ip = Some v" "0 \<le> port"
    "local_ok (dw_first w) (dw_temp w) fs" "dw_read_ok w" "dw_discard_ok w"
  shows "demo_main w fs = (Demo_done demo_content (ErrPeerError 404), fs)"
proof -
  obtain tmp where tmp: "FetchFromPeer ((dw_first w)\<lparr>reply := http_get (demo_seeder root d) (dw_remote w)\<rparr>)
      (JoinHostPort ip (Itoa port)) demo_name demo_expectation (dw_temp w) fs = (Inr tmp, fs(tmp \<mapsto> demo_content))" "fs tmp = None"
    using demo_first_fetch [OF assms(1,3,4,5)] by blast
  note second = demo_second_fetch [OF assms(1,3,4)]
  have w: "dw_cache w = Some d" "dw_write w (Join2 d (demo_name @ ''.pkg'')) demo_content = Some root"
    using assms(1) by (simp_all add: demo_tree_ok_def)
  show ?thesis unfolding demo_main_def w assms(2) option.case Let_def tmp(1) prod.case sum.case second
    using assms(6,7) tmp(2) by (simp add: Discard_def Remove_def fun_upd_idem)
qed

definition demo_loopback :: demo_world where
  "demo_loopback = \<lparr>dw_cache = Some ''/c'', dw_write = (\<lambda>p bs. Some (Directory True [(''c'', Directory True [(demo_name @ ''.pkg'', Regular bs)])])),
     dw_listen = Some (JoinHostPort ''127.0.0.1'' (Itoa 40000)), dw_remote = ''127.0.0.1:40001'',
     dw_first = demo_fetch_env None, dw_second = demo_fetch_env None, dw_temp = ''/t'', dw_read_ok = True, dw_discard_ok = True\<rparr>"

theorem demo_demonstrates_witness: "demo_main demo_loopback Map.empty = (Demo_done demo_content (ErrPeerError 404), Map.empty)"
proof -
  have "ParseIP ''127.0.0.1'' \<noteq> None"
    by (simp add: ParseIP_def parseIPv4_def v4_field_def Let_def dec_value_def is_digit_def)
  then obtain v where v: "ParseIP ''127.0.0.1'' = Some v" by blast
  have "local_ok (demo_fetch_env None) ''/t'' Map.empty"
    by (simp add: local_ok_def demo_fetch_env_def) (rule exI [of _ 0], simp)
  moreover have "rooted_segs ''/c'' = [''c'']" by (simp add: rooted_segs_def)
  ultimately show ?thesis
    by (intro demo_demonstrates [where d = "''/c''" and root = "Directory True [(''c'', Directory True [(demo_name @ ''.pkg'', Regular demo_content)])]" and ip = "''127.0.0.1''" and port = 40000, OF _ _ v])
      (simp_all add: demo_tree_ok_def demo_loopback_def HasPrefix_def)
qed

end
