(* ===== verification/Spec2Isabelle.thy ===== *)
theory Spec2Isabelle
  imports Daemon Trac_Server Delivery Fetch_Parallel Sweeper Demo
begin

text \<open>
  A model of a peer-to-peer package daemon for FreeBSD's pkg, with the theorems that make it correct.

  \<^bold>\<open>The program.\<close>  A daemon (\<open>cmd/jmj\<close>) runs beside pkg on every host.  It watches the package cache and
  tells a tracker (\<open>cmd/trac\<close>) which packages it holds; it serves those packages to other daemons; and it
  stands in for a package mirror towards pkg: a package that pkg asks for is looked up in pkg's own
  repository databases for its expected size and SHA-256, fetched from a peer the tracker names, verified,
  and handed to pkg, or else relayed from a conventional mirror.  The tracker is an in-memory registry
  keyed by the source IP of a connection, with deadlines that pings renew.

  \<^bold>\<open>Theories and source files\<close> (under \<open>src/\<close>), from the ground up.

  The language and its library: \<open>Prelude\<close> (range over maps, runs of step relations), \<open>Go_Strings\<close>, \<open>Go_Path\<close>,
  \<open>Go_Net\<close>, \<open>Go_Unicode\<close>, \<open>Go_Http\<close>, \<open>Go_Header\<close>, \<open>Go_OS\<close> (a file tree with links), \<open>Go_URL\<close>, \<open>Go_Query\<close>, \<open>Go_JSON\<close>
  (\<open>encoding/json\<close>: parser and printer) and \<open>Go_Crypto\<close> (SHA-256).  They hold what the program uses of these
  packages, with the laws the components need.

  \<^item> \<open>Proto\<close>, \<open>Proto_Codec\<close>: \<open>internal/proto\<close>.  Messages, limits, validators, and the JSON codec.
  \<^item> \<open>Tracker\<close>: \<open>internal/tracker\<close>.  The registry with its reverse index; announce, ping, lookup and sweep.
  \<^item> \<open>Sweeper\<close>: the goroutine \<open>RunSweeper\<close> of the same file, as a step relation of its ticker, the ticker's channel,
    the loop and the handlers' calls.
  \<^item> \<open>Trac_Server\<close>: \<open>cmd/trac\<close>.  Routing, the three handlers and the body limit over the registry.
  \<^item> \<open>Seed_Limiter\<close>, \<open>Blacklist\<close>, \<open>Fetch\<close>, \<open>Seed_Server\<close>: \<open>internal/peer\<close>.  The two seeding caps, the list of corrupt
    peers, one fetch attempt and the loop over holders, the seeder's handler and its \<open>Serve\<close>/\<open>Close\<close> life cycle.
  \<^item> \<open>Peer_URL\<close>: the request of that wire as text, from the requester's URL to the path the handler sees.
  \<^item> \<open>Fetch_Parallel\<close>: the same fetch for any number of requests at once, one step for each access to what they
    share, the temporary directory and the blacklist.
  \<^item> \<open>Cache_Source\<close>, \<open>Watcher\<close>, \<open>Repo_DB\<close>, \<open>Facade\<close>, \<open>Repo_Watcher\<close>, \<open>Daemon\<close>: \<open>internal/daemon\<close>, one theory for
    each file of that name; \<open>Repo_DB\<close> has \<open>repodb.go\<close>, \<open>repository.go\<close> and \<open>upstreamcheck.go\<close>.
  \<^item> \<open>Discovery\<close>: \<open>internal/discovery\<close>.  The tracker client and the announce/ping loop.
  \<^item> \<open>Config\<close>: \<open>internal/config\<close> and the two modes of \<open>cmd/jmj\<close> that read and print configurations.
  \<^item> \<open>Demo\<close>: \<open>cmd/demo\<close>.  The seeder and the requester in one process.
  \<^item> \<open>Delivery\<close>: no source of its own.  The holder's keep-alive, the tracker, the requester's client, the fetch
    loop, the holder's seeder and the requester's facade composed into one delivery.

  \<^bold>\<open>State and operations.\<close>  A struct is a record, a method is a function from the record to its result and
  the new record, an error is a value of a datatype of the component.  What the outside does (a peer's
  reply, the disk, the clock, the order of a map loop, what fsnotify accepts, what SQLite returns) is an
  argument.  Where the code runs goroutines, the component has a step relation and the theorems speak of
  all its runs: the registry with concurrent requests and sweeps, the limiter and the seeder with
  interleaved transfers, parallel package requests, \<open>Serve\<close> against \<open>Close\<close>, the repository watcher
  with its settle timer, the tracker server, and the daemon with reloads, notifications and catalogue refreshes.  In \<open>Daemon\<close> the components
  that run are objects with numbers, so that a stale pointer, a leaked goroutine and a catalogue shared
  by pointer are visible in the model.

  \<^bold>\<open>How the parts meet.\<close>  Interfaces are locales: the registry's contract, the package source of the seeder,
  the repository database, the tracker connection of the keep-alive, the reload of the repository
  watcher.  Each is interpreted on the code's own provider.  \<open>Discovery\<close> puts the client, the wire and the
  tracker server together (\<open>swarm\<close>); \<open>Seed_Server\<close> puts a seeder and a fetch loop together; \<open>Delivery\<close>
  puts these and the facade together, from the scan on one host to pkg on another; \<open>Daemon\<close> puts the
  watchers, the keep-alive, the facade and the seeder of one host together.

  \<^bold>\<open>What is shown.\<close>
  \<^item> Integrity: pkg never receives peer bytes that differ from the repository row, no peer failure is
    visible to pkg, and exactly the peers that sent wrong bytes are blacklisted; parallel requests never
    share a temporary file or disturb each other's bytes.
  \<^item> Confinement: a name from the wire opens only a regular file of the cache, a request path never leaves
    the configured mirror, a validated facade address is a loopback address, pkg's databases are
    only opened for reading, and a client of the tracker touches only its own registration.
  \<^item> Invariants: the reverse index is exact, records are well formed, the caps hold under every
    interleaving, nothing runs that the daemon does not know, no listener survives \<open>Close\<close>, a stopped
    watcher holds nothing.
  \<^item> Liveness: one honest holder suffices, under any load, an announced package reaches pkg on another host,
    timely pings keep a registration, a tick heals a forgotten one, notifications reach the keep-alive that runs.
  \<^item> Functional tables: the status codes of the three HTTP servers, the result of a reload, of a scan and of
    a lookup.
  \<^item> Round trips: announces through the codec, configurations through the generator and the loader, package
    names through the URL of the peer wire.
  \<^item> Bounds: the bytes an attempt can spool, and the size of the registry by the recent traffic.
  \<^item> Refinement and equivalence: a lookup over the wire is a lookup in the registry, a sweep cannot be
    observed, a catalogue refresh is a fresh open, a SIGHUP ends where a start would.
  \<^item> Error behaviour, and where it falls short of what the comments promise: reloads that are not retried
    or not applied, a startup announce that is not repeated, announces that can never be accepted.

  \<^bold>\<open>Bounds and fuel.\<close>  Only the JSON parser has fuel: \<open>2 n + 2\<close> steps for \<open>n\<close> bytes, which is proved to be
  enough for every input.  Symbolic links are followed 32 times, the FreeBSD limit.  Every other
  recursion is structural or has a measure.

  \<^bold>\<open>Not modelled.\<close>
  \<^item> Log lines, and the path by which the configuration file is found.
  \<^item> The range and conditional headers that \<open>http.ServeContent\<close> would answer with 206, 304, 412 or 416, which no
    daemon sends, and the headers \<open>net/http\<close> itself adds to an answer (\<open>Date\<close>, a sniffed \<open>Content-Type\<close>).
  \<^item> HTTP framing, connection reuse and timeouts, beyond the outcome of an exchange; the request target
    \<open>*\<close> at the tracker, which \<open>ServeMux\<close> answers with 400.
  \<^item> A tracker URL with a path: the composition of client and tracker server (\<open>swarm_inv\<close>) is for a bare
    origin, as in the defaults and the documentation.  The client's following of redirects.
  \<^item> SQLite, fsnotify and the mirror, which are parameters.
  \<^item> An empty \<open>temp_dir\<close> handed to \<open>os.CreateTemp\<close>, which would mean the system's own directory.
  \<^item> The instant between the bind of the facade's address and its registration as a listener, which are
    one step.
  Times of the tracker are integers and do not overflow.
\<close>

end
